(* ===== verification/Prelude.thy ===== *)
theory Prelude
  imports Main "HOL-Library.Word"
begin

text \<open>
  The shared base of the development: the C integer types as words, the two alignment
  macros of src/src/include/virtio_inp.h, the collection \<open>frame\<close> of facts that say
  which part of a state an operation leaves alone, and the lemmas on aligned addresses
  and on lists that the component theories rest on.
\<close>

unbundle bit_operations_syntax

section \<open>C integers\<close>

type_synonym u8 = "8 word"
type_synonym u16 = "16 word"
type_synonym u32 = "32 word"
type_synonym u64 = "64 word"

text \<open>Addresses are 64-bit; \<open>NULL\<close> is the address 0.\<close>

abbreviation (input) NULL :: u64 where
  "NULL \<equiv> 0"

text \<open>The size of a page (PAGE_SIZE of cpage.h, ncpage.h) and -1UL.\<close>

abbreviation (input) PAGE_SIZE :: u64 where
  "PAGE_SIZE \<equiv> 4096"

abbreviation (input) minus1UL :: u64 where
  "minus1UL \<equiv> 0xFFFFFFFFFFFFFFFF"

named_theorems frame \<open>what an operation leaves unchanged\<close>

section \<open>Alignment\<close>

text \<open>ALIGN_UP_POT and ALIGN_DOWN_POT of virtio_inp.h, on 64-bit operands.\<close>

definition ALIGN_UP_POT :: "u64 \<Rightarrow> u64 \<Rightarrow> u64" where
  "ALIGN_UP_POT x y = (x + y - 1) AND (- y)"

definition ALIGN_DOWN_POT :: "u64 \<Rightarrow> u64 \<Rightarrow> u64" where
  "ALIGN_DOWN_POT x y = x AND (- y)"

text \<open>\<open>aligned n a\<close>: the low \<open>n\<close> bits of \<open>a\<close> are zero.\<close>

definition aligned :: "nat \<Rightarrow> 'a::len word \<Rightarrow> bool" where
  "aligned n a \<longleftrightarrow> take_bit n a = 0"

lemma aligned_iff_dvd: "aligned n (a::'a::len word) \<longleftrightarrow> 2 ^ n dvd unat a"
proof -
  have "unat (take_bit n a) = unat a mod 2 ^ n"
    by (simp only: unsigned_take_bit_eq) (simp add: take_bit_eq_mod)
  then show ?thesis
    unfolding aligned_def dvd_eq_mod_eq_0 by (metis unat_eq_0)
qed

lemma aligned_bit: "aligned n a \<Longrightarrow> k < n \<Longrightarrow> \<not> bit (a::'a::len word) k"
  by (metis aligned_def bit_take_bit_iff bit_0_eq bot_apply bot_bool_def)

lemma small_bit:
  assumes "unat (x::'a::len word) < 2 ^ n" "n \<le> k"
  shows "\<not> bit x k"
proof -
  have "take_bit n x = x"
    using assms(1) by (simp add: word_unat_eq_iff unsigned_take_bit_eq take_bit_nat_eq_self)
  then show ?thesis
    by (metis assms(2) bit_take_bit_iff not_le)
qed

lemma aligned_disjoint:
  assumes "aligned n b" "unat x < 2 ^ n"
  shows "b AND x = (0::'a::len word)"
proof (rule bit_word_eqI)
  fix k
  show "bit (b AND x) k = bit (0::'a word) k"
    using aligned_bit [OF assms(1), of k] small_bit [OF assms(2), of k]
    by (cases "k < n") (auto simp: bit_and_iff)
qed

lemma aligned_add_or:
  "aligned n b \<Longrightarrow> unat x < 2 ^ n \<Longrightarrow> b + x = b OR (x::'a::len word)"
  by (simp add: aligned_disjoint disjunctive_add_eq_or)

lemma bit_drop: "bit (drop_bit k x) n = bit (x::'a::len word) (k + n)"
  by (simp add: bit_drop_bit_eq)

text \<open>An offset below the alignment neither changes the high bits nor gets lost.\<close>

lemma aligned_add_take_bit:
  assumes "aligned n b" "unat x < 2 ^ n"
  shows "take_bit n (b + x) = (x::'a::len word)"
proof -
  have "take_bit n x = x"
    using assms(2) by (simp add: word_unat_eq_iff unsigned_take_bit_eq take_bit_nat_eq_self)
  then show ?thesis
    using assms by (simp add: aligned_add_or aligned_def)
qed

lemma aligned_add_drop_bit:
  assumes "aligned n b" "unat x < 2 ^ n"
  shows "drop_bit n (b + x) = drop_bit n (b::'a::len word)"
proof (rule bit_word_eqI)
  fix k
  show "bit (drop_bit n (b + x)) k = bit (drop_bit n b) k"
    using small_bit [OF assms(2), of "n + k"]
    by (auto simp: aligned_add_or [OF assms] bit_simps)
qed

lemma aligned_eqI:
  assumes "aligned n a" "aligned n b" "drop_bit n a = drop_bit n (b::'a::len word)"
  shows "a = b"
proof -
  have "a = push_bit n (drop_bit n a) + take_bit n a" for a :: "'a word"
    by (simp add: bits_ident)
  then show ?thesis
    using assms by (metis aligned_def)
qed

lemma aligned_add_inj:
  assumes "aligned n a" "aligned n b" "unat x < 2 ^ n" "unat y < 2 ^ n"
    and "a + x = b + (y::'a::len word)"
  shows "a = b \<and> x = y"
proof
  show "x = y"
    using assms aligned_add_take_bit by metis
  show "a = b"
    using assms aligned_add_drop_bit aligned_eqI by metis
qed

lemma aligned_add:
  assumes "aligned n a" "aligned n b"
  shows "aligned n (a + (b::'a::len word))"
proof -
  have "x = push_bit n (drop_bit n x)" if "aligned n x" for x :: "'a word"
    using that bits_ident [of n x] by (simp add: aligned_def)
  then have "a + b = push_bit n (drop_bit n a + drop_bit n b)"
    using assms by (metis push_bit_add)
  then show ?thesis
    by (simp add: aligned_def take_bit_push_bit)
qed

lemma aligned_diff:
  assumes "aligned n a" "aligned n b"
  shows "aligned n (a - (b::'a::len word))"
proof -
  have "x = push_bit n (drop_bit n x)" if "aligned n x" for x :: "'a word"
    using that bits_ident [of n x] by (simp add: aligned_def)
  then have "a - b = push_bit n (drop_bit n a - drop_bit n b)"
    using assms by (metis push_bit_eq_mult left_diff_distrib)
  then show ?thesis
    by (simp add: aligned_def take_bit_push_bit)
qed

lemma aligned_mono: "aligned n a \<Longrightarrow> m \<le> n \<Longrightarrow> aligned m (a::'a::len word)"
  by (metis aligned_def min.absorb1 take_bit_of_0 take_bit_take_bit)

lemma aligned_0 [simp]: "aligned n 0"
  by (simp add: aligned_def)

text \<open>Masking with \<open>-y\<close>, the core of both alignment macros, rounds down to a multiple.\<close>

lemma unat_and_minus_exp: "unat (w AND (- (2 ^ n))) = unat (w::'a::len word) div 2 ^ n * 2 ^ n"
proof -
  have "w AND (- (2 ^ n)) = push_bit n (drop_bit n w)"
    unfolding minus_exp_eq_not_mask by (rule bit_word_eqI) (auto simp: bit_simps)
  then have "unat (w AND (- (2 ^ n))) = take_bit LENGTH('a) (push_bit n (unat (drop_bit n w)))"
    by (simp only: unsigned_push_bit_eq)
  also have "unat (drop_bit n w) = unat w div 2 ^ n"
    by (simp only: unat_drop_bit_eq) (simp only: drop_bit_eq_div)
  also have "push_bit n (unat w div 2 ^ n) = unat w div 2 ^ n * 2 ^ n"
    by (simp add: push_bit_eq_mult)
  finally show ?thesis
    using le_less_trans [OF div_times_less_eq_dividend unsigned_less, of w "2 ^ n"]
    by (simp add: take_bit_nat_eq_self)
qed

text \<open>Counting up and reducing below a bound.\<close>

lemma unat_plus1:
  assumes "a < (b::'a::len word)"
  shows "unat (a + 1) = Suc (unat a)"
proof -
  have "unat a < unat b" "unat b < 2 ^ LENGTH('a)"
    using assms by (simp_all add: word_less_nat_alt)
  then have "unat a + 1 < 2 ^ LENGTH('a)" by linarith
  then show ?thesis by (cases "LENGTH('a) = 1") (auto simp: unat_word_ariths)
qed

lemma word_mod_self: "a < b \<Longrightarrow> a mod b = (a::'a::len word)"
  by (simp add: word_unat_eq_iff unat_mod_distrib word_less_nat_alt)

lemma unat_0_iff: "unat a = 0 \<longleftrightarrow> a = (0::'a::len word)"
  by (metis unat_0 word_unat_eq_iff)

text \<open>Small values read the same signed and unsigned.\<close>

lemma sint_small:
  assumes "unat w < 2 ^ 63"
  shows "sint (w::u64) = uint w"
proof -
  have "unat w < 9223372036854775808" using assms by simp
  then have "uint w < 9223372036854775808" unfolding uint_nat by linarith
  moreover have "- (2 ^ 63) \<le> uint w" by (rule order_trans [OF _ uint_ge_0]) simp
  ultimately show ?thesis
    using signed_take_bit_int_eq_self [of 63 "uint w"] by (simp add: sint_uint)
qed

lemma uint_u64_le: "uint (w::u64) \<le> 18446744073709551616"
proof -
  have "uint w < 2 ^ LENGTH(64)" by (rule unsigned_less)
  then show ?thesis by simp
qed

lemma sint_of_int32: "- (2 ^ 31) \<le> d \<Longrightarrow> d < 2 ^ 31 \<Longrightarrow> sint (word_of_int d :: u32) = d"
  using signed_take_bit_int_eq_self [of 31 d] by (simp add: signed_of_int)

lemma take_bit_64 [simp]: "take_bit 64 (x :: u64) = x"
  using take_bit_length_eq [of x] by simp

text \<open>Counting up below a bound does not wrap.\<close>

lemma unat_Suc_below: "(i :: 'a::len word) < n \<Longrightarrow> unat (i + 1) = Suc (unat i)"
proof -
  assume "i < n"
  have "1 + i \<noteq> 0"
  proof
    assume "1 + i = 0"
    then have "i = - 1" by (simp add: eq_neg_iff_add_eq_0 add.commute)
    with \<open>i < n\<close> show False using word_order.extremum [of n] by (simp add: not_less [symmetric])
  qed
  then show ?thesis using unatSuc [of i] by (simp add: add.commute)
qed

lemma count_down: "(i :: 'a::len word) < n \<Longrightarrow> unat n - unat (i + 1) < unat n - unat i"
  using unat_Suc_below [of i n] by (simp add: word_less_nat_alt)

text \<open>Rounding an address up to the next page, as ALIGN_UP_POT does.\<close>

lemma aligned_down: "aligned 12 b \<Longrightarrow> unat y < 4096 \<Longrightarrow> (b + y) AND - 4096 = (b :: u64)"
proof -
  assume a: "aligned 12 b" "unat y < 4096"
  have "(b OR y) AND NOT (mask 12) = b"
  proof (rule bit_word_eqI)
    fix n
    show "bit ((b OR y) AND NOT (mask 12)) n = bit b n"
      using aligned_bit [OF a(1), of n] small_bit [of y 12 n] a(2) by (cases "n < 12") (auto simp: bit_simps dest: bit_imp_le_length)
  qed
  moreover have "b + y = b OR y" using aligned_add_or [OF a(1), of y] a(2) by simp
  moreover have "- 4096 = NOT (mask 12 :: u64)" by (simp add: mask_eq_decr_exp)
  ultimately show ?thesis by (simp only:)
qed

lemma round_up:
  assumes "aligned 12 b" "unat t < 4096"
  shows "(b + t + 4095) AND - 4096 = (if t = 0 then b else b + (4096 :: u64))"
proof (cases "t = 0")
  case False
  have "aligned 12 (b + 4096)" using aligned_add [OF assms(1), of 4096] by (simp add: aligned_def take_bit_eq_mod)
  moreover have "unat (t - 1) < 4096" using assms(2) False by (simp add: unat_minus_one)
  ultimately have "(b + 4096 + (t - 1)) AND - 4096 = b + 4096" by (rule aligned_down)
  moreover have "b + 4096 + (t - 1) = b + t + 4095" by simp
  ultimately show ?thesis using False by simp
qed (use aligned_down [OF assms(1), of 4095] in simp)

lemma page_split:
  obtains b where "aligned 12 b" "ua = b + take_bit 12 (ua :: u64)" "unat (take_bit 12 ua) < 4096"
proof -
  have "aligned 12 (push_bit 12 (drop_bit 12 ua))" by (simp add: aligned_def take_bit_push_bit)
  moreover have "ua = push_bit 12 (drop_bit 12 ua) + take_bit 12 ua" using bits_ident [of 12 ua] by simp
  moreover have "unat (take_bit 12 ua) < 4096"
    using take_bit_nat_less_exp [of 12 "unat ua"] by (simp add: unsigned_take_bit_eq)
  ultimately show ?thesis using that by blast
qed

end
