(* ===== verification/Memory.thy ===== *)
theory Memory
  imports Prelude
begin

text \<open>
  Byte-addressed memory and the little-endian loads and stores the compiled C performs
  on it, with the memory helpers of src/src/memhelp.c (\<open>memset\<close>, \<open>memcpy\<close>,
  \<open>memcmp\<close>). The lemmas say what a load sees after a store to the same or another
  place, what the three loops do to every byte, and that pages are separate.
\<close>

section \<open>Loads and stores\<close>

type_synonym mem = "u64 \<Rightarrow> u8"

definition load64 :: "mem \<Rightarrow> u64 \<Rightarrow> u64" where
  "load64 m a =
     ucast (m a) OR push_bit 8 (ucast (m (a + 1))) OR push_bit 16 (ucast (m (a + 2)))
     OR push_bit 24 (ucast (m (a + 3))) OR push_bit 32 (ucast (m (a + 4)))
     OR push_bit 40 (ucast (m (a + 5))) OR push_bit 48 (ucast (m (a + 6)))
     OR push_bit 56 (ucast (m (a + 7)))"

definition store64 :: "mem \<Rightarrow> u64 \<Rightarrow> u64 \<Rightarrow> mem" where
  "store64 m a v = m(a := ucast v, a + 1 := ucast (drop_bit 8 v),
     a + 2 := ucast (drop_bit 16 v), a + 3 := ucast (drop_bit 24 v),
     a + 4 := ucast (drop_bit 32 v), a + 5 := ucast (drop_bit 40 v),
     a + 6 := ucast (drop_bit 48 v), a + 7 := ucast (drop_bit 56 v))"

text \<open>The narrower loads of structure fields.\<close>

definition load16 :: "mem \<Rightarrow> u64 \<Rightarrow> u16" where
  "load16 m a = ucast (m a) OR push_bit 8 (ucast (m (a + 1)))"

definition load32 :: "mem \<Rightarrow> u64 \<Rightarrow> u32" where
  "load32 m a =
     ucast (m a) OR push_bit 8 (ucast (m (a + 1))) OR push_bit 16 (ucast (m (a + 2))) OR push_bit 24 (ucast (m (a + 3)))"

lemma offsets_distinct:
  "(i::u64) \<noteq> j \<Longrightarrow> a + i \<noteq> a + j" "(j::u64) \<noteq> 0 \<Longrightarrow> a \<noteq> a + j" "(j::u64) \<noteq> 0 \<Longrightarrow> a + j \<noteq> a"
  by simp_all

lemma byte_step:
  "push_bit k (ucast (ucast (drop_bit k v) :: u8)) OR push_bit (k + 8) (drop_bit (k + 8) v)
     = push_bit k (drop_bit k (v::u64))" (is "?l = ?r")
proof (rule bit_word_eqI)
  fix n
  have "k + 8 \<le> n \<longleftrightarrow> \<not> n - k < 8" if "k \<le> n" using that by linarith
  then show "bit ?l n = bit ?r n"
    by (cases "k + 8 \<le> n") (auto simp: bit_simps)
qed

lemma byte_top: "push_bit 56 (ucast (ucast (drop_bit 56 v) :: u8)) = push_bit 56 (drop_bit 56 (v::u64))"
  by (rule bit_word_eqI) (auto simp: bit_simps dest: bit_imp_le_length)

lemma bytes_of_word64:
  "(ucast (ucast v :: u8) :: u64) OR push_bit 8 (ucast (ucast (drop_bit 8 v) :: u8))
     OR push_bit 16 (ucast (ucast (drop_bit 16 v) :: u8))
     OR push_bit 24 (ucast (ucast (drop_bit 24 v) :: u8))
     OR push_bit 32 (ucast (ucast (drop_bit 32 v) :: u8))
     OR push_bit 40 (ucast (ucast (drop_bit 40 v) :: u8))
     OR push_bit 48 (ucast (ucast (drop_bit 48 v) :: u8))
     OR push_bit 56 (ucast (ucast (drop_bit 56 v) :: u8)) = v"
  using byte_step [of 0 v] byte_step [of 8 v] byte_step [of 16 v] byte_step [of 24 v]
    byte_step [of 32 v] byte_step [of 40 v] byte_step [of 48 v]
  by (simp add: byte_top)

lemma load64_store64_same [simp]: "load64 (store64 m a v) a = v"
  using bytes_of_word64 [of v]
  by (simp add: load64_def store64_def fun_upd_apply)

lemma load64_cong:
  assumes "\<And>k. unat k < 8 \<Longrightarrow> m (a + k) = m' (a + k)"
  shows "load64 m a = load64 m' a"
  unfolding load64_def
  using assms [of 0] assms [of 1] assms [of 2] assms [of 3] assms [of 4] assms [of 5]
    assms [of 6] assms [of 7]
  by simp

text \<open>A byte outside the eight that are written keeps its value.\<close>

lemma store64_other:
  assumes "\<And>k. unat k < 8 \<Longrightarrow> x \<noteq> a + k"
  shows "store64 m a v x = m x"
  unfolding store64_def
  using assms [of 0] assms [of 1] assms [of 2] assms [of 3] assms [of 4] assms [of 5]
    assms [of 6] assms [of 7]
  by (simp add: fun_upd_apply)

lemma load64_store64_other:
  assumes "\<And>k l. unat k < 8 \<Longrightarrow> unat l < 8 \<Longrightarrow> b + k \<noteq> a + l"
  shows "load64 (store64 m a v) b = load64 m b"
  by (rule load64_cong) (rule store64_other, use assms in blast)

lemma load64_store64_aligned:
  assumes "aligned 3 a" "aligned 3 b"
  shows "load64 (store64 m a v) b = (if a = b then v else load64 m b)"
proof (cases "a = b")
  case False
  have "load64 (store64 m a v) b = load64 m b"
    by (rule load64_store64_other) (use assms False aligned_add_inj [of 3 b a] in auto)
  with False show ?thesis by simp
qed simp

section \<open>memhelp.c\<close>

text \<open>
  The loops count an \<open>int64_t i\<close> from 0 to \<open>size\<close>; the first argument of the
  recursive functions is the number of iterations left, a negative \<open>size\<close> gives none.
\<close>

fun memset_from :: "nat \<Rightarrow> mem \<Rightarrow> u64 \<Rightarrow> u8 \<Rightarrow> u64 \<Rightarrow> mem" where
  "memset_from 0 m cdst data i = m"
| "memset_from (Suc n) m cdst data i = memset_from n (m(cdst + i := data)) cdst data (i + 1)"

definition memset :: "mem \<Rightarrow> u64 \<Rightarrow> u8 \<Rightarrow> int \<Rightarrow> mem" where
  "memset m dst data sz = memset_from (nat sz) m dst data 0"

fun memcpy_from :: "nat \<Rightarrow> mem \<Rightarrow> u64 \<Rightarrow> u64 \<Rightarrow> u64 \<Rightarrow> mem" where
  "memcpy_from 0 m cdst csrc i = m"
| "memcpy_from (Suc n) m cdst csrc i =
     memcpy_from n (m(cdst + i := m (csrc + i))) cdst csrc (i + 1)"

definition memcpy :: "mem \<Rightarrow> u64 \<Rightarrow> u64 \<Rightarrow> int \<Rightarrow> mem" where
  "memcpy m dst src sz = memcpy_from (nat sz) m dst src 0"

fun memcmp_from :: "nat \<Rightarrow> mem \<Rightarrow> u64 \<Rightarrow> u64 \<Rightarrow> u64 \<Rightarrow> bool" where
  "memcmp_from 0 m hay need i = True"
| "memcmp_from (Suc n) m hay need i =
     (if m (hay + i) \<noteq> m (need + i) then False else memcmp_from n m hay need (i + 1))"

definition memcmp :: "mem \<Rightarrow> u64 \<Rightarrow> u64 \<Rightarrow> int \<Rightarrow> bool" where
  "memcmp m haystack needle sz = memcmp_from (nat sz) m haystack needle 0"

text \<open>\<open>within a b n\<close>: the byte \<open>a\<close> is one of the \<open>n\<close> bytes that start at \<open>b\<close>.\<close>

definition within :: "u64 \<Rightarrow> u64 \<Rightarrow> nat \<Rightarrow> bool" where
  "within a b n \<longleftrightarrow> unat (a - b) < n"

lemma within_Suc:
  assumes "n < 2 ^ 64"
  shows "within a b (Suc n) \<longleftrightarrow> a = b \<or> within a (b + 1) n"
proof (cases "a = b")
  case False
  have "unat (a - b) = Suc (unat (a - (b + 1)))"
  proof -
    have "a - b \<noteq> 0" using False by simp
    then have "unat (a - b - 1) = unat (a - b) - 1" "0 < unat (a - b)"
      by (simp_all add: unat_minus_one unat_gt_0)
    then show ?thesis by (simp add: diff_diff_eq)
  qed
  with False show ?thesis by (simp add: within_def)
qed (simp add: within_def)

lemma unat_within_add:
  assumes "unat b + unat (a - b) < 2 ^ 64"
  shows "unat a = unat b + unat (a - b :: u64)"
proof -
  have "unat (b + (a - b)) = (unat b + unat (a - b)) mod 2 ^ 64"
    by (simp only: unat_word_ariths) simp
  then show ?thesis using assms by simp
qed

lemma memset_from_apply:
  "n \<le> 2 ^ 64 \<Longrightarrow> memset_from n m d v i a = (if within a (d + i) n then v else m a)"
proof (induction n arbitrary: m i)
  case 0
  then show ?case by (simp add: within_def)
next
  case (Suc n)
  then show ?case by (auto simp: within_Suc add.assoc)
qed

lemma memset_apply:
  "sz \<le> 2 ^ 64 \<Longrightarrow> memset m d v sz a = (if within a d (nat sz) then v else m a)"
  by (simp add: memset_def memset_from_apply nat_le_iff)

lemma memcmp_from_iff:
  "memcmp_from n m h w i \<longleftrightarrow> (\<forall>k<n. m (h + i + of_nat k) = m (w + i + of_nat k))"
proof (induction n arbitrary: i)
  case (Suc n)
  have "(\<forall>k<Suc n. P k) \<longleftrightarrow> P 0 \<and> (\<forall>k<n. P (Suc k))" for P :: "nat \<Rightarrow> bool"
    using less_Suc_eq_0_disj by auto
  with Suc show ?case by (simp add: ac_simps)
qed simp

lemma memcmp_iff:
  "memcmp m h w sz \<longleftrightarrow> (\<forall>k<nat sz. m (h + of_nat k) = m (w + of_nat k))"
  by (simp add: memcmp_def memcmp_from_iff)

lemma memcpy_from_apply:
  assumes "n \<le> 2 ^ 64" "\<And>k. k < n \<Longrightarrow> \<not> within (s + i + of_nat k) (d + i) n"
  shows "memcpy_from n m d s i a = (if within a (d + i) n then m (s + (a - d)) else m a)"
  using assms
proof (induction n arbitrary: m i)
  case 0
  then show ?case by (simp add: within_def)
next
  case (Suc n)
  have "\<not> within (s + (i + 1) + of_nat k) (d + (i + 1)) n" if "k < n" for k
    using Suc.prems(2) [of "Suc k"] that Suc.prems(1) by (auto simp: within_Suc ac_simps)
  then have IH: "memcpy_from n m' d s (i + 1) a =
      (if within a (d + (i + 1)) n then m' (s + (a - d)) else m' a)" for m'
    using Suc.IH [where i = "i + 1"] Suc.prems(1) by simp
  have src: "s + (a - d) \<noteq> d + i" if w: "within a (d + (i + 1)) n"
  proof
    assume eq: "s + (a - d) = d + i"
    define k where "k = Suc (unat (a - (d + (i + 1))))"
    have "s + i + of_nat k = s + (a - d)" by (simp add: k_def)
    moreover have "k < Suc n" using w by (simp add: k_def within_def)
    ultimately have "\<not> within (d + i) (d + i) (Suc n)"
      using Suc.prems(2) eq by metis
    then show False by (simp add: within_def)
  qed
  show ?case
    using IH [of "m(d + i := m (s + i))"] src Suc.prems(1)
    by (auto simp: within_Suc add.assoc)
qed

lemma memcpy_apply:
  assumes "sz \<le> 2 ^ 64" "\<And>k. k < nat sz \<Longrightarrow> \<not> within (s + of_nat k) d (nat sz)"
  shows "memcpy m d s sz a = (if within a d (nat sz) then m (s + (a - d)) else m a)"
  using memcpy_from_apply [of "nat sz" s 0 d m a] assms by (simp add: memcpy_def nat_le_iff)

end
