(* ===== verification/PageProvider.thy ===== *)
theory PageProvider
  imports Memory
begin

text \<open>
  The interface the kernel's data structures use to obtain pages: an allocation either
  returns NULL and changes nothing, or returns a page-aligned page that was not handed out
  before. Both page allocators (cpage.c and ncpage.c) provide it; page tables, rings and
  request blocks rely on it.
\<close>

text \<open>\<open>n\<close> allocations in a row, as a caller makes them: the pages in order, up to the first NULL.\<close>

fun alloc_many :: "('s \<Rightarrow> ('s \<times> u64) option) \<Rightarrow> nat \<Rightarrow> 's \<Rightarrow> ('s \<times> u64 list) option" where
  "alloc_many alloc 0 s = Some (s, [])"
| "alloc_many alloc (Suc n) s =
     (case alloc s of
        None \<Rightarrow> None
      | Some (s', p) \<Rightarrow>
          if p = NULL then Some (s', [])
          else map_option (\<lambda>(s'', ps). (s'', p # ps)) (alloc_many alloc n s'))"

locale page_provider =
  fixes alloc :: "'s \<Rightarrow> ('s \<times> u64) option"
    and live :: "'s \<Rightarrow> u64 set"
    and inv :: "'s \<Rightarrow> bool"
  assumes alloc_returns: "inv s \<Longrightarrow> \<exists>s' p. alloc s = Some (s', p)"
    and alloc_null: "inv s \<Longrightarrow> alloc s = Some (s', NULL) \<Longrightarrow> s' = s"
    and alloc_inv: "inv s \<Longrightarrow> alloc s = Some (s', p) \<Longrightarrow> inv s'"
    and alloc_live: "inv s \<Longrightarrow> alloc s = Some (s', p) \<Longrightarrow> p \<noteq> NULL \<Longrightarrow>
        p \<notin> live s \<and> p \<in> live s' \<and> live s \<subseteq> live s'"
    and alloc_aligned: "inv s \<Longrightarrow> alloc s = Some (s', p) \<Longrightarrow> p \<noteq> NULL \<Longrightarrow> aligned 12 p"
begin

lemma alloc_many_correct:
  assumes "inv s" "alloc_many alloc n s = Some (s', ps)"
  shows "inv s' \<and> distinct ps \<and> set ps \<inter> live s = {} \<and> set ps \<subseteq> live s' \<and> live s \<subseteq> live s'
    \<and> (\<forall>p \<in> set ps. p \<noteq> NULL \<and> aligned 12 p)"
  using assms
proof (induction n arbitrary: s s' ps)
  case 0
  then show ?case by simp
next
  case (Suc n)
  obtain s1 p where a: "alloc s = Some (s1, p)"
    using alloc_returns [OF Suc.prems(1)] by blast
  have inv1: "inv s1" using alloc_inv [OF Suc.prems(1) a] .
  show ?case
  proof (cases "p = NULL")
    case True
    with a Suc.prems alloc_null [OF Suc.prems(1)] show ?thesis by auto
  next
    case False
    with Suc.prems(2) a obtain qs where qs: "alloc_many alloc n s1 = Some (s', qs)" "ps = p # qs"
      by auto
    have IH: "inv s' \<and> distinct qs \<and> set qs \<inter> live s1 = {} \<and> set qs \<subseteq> live s' \<and> live s1 \<subseteq> live s'
        \<and> (\<forall>p \<in> set qs. p \<noteq> NULL \<and> aligned 12 p)"
      by (rule Suc.IH [OF inv1 qs(1)])
    have l: "p \<notin> live s" "p \<in> live s1" "live s \<subseteq> live s1" "aligned 12 p"
      using alloc_live [OF Suc.prems(1) a False] alloc_aligned [OF Suc.prems(1) a False] by auto
    have "p \<notin> set qs" "set qs \<inter> live s = {}" using IH l(2,3) by blast+
    moreover have "p \<in> live s'" "live s \<subseteq> live s'" using IH l(2,3) by blast+
    ultimately show ?thesis using IH l(1,4) False unfolding qs(2) by simp
  qed
qed

lemma alloc_many_returns: "inv s \<Longrightarrow> \<exists>s' ps. alloc_many alloc n s = Some (s', ps)"
proof (induction n arbitrary: s)
  case (Suc n)
  obtain s1 p where a: "alloc s = Some (s1, p)"
    using alloc_returns [OF Suc.prems] by blast
  with Suc.IH [OF alloc_inv [OF Suc.prems a]] show ?case by auto
qed simp

end

text \<open>
  A provider whose pages come zeroed and whose operations do not disturb the pages already
  handed out, so that their users own them. \<open>room n\<close> says that the next \<open>n\<close> requests
  succeed.
\<close>

locale zeroing_provider = page_provider +
  fixes mem_of :: "'s \<Rightarrow> mem" and set_mem :: "'s \<Rightarrow> mem \<Rightarrow> 's" and room :: "nat \<Rightarrow> 's \<Rightarrow> bool"
  assumes mem_set [simp]: "mem_of (set_mem s m) = m"
    and alloc_zero: "inv s \<Longrightarrow> alloc s = Some (s', p) \<Longrightarrow> p \<noteq> NULL \<Longrightarrow> within a p 4096 \<Longrightarrow> mem_of s' a = 0"
    and alloc_frame: "inv s \<Longrightarrow> alloc s = Some (s', p) \<Longrightarrow> q \<in> live s \<Longrightarrow> within a q 4096 \<Longrightarrow>
      mem_of s' a = mem_of s a"
    and live_aligned: "inv s \<Longrightarrow> q \<in> live s \<Longrightarrow> aligned 12 q"
    and write_own: "inv s \<Longrightarrow> q \<in> live s \<Longrightarrow> (\<And>a. \<not> within a q 4096 \<Longrightarrow> m a = mem_of s a) \<Longrightarrow>
      inv (set_mem s m) \<and> live (set_mem s m) = live s \<and> (\<forall>n. room n s \<longrightarrow> room n (set_mem s m))"
    and alloc_room: "inv s \<Longrightarrow> room (Suc n) s \<Longrightarrow> alloc s = Some (s', p) \<Longrightarrow> p \<noteq> NULL \<and> room n s'"
    and room_mono: "room (Suc n) s \<Longrightarrow> room n s"
begin

text \<open>A store of one doubleword into an owned page.\<close>

lemma store_own:
  assumes "inv s" "q \<in> live s" "unat i < 512"
  shows "inv (set_mem s (store64 (mem_of s) (q + 8 * i) v))"
    and "live (set_mem s (store64 (mem_of s) (q + 8 * i) v)) = live s"
    and "room n s \<Longrightarrow> room n (set_mem s (store64 (mem_of s) (q + 8 * i) v))"
proof -
  have "store64 (mem_of s) (q + 8 * i) v a = mem_of s a" if "\<not> within a q 4096" for a
  proof (rule store64_other)
    fix k :: u64
    assume "unat k < 8"
    then have "unat (8 * i + k) < 4096"
      using assms(3) by (simp add: unat_word_ariths)
    then have "within (q + 8 * i + k) q 4096"
      by (simp add: within_def add.assoc)
    then show "a \<noteq> q + 8 * i + k" using that by auto
  qed
  note w = write_own [OF assms(1,2) this]
  show "inv (set_mem s (store64 (mem_of s) (q + 8 * i) v))"
    "live (set_mem s (store64 (mem_of s) (q + 8 * i) v)) = live s"
    "room n s \<Longrightarrow> room n (set_mem s (store64 (mem_of s) (q + 8 * i) v))"
    using w by auto
qed

end

end
