(* ===== verification/Pages.thy ===== *)
theory Pages
  imports PageProvider "HOL-Library.Signed_Division"
begin

text \<open>
  The contiguous page allocator of src/src/cpage.c. The kernel heap runs from
  \<open>sym_start(heap)\<close> to \<open>sym_end(heap)\<close> (linker symbols, fields of the state);
  its first bytes are the bookkeeping bytes, one per page, in which page \<open>i\<close> uses bit
  \<open>2 * (i % 4)\<close> as its taken bit and the next one as its last-page bit. The pages
  follow, after the bookkeeping bytes rounded up to a page.
\<close>

section \<open>State and operations\<close>

record machine =
  mem :: mem
  heap_start :: u64
  heap_end :: u64

definition bk_bytes :: "machine \<Rightarrow> u64" where
  "bk_bytes s = (heap_end s - heap_start s) div 4096"

definition cpage_init :: "machine \<Rightarrow> machine" where
  "cpage_init s = s\<lparr>mem := memset (mem s) (heap_start s) 0 (sint (bk_bytes s))\<rparr>"

text \<open>\<open>cur_byte[i]\<close>, read and written; the two bits of page \<open>i\<close> in it.\<close>

definition cur_byte :: "machine \<Rightarrow> nat \<Rightarrow> u8" where
  "cur_byte s i = mem s (heap_start s + of_nat i)"

definition set_cur_byte :: "machine \<Rightarrow> nat \<Rightarrow> u8 \<Rightarrow> machine" where
  "set_cur_byte s i v = s\<lparr>mem := (mem s)(heap_start s + of_nat i := v)\<rparr>"

definition taken_bit :: "nat \<Rightarrow> nat" where
  "taken_bit i = 2 * (i mod 4)"

definition last_bit :: "nat \<Rightarrow> nat" where
  "last_bit i = 2 * (i mod 4) + 1"

definition taken :: "machine \<Rightarrow> nat \<Rightarrow> bool" where
  "taken s i \<longleftrightarrow> bit (cur_byte s i) (taken_bit i)"

definition is_last :: "machine \<Rightarrow> nat \<Rightarrow> bool" where
  "is_last s i \<longleftrightarrow> bit (cur_byte s i) (last_bit i)"

text \<open>
  The inner loop \<open>for(j = i + 1; j < bk_bytes; i++)\<close>: it advances \<open>i\<close>, so
  \<open>j\<close> is the same in every iteration. It ends by the loop condition (\<open>Fall\<close>), by
  the \<open>break\<close> on a taken page (\<open>Stop\<close>, which resets \<open>cpage_num\<close>), or with
  enough pages counted (\<open>Found\<close>).
\<close>

datatype scan = Fall nat nat | Stop nat | Found nat nat

function scan_inner :: "machine \<Rightarrow> nat \<Rightarrow> nat \<Rightarrow> nat \<Rightarrow> nat \<Rightarrow> scan" where
  "scan_inner s num_pages j i cpage_num =
     (if \<not> j < unat (bk_bytes s) then Fall i cpage_num
      else if taken s j then Stop i
      else if num_pages \<le> cpage_num + 1 then Found i (cpage_num + 1)
      else scan_inner s num_pages j (i + 1) (cpage_num + 1))"
  by pat_completeness auto
termination
  by (relation "measure (\<lambda>(s, n, j, i, c). n - c)") auto

declare scan_inner.simps [simp del]

lemma scan_inner_index:
  "scan_inner s n j i c = Fall i' c' \<Longrightarrow> i \<le> i'"
  "scan_inner s n j i c = Stop i' \<Longrightarrow> i \<le> i'"
proof (induction s n j i c rule: scan_inner.induct)
  case (1 s n j i c)
  { case 1
    with "1.IH" show ?case
      by (subst (asm) scan_inner.simps) (fastforce split: if_splits) }
  { case 2
    with "1.IH" show ?case
      by (subst (asm) scan_inner.simps) (fastforce split: if_splits) }
qed

function scan_outer :: "machine \<Rightarrow> nat \<Rightarrow> nat \<Rightarrow> nat \<Rightarrow> (nat \<times> nat) option" where
  "scan_outer s num_pages i cpage_num =
     (if i < unat (bk_bytes s) then
        (if \<not> taken s i then
           (case scan_inner s num_pages (i + 1) i (cpage_num + 1) of
              Found i' c \<Rightarrow> Some (i', c)
            | Stop i' \<Rightarrow> scan_outer s num_pages (i' + 1) 0
            | Fall i' c \<Rightarrow> scan_outer s num_pages (i' + 1) c)
         else scan_outer s num_pages (i + 1) 0)
      else None)"
  by pat_completeness auto
termination
  by (relation "measure (\<lambda>(s, n, i, c). unat (bk_bytes s) - i)")
    (auto dest: scan_inner_index)

declare scan_outer.simps [simp del]

text \<open>
  \<open>cur_byte[p] |= 1 << (2 * (p % 4))\<close>, the same for the last-page bit, and the loop that
  sets the taken bits of the \<open>cpage_num\<close> pages from page \<open>p\<close> on.
\<close>

definition set_taken :: "machine \<Rightarrow> nat \<Rightarrow> machine" where
  "set_taken s p = set_cur_byte s p (cur_byte s p OR push_bit (taken_bit p) 1)"

definition set_last :: "machine \<Rightarrow> nat \<Rightarrow> machine" where
  "set_last s p = set_cur_byte s p (cur_byte s p OR push_bit (last_bit p) 1)"

fun mark_taken :: "nat \<Rightarrow> machine \<Rightarrow> nat \<Rightarrow> machine" where
  "mark_taken 0 s p = s"
| "mark_taken (Suc k) s p = mark_taken k (set_taken s p) (Suc p)"

text \<open>The address of page \<open>i\<close>: \<open>heap_start + ((bk_bytes + 4095) & -4096) + PAGE_SIZE * i\<close>.\<close>

definition page_addr :: "machine \<Rightarrow> nat \<Rightarrow> u64" where
  "page_addr s i = heap_start s + ((bk_bytes s + 4095) AND (- 4096)) + 4096 * of_nat i"

definition cpage_znalloc :: "machine \<Rightarrow> int \<Rightarrow> machine \<times> u64" where
  "cpage_znalloc s num_pages =
     (if num_pages \<le> 0 then (s, NULL)
      else case scan_outer s (nat num_pages) 0 0 of
        None \<Rightarrow> (s, NULL)
      | Some (i, cpage_num) \<Rightarrow>
          let s = mark_taken cpage_num s i;
              s = set_last s (i + cpage_num - 1);
              ret = page_addr s i
          in (s\<lparr>mem := memset (mem s) ret 0 (4096 * int cpage_num)\<rparr>, ret))"

text \<open>
  The \<open>do ... while(1)\<close> loop of \<open>cpage_free\<close> over the int \<open>spec_byte\<close>.
  \<open>None\<close> is undefined behaviour (a shift by a negative amount, an index outside int)
  or a loop that never ends.
\<close>

definition free_byte :: "machine \<Rightarrow> nat \<Rightarrow> machine" where
  "free_byte s p =
     (let s = set_cur_byte s p (cur_byte s p AND NOT (push_bit (taken_bit p) 1))
      in set_cur_byte s p (cur_byte s p AND NOT (push_bit (last_bit p) 1)))"

partial_function (option) free_loop :: "machine \<Rightarrow> int \<Rightarrow> machine option" where
  "free_loop s spec_byte =
     (if spec_byte < 0 \<or> 2 ^ 31 \<le> spec_byte then None
      else if is_last s (nat spec_byte) then Some (free_byte s (nat spec_byte))
      else free_loop (free_byte s (nat spec_byte)) (spec_byte + 1))"

definition cpage_free :: "machine \<Rightarrow> u64 \<Rightarrow> machine option" where
  "cpage_free s page =
     (if page < heap_start s \<or> heap_end s < page then Some s
      else free_loop s (sint (ucast ((page - bk_bytes s - heap_start s) div 4096) :: 32 word)))"

section \<open>What the scan finds\<close>

text \<open>A free pair: two neighbouring pages with clear taken bits, both with a bookkeeping byte.\<close>

definition free_pair :: "machine \<Rightarrow> nat \<Rightarrow> bool" where
  "free_pair s i \<longleftrightarrow> i + 1 < unat (bk_bytes s) \<and> \<not> taken s i \<and> \<not> taken s (i + 1)"

lemma scan_inner_found:
  assumes "j < unat (bk_bytes s)" "\<not> taken s j"
  shows "scan_inner s n j i c = Found (i + (max n (c + 1) - (c + 1))) (max n (c + 1))"
  using assms
proof (induction s n j i c rule: scan_inner.induct)
  case (1 s n j i c)
  then show ?case
    by (cases "n \<le> c + 1") (auto simp: scan_inner.simps [of s n j i c] max_def)
qed

lemma scan_inner_pair:
  "free_pair s i \<Longrightarrow> scan_inner s n (i + 1) i 1 = Found (i + (max n 2 - 2)) (max n 2)"
  using scan_inner_found [of "i + 1" s n i 1] by (simp add: free_pair_def numeral_2_eq_2)

lemma scan_inner_stop:
  "j < unat (bk_bytes s) \<Longrightarrow> taken s j \<Longrightarrow> scan_inner s n j i c = Stop i"
  by (simp add: scan_inner.simps [of s n j i c])

lemma scan_inner_fall: "unat (bk_bytes s) \<le> j \<Longrightarrow> scan_inner s n j i c = Fall i c"
  by (simp add: scan_inner.simps [of s n j i c])

lemma scan_outer_end: "unat (bk_bytes s) \<le> i \<Longrightarrow> scan_outer s n i c = None"
  by (simp add: scan_outer.simps [of s n i c])

lemma scan_outer_step:
  assumes "i < unat (bk_bytes s)"
  shows "scan_outer s n i 0 =
    (if free_pair s i then Some (i + (max n 2 - 2), max n 2) else scan_outer s n (i + 1) 0)"
proof -
  consider "taken s i" | "free_pair s i" | "\<not> taken s i" "i + 1 < unat (bk_bytes s)" "taken s (i + 1)"
    | "\<not> taken s i" "unat (bk_bytes s) = i + 1"
    using assms unfolding free_pair_def by linarith
  then show ?thesis
  proof cases
    case 2
    then have "\<not> taken s i" by (simp add: free_pair_def)
    with 2 assms scan_inner_pair [OF 2, of n] show ?thesis
      by (simp add: scan_outer.simps [of s n i 0])
  qed (use assms in \<open>auto simp: scan_outer.simps [of s n i 0] free_pair_def scan_inner_stop
        scan_inner_fall scan_outer_end\<close>)
qed

text \<open>The scan from \<open>i\<close> stops at the first free pair, or finds none.\<close>

lemma scan_outer_None:
  "(\<And>k. i \<le> k \<Longrightarrow> \<not> free_pair s k) \<Longrightarrow> scan_outer s n i 0 = None"
proof (induction "unat (bk_bytes s) - i" arbitrary: i)
  case 0
  then show ?case by (simp add: scan_outer_end)
next
  case (Suc m)
  then have "scan_outer s n (i + 1) 0 = None" by simp
  with Suc show ?case by (simp add: scan_outer_step)
qed

lemma scan_outer_Some:
  assumes "i \<le> k" "free_pair s k" "\<And>l. i \<le> l \<Longrightarrow> l < k \<Longrightarrow> \<not> free_pair s l"
  shows "scan_outer s n i 0 = Some (k + (max n 2 - 2), max n 2)"
  using assms
proof (induction "k - i" arbitrary: i)
  case 0
  then show ?case by (simp add: scan_outer_step free_pair_def)
next
  case (Suc m)
  then have "i < unat (bk_bytes s)" "\<not> free_pair s i" by (auto simp: free_pair_def)
  moreover have "scan_outer s n (i + 1) 0 = Some (k + (max n 2 - 2), max n 2)"
    using Suc by simp
  ultimately show ?case by (simp add: scan_outer_step)
qed

section \<open>Bookkeeping bits and page addresses\<close>

text \<open>
  A heap layout the C arithmetic is sound for: a page-aligned start, few enough pages that
  \<open>PAGE_SIZE * i\<close> stays in int, and room above the end for the pages that the rounded
  bookkeeping area pushes past it.
\<close>

definition heap_ok :: "machine \<Rightarrow> bool" where
  "heap_ok s \<longleftrightarrow> aligned 12 (heap_start s) \<and> heap_start s \<le> heap_end s
     \<and> NULL < heap_start s
     \<and> unat (bk_bytes s) < 2 ^ 19 \<and> unat (heap_end s) + 2 ^ 20 \<le> 2 ^ 64"

lemma layout_set_cur_byte [simp, frame]:
  "heap_start (set_cur_byte s i v) = heap_start s"
  "heap_end (set_cur_byte s i v) = heap_end s"
  "bk_bytes (set_cur_byte s i v) = bk_bytes s"
  by (simp_all add: set_cur_byte_def bk_bytes_def)

lemma layout_set_taken [simp, frame]:
  "heap_start (set_taken s i) = heap_start s"
  "heap_end (set_taken s i) = heap_end s"
  "bk_bytes (set_taken s i) = bk_bytes s"
  "heap_start (set_last s i) = heap_start s"
  "heap_end (set_last s i) = heap_end s"
  "bk_bytes (set_last s i) = bk_bytes s"
  by (simp_all add: set_taken_def set_last_def)

lemma layout_mark_taken [simp, frame]:
  "heap_start (mark_taken k s p) = heap_start s"
  "heap_end (mark_taken k s p) = heap_end s"
  "bk_bytes (mark_taken k s p) = bk_bytes s"
  by (induction k s p rule: mark_taken.induct) simp_all

lemma layout_free_byte [simp, frame]:
  "heap_start (free_byte s i) = heap_start s"
  "heap_end (free_byte s i) = heap_end s"
  "bk_bytes (free_byte s i) = bk_bytes s"
  by (simp_all add: free_byte_def Let_def)

lemma heap_ok_cong:
  "heap_start s' = heap_start s \<Longrightarrow> heap_end s' = heap_end s \<Longrightarrow> heap_ok s' = heap_ok s"
  by (simp add: heap_ok_def bk_bytes_def)

lemma cur_byte_set [simp]:
  "i < 2 ^ 64 \<Longrightarrow> j < 2 ^ 64 \<Longrightarrow>
     cur_byte (set_cur_byte s i v) j = (if i = j then v else cur_byte s j)"
  by (auto simp: cur_byte_def set_cur_byte_def of_nat_inverse dest: arg_cong [of _ _ unat])

lemma taken_last_bit_lt [simp]: "taken_bit p < 8" "last_bit p < 8"
  using mod_less_divisor [of 4 p] by (simp_all add: taken_bit_def last_bit_def)

lemma taken_last_neq [simp]: "taken_bit p \<noteq> last_bit q" "last_bit q \<noteq> taken_bit p"
proof -
  have "even (taken_bit p)" "odd (last_bit q)"
    by (simp_all add: taken_bit_def last_bit_def)
  then show "taken_bit p \<noteq> last_bit q" "last_bit q \<noteq> taken_bit p" by metis+
qed

text \<open>Setting and clearing the bits of one page, seen from any page.\<close>

lemma bit_two_power: "k < 8 \<Longrightarrow> bit (2 ^ k :: u8) n \<longleftrightarrow> n = k"
  by (auto simp: bit_simps)

lemma bits_set_taken [simp]:
  assumes "p < 2 ^ 64" "i < 2 ^ 64"
  shows "taken (set_taken s p) i = (i = p \<or> taken s i)"
    and "is_last (set_taken s p) i = is_last s i"
  using assms by (auto simp: set_taken_def taken_def is_last_def bit_or_iff bit_two_power)

lemma bits_set_last [simp]:
  assumes "p < 2 ^ 64" "i < 2 ^ 64"
  shows "taken (set_last s p) i = taken s i"
    and "is_last (set_last s p) i = (i = p \<or> is_last s i)"
  using assms by (auto simp: set_last_def taken_def is_last_def bit_or_iff bit_two_power)

lemma bits_free_byte [simp]:
  assumes "p < 2 ^ 64" "i < 2 ^ 64"
  shows "taken (free_byte s p) i = (i \<noteq> p \<and> taken s i)"
    and "is_last (free_byte s p) i = (i \<noteq> p \<and> is_last s i)"
  using assms
  by (auto simp: free_byte_def Let_def taken_def is_last_def bit_and_iff bit_not_iff bit_two_power)

lemma bits_mark_taken [simp]:
  assumes "p + k < 2 ^ 64" "i < 2 ^ 64"
  shows "taken (mark_taken k s p) i = (p \<le> i \<and> i < p + k \<or> taken s i)"
    and "is_last (mark_taken k s p) i = is_last s i"
  using assms by (induction k s p rule: mark_taken.induct) auto

text \<open>The rounded size of the bookkeeping area and the pages behind it, as naturals.\<close>

definition bk_area :: "machine \<Rightarrow> nat" where
  "bk_area s = (unat (bk_bytes s) + 4095) div 4096 * 4096"

lemma unat_and_minus_4096: "unat (w AND (- 4096 :: u64)) = unat w div 4096 * 4096"
  using unat_and_minus_exp [of w 12] by simp

lemma bk_area_bounds:
  assumes "heap_ok s"
  shows "unat (bk_bytes s) \<le> bk_area s" "bk_area s < unat (bk_bytes s) + 4096"
    and "unat (heap_start s) + 4096 * unat (bk_bytes s) \<le> unat (heap_end s)"
    and "bk_area s \<le> 2 ^ 19"
proof -
  have "heap_start s \<le> heap_end s" and bk: "unat (bk_bytes s) < 2 ^ 19"
    using assms by (simp_all add: heap_ok_def)
  then have "unat (heap_end s - heap_start s) = unat (heap_end s) - unat (heap_start s)"
    and le: "unat (heap_start s) \<le> unat (heap_end s)"
    by (simp_all add: unat_sub word_le_nat_alt)
  then have "unat (bk_bytes s) = (unat (heap_end s) - unat (heap_start s)) div 4096"
    by (simp add: bk_bytes_def unat_div_distrib)
  with le show "unat (heap_start s) + 4096 * unat (bk_bytes s) \<le> unat (heap_end s)"
    by linarith
  show "unat (bk_bytes s) \<le> bk_area s" "bk_area s < unat (bk_bytes s) + 4096"
    unfolding bk_area_def by linarith+
  show "bk_area s \<le> 2 ^ 19"
    using bk unfolding bk_area_def by simp
qed

lemma unat_page_addr:
  assumes "heap_ok s" "i \<le> unat (bk_bytes s)"
  shows "unat (page_addr s i) = unat (heap_start s) + bk_area s + 4096 * i"
proof -
  have end_le: "unat (heap_end s) + 2 ^ 20 \<le> 2 ^ 64" and bk: "unat (bk_bytes s) < 2 ^ 19"
    using assms(1) by (simp_all add: heap_ok_def)
  have "unat (bk_bytes s + 4095) = unat (bk_bytes s) + 4095"
    using bk by (simp add: unat_word_ariths)
  then have area: "unat ((bk_bytes s + 4095) AND (- 4096)) = bk_area s"
    by (simp only: unat_and_minus_4096 bk_area_def)
  have "unat (4096 * of_nat i :: u64) = 4096 * i"
    using assms(2) bk by (simp add: unat_word_ariths unat_of_nat)
  moreover have "unat (heap_start s) + bk_area s + 4096 * i < 2 ^ 64"
    using bk_area_bounds [OF assms(1)] end_le assms(2) by simp
  ultimately show ?thesis
    using area by (simp add: page_addr_def unat_word_ariths)
qed

lemma page_addr_aligned:
  assumes "heap_ok s" "i \<le> unat (bk_bytes s)"
  shows "aligned 12 (page_addr s i)"
proof -
  have "4096 dvd unat (heap_start s)"
    using assms(1) by (simp add: heap_ok_def aligned_iff_dvd)
  then show ?thesis
    by (simp add: aligned_iff_dvd unat_page_addr [OF assms] bk_area_def)
qed

lemma page_addr_inj:
  assumes "heap_ok s" "i \<le> unat (bk_bytes s)" "j \<le> unat (bk_bytes s)"
    and "page_addr s i = page_addr s j"
  shows "i = j"
proof -
  have "unat (page_addr s i) = unat (page_addr s j)" using assms(4) by simp
  then show ?thesis
    using assms(1-3) by (simp add: unat_page_addr)
qed

lemma page_addr_nonnull:
  assumes "heap_ok s" "i \<le> unat (bk_bytes s)"
  shows "page_addr s i \<noteq> NULL"
proof -
  have "0 < unat (heap_start s)"
    using assms(1) by (simp add: heap_ok_def word_less_nat_alt)
  then show ?thesis
    using unat_page_addr [OF assms] by auto
qed

text \<open>No bookkeeping byte lies in a page.\<close>

lemma bk_not_in_pages:
  assumes "heap_ok s" "i < unat (bk_bytes s)" "p + n \<le> unat (bk_bytes s)"
  shows "\<not> within (heap_start s + of_nat i) (page_addr s p) (4096 * n)"
proof
  assume w: "within (heap_start s + of_nat i) (page_addr s p) (4096 * n)"
  have bounds: "unat (heap_end s) + 2 ^ 20 \<le> 2 ^ 64" "unat (bk_bytes s) < 2 ^ 19"
    using assms(1) by (simp_all add: heap_ok_def)
  note area = bk_area_bounds [OF assms(1)]
  have a: "unat (heap_start s + of_nat i) = unat (heap_start s) + i"
    using assms(2) bounds area(3) by (simp add: unat_word_ariths unat_of_nat)
  have p: "unat (page_addr s p) = unat (heap_start s) + bk_area s + 4096 * p"
    using assms by (simp add: unat_page_addr)
  have "heap_start s + of_nat i < page_addr s p"
    using a p assms(2) area(1) by (simp add: word_less_nat_alt)
  then have "unat (heap_start s + of_nat i - page_addr s p)
      = 2 ^ 64 + (unat (heap_start s) + i) - (unat (heap_start s) + bk_area s + 4096 * p)"
    using a p by (simp add: unat_sub_if' word_le_nat_alt word_less_nat_alt)
  then show False
    using w assms(2,3) area(1,4) bounds(2) by (simp add: within_def)
qed

section \<open>One allocation\<close>

text \<open>\<open>first_pair s k\<close>: page \<open>k\<close> starts the first free pair of the heap.\<close>

definition first_pair :: "machine \<Rightarrow> nat \<Rightarrow> bool" where
  "first_pair s k \<longleftrightarrow> free_pair s k \<and> (\<forall>l<k. \<not> free_pair s l)"

lemma first_pair_exists: "free_pair s i \<Longrightarrow> \<exists>k. first_pair s k"
  unfolding first_pair_def using exists_least_iff [of "free_pair s"] by blast

text \<open>The state after the bookkeeping of an allocation of \<open>c\<close> pages at page \<open>i\<close>.\<close>

definition claim :: "machine \<Rightarrow> nat \<Rightarrow> nat \<Rightarrow> machine" where
  "claim s i c = (let s = set_last (mark_taken c s i) (i + c - 1)
     in s\<lparr>mem := memset (mem s) (page_addr s i) 0 (4096 * int c)\<rparr>)"

lemma page_addr_cong:
  "heap_start s' = heap_start s \<Longrightarrow> bk_bytes s' = bk_bytes s \<Longrightarrow> page_addr s' i = page_addr s i"
  by (simp add: page_addr_def)

lemma cpage_znalloc_claim:
  assumes "0 < n" "first_pair s k"
  shows "cpage_znalloc s n =
    (claim s (k + (max (nat n) 2 - 2)) (max (nat n) 2), page_addr s (k + (max (nat n) 2 - 2)))"
proof -
  have "scan_outer s (nat n) 0 0 = Some (k + (max (nat n) 2 - 2), max (nat n) 2)"
    using assms(2) by (intro scan_outer_Some) (auto simp: first_pair_def)
  then show ?thesis
    using assms(1) by (simp add: cpage_znalloc_def claim_def Let_def cong: page_addr_cong)
      (simp add: page_addr_def)
qed

lemma cpage_znalloc_fail:
  "n \<le> 0 \<or> (\<forall>k. \<not> free_pair s k) \<Longrightarrow> cpage_znalloc s n = (s, NULL)"
  by (auto simp: cpage_znalloc_def scan_outer_None)

lemma layout_claim [simp, frame]:
  "heap_start (claim s i c) = heap_start s"
  "heap_end (claim s i c) = heap_end s"
  "bk_bytes (claim s i c) = bk_bytes s"
  "page_addr (claim s i c) j = page_addr s j"
  by (simp_all add: claim_def Let_def bk_bytes_def page_addr_def)

lemma heap_ok_claim [simp]: "heap_ok (claim s i c) = heap_ok s"
  by (rule heap_ok_cong) simp_all

lemma bits_claim:
  assumes "heap_ok s" "0 < c" "i + c \<le> unat (bk_bytes s)" "j < unat (bk_bytes s)"
  shows "taken (claim s i c) j = (i \<le> j \<and> j < i + c \<or> taken s j)"
    and "is_last (claim s i c) j = (j + 1 = i + c \<or> is_last s j)"
proof -
  let ?s = "set_last (mark_taken c s i) (i + c - 1)"
  have bk: "unat (bk_bytes s) < 2 ^ 19" using assms(1) by (simp add: heap_ok_def)
  have "\<not> within (heap_start s + of_nat j) (page_addr s i) (4096 * c)"
    using bk_not_in_pages [OF assms(1,4,3)] .
  moreover have "page_addr ?s i = page_addr s i" by (simp add: page_addr_def)
  moreover have "4096 * int c \<le> 2 ^ 64" using assms(3) bk by simp
  ultimately have "cur_byte (claim s i c) j = cur_byte ?s j"
    by (simp add: claim_def Let_def cur_byte_def memset_apply nat_mult_distrib)
  then have "taken (claim s i c) j = taken ?s j" "is_last (claim s i c) j = is_last ?s j"
    by (simp_all add: taken_def is_last_def)
  then show "taken (claim s i c) j = (i \<le> j \<and> j < i + c \<or> taken s j)"
    and "is_last (claim s i c) j = (j + 1 = i + c \<or> is_last s j)"
    using assms(2-4) bk by auto
qed

text \<open>Memory after an allocation: the pages are zero, and nothing else but the
  bookkeeping bytes of those pages is written.\<close>

lemma mem_set_cur_byte:
  "a \<noteq> heap_start s + of_nat p \<Longrightarrow> mem (set_cur_byte s p v) a = mem s a"
  by (simp add: set_cur_byte_def)

lemma mem_mark_taken [frame]:
  "(\<And>j. p \<le> j \<Longrightarrow> j < p + k \<Longrightarrow> a \<noteq> heap_start s + of_nat j) \<Longrightarrow>
     mem (mark_taken k s p) a = mem s a"
proof (induction k s p rule: mark_taken.induct)
  case (2 k s p)
  have "mem (mark_taken k (set_taken s p) (Suc p)) a = mem (set_taken s p) a"
    by (rule "2.IH") (use "2.prems" in auto)
  then show ?case
    using "2.prems" [of p] by (simp add: set_taken_def mem_set_cur_byte)
qed simp

lemma mem_claim:
  assumes "c < 2 ^ 40" "0 < c" "\<And>j. i \<le> j \<Longrightarrow> j < i + c \<Longrightarrow> a \<noteq> heap_start s + of_nat j"
  shows "mem (claim s i c) a = (if within a (page_addr s i) (4096 * c) then 0 else mem s a)"
proof -
  let ?s = "set_last (mark_taken c s i) (i + c - 1)"
  have "mem ?s a = mem s a"
    using assms(2) assms(3) [of "i + c - 1"] mem_mark_taken [of i c a s] assms(3)
    by (simp add: set_last_def mem_set_cur_byte)
  moreover have "page_addr ?s i = page_addr s i" by (simp add: page_addr_def)
  ultimately show ?thesis
    using assms(1) by (simp add: claim_def Let_def memset_apply nat_mult_distrib)
qed

section \<open>Freeing\<close>

lemma mem_free_byte [frame]:
  "a \<noteq> heap_start s + of_nat p \<Longrightarrow> mem (free_byte s p) a = mem s a"
  by (simp add: free_byte_def Let_def mem_set_cur_byte)

text \<open>The pages \<open>p\<close> to \<open>p + m\<close> are freed when \<open>p + m\<close> is the first one with its last-page bit set.\<close>

fun free_run :: "nat \<Rightarrow> machine \<Rightarrow> nat \<Rightarrow> machine" where
  "free_run 0 s p = free_byte s p"
| "free_run (Suc m) s p = free_run m (free_byte s p) (Suc p)"

lemma free_loop_run:
  assumes "p + m < 2 ^ 31" "\<And>j. p \<le> j \<Longrightarrow> j < p + m \<Longrightarrow> \<not> is_last s j" "is_last s (p + m)"
  shows "free_loop s (int p) = Some (free_run m s p)"
  using assms
proof (induction m s p rule: free_run.induct)
  case (1 s p)
  then show ?case by (simp add: free_loop.simps [of s "int p"])
next
  case (2 m s p)
  have "free_loop (free_byte s p) (int (Suc p)) = Some (free_run m (free_byte s p) (Suc p))"
    by (rule "2.IH") (use "2.prems" in auto)
  moreover have "\<not> is_last s p" using "2.prems"(2) [of p] by simp
  ultimately show ?case
    using "2.prems"(1) by (simp add: free_loop.simps [of s "int p"] add.commute)
qed

lemma layout_free_run [simp, frame]:
  "heap_start (free_run m s p) = heap_start s"
  "heap_end (free_run m s p) = heap_end s"
  "bk_bytes (free_run m s p) = bk_bytes s"
  by (induction m s p rule: free_run.induct) simp_all

lemma bits_free_run:
  assumes "p + m < 2 ^ 64" "j < 2 ^ 64"
  shows "taken (free_run m s p) j = (\<not> (p \<le> j \<and> j \<le> p + m) \<and> taken s j)"
    and "is_last (free_run m s p) j = (\<not> (p \<le> j \<and> j \<le> p + m) \<and> is_last s j)"
  using assms by (induction m s p rule: free_run.induct) auto

lemma mem_free_run [frame]:
  "(\<And>j. p \<le> j \<Longrightarrow> j \<le> p + m \<Longrightarrow> a \<noteq> heap_start s + of_nat j) \<Longrightarrow>
     mem (free_run m s p) a = mem s a"
proof (induction m s p rule: free_run.induct)
  case (1 s p)
  then show ?case by (simp add: mem_free_byte)
next
  case (2 m s p)
  have "mem (free_run m (free_byte s p) (Suc p)) a = mem (free_byte s p) a"
    by (rule "2.IH") (use "2.prems" in auto)
  then show ?case using "2.prems" [of p] by (simp add: mem_free_byte)
qed

text \<open>The page number computed from an address is the page's index.\<close>

lemma cpage_free_index:
  assumes "heap_ok s" "i \<le> unat (bk_bytes s)"
  shows "sint (ucast ((page_addr s i - bk_bytes s - heap_start s) div 4096) :: 32 word) = int i"
proof -
  have bk: "unat (bk_bytes s) < 2 ^ 19" using assms(1) by (simp add: heap_ok_def)
  note a = unat_page_addr [OF assms] and area = bk_area_bounds [OF assms(1)]
  have "unat (page_addr s i - bk_bytes s)
      = unat (heap_start s) + bk_area s + 4096 * i - unat (bk_bytes s)"
    using a area by (simp add: unat_sub word_le_nat_alt)
  then have "unat (page_addr s i - bk_bytes s - heap_start s) = bk_area s + 4096 * i - unat (bk_bytes s)"
    using area by (simp add: unat_sub word_le_nat_alt)
  then have q: "unat ((page_addr s i - bk_bytes s - heap_start s) div 4096) = i"
    using area by (simp add: unat_div_distrib)
  then have "(page_addr s i - bk_bytes s - heap_start s) div 4096 = of_nat i"
    using assms(2) bk by (simp add: word_unat_eq_iff unat_of_nat)
  moreover have "i < 2 ^ 31" using assms(2) bk by simp
  moreover from this have "uint (word_of_nat i :: u64) = int i"
    by (simp add: unsigned_of_nat take_bit_nat_eq_self)
  ultimately show ?thesis
    by (simp add: sint_uint unsigned_ucast_eq signed_take_bit_int_eq_self take_bit_int_eq_self)
qed

section \<open>The allocator as a set of live extents\<close>

text \<open>
  What the bookkeeping bytes stand for: a set \<open>A\<close> of live allocations \<open>(b, c)\<close>, each the
  pages from \<open>b\<close> up to \<open>b + c\<close>, no two of them sharing a page.
\<close>

definition pages_of :: "nat \<times> nat \<Rightarrow> nat set" where
  "pages_of e = {fst e ..< fst e + snd e}"

definition holds_extents :: "machine \<Rightarrow> (nat \<times> nat) set \<Rightarrow> bool" where
  "holds_extents s A \<longleftrightarrow>
     (\<forall>j < unat (bk_bytes s). taken s j \<longleftrightarrow> (\<exists>e\<in>A. j \<in> pages_of e))
   \<and> (\<forall>j < unat (bk_bytes s). is_last s j \<longleftrightarrow> (\<exists>e\<in>A. j + 1 = fst e + snd e))
   \<and> (\<forall>e\<in>A. 0 < snd e \<and> fst e + snd e \<le> unat (bk_bytes s))
   \<and> (\<forall>e\<in>A. \<forall>f\<in>A. e \<noteq> f \<longrightarrow> pages_of e \<inter> pages_of f = {})"

text \<open>The initial heap: \<open>cpage_init\<close> leaves no live allocation.\<close>

lemma cpage_init_layout [simp, frame]:
  "heap_start (cpage_init s) = heap_start s"
  "heap_end (cpage_init s) = heap_end s"
  "bk_bytes (cpage_init s) = bk_bytes s"
  by (simp_all add: cpage_init_def bk_bytes_def)

lemma cpage_init_extents:
  assumes "heap_ok s"
  shows "holds_extents (cpage_init s) {}"
proof -
  have bk: "unat (bk_bytes s) < 2 ^ 19" using assms by (simp add: heap_ok_def)
  then have "sint (bk_bytes s) = uint (bk_bytes s)" by (simp add: sint_small)
  then have "cur_byte (cpage_init s) j = 0" if "j < unat (bk_bytes s)" for j
    using that bk
    by (simp add: cur_byte_def cpage_init_def memset_apply uint_u64_le within_def unat_of_nat)
  then show ?thesis
    by (simp add: holds_extents_def taken_def is_last_def)
qed

lemma claim_extents:
  assumes "heap_ok s" "holds_extents s A" "0 < c" "i + c \<le> unat (bk_bytes s)"
    and free: "\<And>j. i \<le> j \<Longrightarrow> j < i + c \<Longrightarrow> \<not> taken s j"
  shows "holds_extents (claim s i c) (insert (i, c) A)" "(i, c) \<notin> A"
proof -
  have A: "\<And>j. j < unat (bk_bytes s) \<Longrightarrow> taken s j \<longleftrightarrow> (\<exists>e\<in>A. j \<in> pages_of e)"
    "\<And>j. j < unat (bk_bytes s) \<Longrightarrow> is_last s j \<longleftrightarrow> (\<exists>e\<in>A. j + 1 = fst e + snd e)"
    "\<And>e. e \<in> A \<Longrightarrow> 0 < snd e \<and> fst e + snd e \<le> unat (bk_bytes s)"
    "\<And>e f. e \<in> A \<Longrightarrow> f \<in> A \<Longrightarrow> e \<noteq> f \<Longrightarrow> pages_of e \<inter> pages_of f = {}"
    using assms(2) by (auto simp: holds_extents_def)
  have disj: "pages_of (i, c) \<inter> pages_of e = {}" if "e \<in> A" for e
  proof (rule ccontr)
    assume "pages_of (i, c) \<inter> pages_of e \<noteq> {}"
    then obtain j where "j \<in> pages_of (i, c)" "j \<in> pages_of e" by blast
    then show False using free [of j] A(1) [of j] that assms(4) by (auto simp: pages_of_def)
  qed
  then show "(i, c) \<notin> A" using assms(3) by (fastforce simp: pages_of_def)
  show "holds_extents (claim s i c) (insert (i, c) A)"
    unfolding holds_extents_def
    using A disj assms(3,4) by (auto simp: bits_claim [OF assms(1,3,4)] pages_of_def Int_commute)
qed

text \<open>Freeing from page \<open>b\<close> on releases the first live extent that does not end before it.\<close>

lemma free_gap_extents:
  assumes "heap_ok s" "holds_extents s A" "(b', c) \<in> A" "b \<le> b'"
    and gap: "\<And>e. e \<in> A \<Longrightarrow> e \<noteq> (b', c) \<Longrightarrow> fst e + snd e \<le> b \<or> b' + c \<le> fst e"
  shows "cpage_free s (page_addr s b) =
      (if heap_end s < page_addr s b then Some s else Some (free_run (b' + c - 1 - b) s b))"
    and "holds_extents (free_run (b' + c - 1 - b) s b) (A - {(b', c)})"
proof -
  have bk: "unat (bk_bytes s) < 2 ^ 19" using assms(1) by (simp add: heap_ok_def)
  have A: "\<And>j. j < unat (bk_bytes s) \<Longrightarrow> taken s j \<longleftrightarrow> (\<exists>e\<in>A. j \<in> pages_of e)"
    "\<And>j. j < unat (bk_bytes s) \<Longrightarrow> is_last s j \<longleftrightarrow> (\<exists>e\<in>A. j + 1 = fst e + snd e)"
    "\<And>e. e \<in> A \<Longrightarrow> 0 < snd e \<and> fst e + snd e \<le> unat (bk_bytes s)"
    "\<And>e f. e \<in> A \<Longrightarrow> f \<in> A \<Longrightarrow> e \<noteq> f \<Longrightarrow> pages_of e \<inter> pages_of f = {}"
    using assms(2) by (auto simp: holds_extents_def)
  have c: "0 < c" "b' + c \<le> unat (bk_bytes s)" using A(3) [OF assms(3)] by auto
  have other: "j \<notin> pages_of e" if "b \<le> j" "j < b' + c" "e \<in> A" "e \<noteq> (b', c)" for j e
    using gap [OF that(3,4)] that(1,2) by (auto simp: pages_of_def)
  have last: "is_last s j \<longleftrightarrow> j + 1 = b' + c" if j: "b \<le> j" "j < b' + c" for j
  proof -
    have end_of: "e = (b', c)" if "e \<in> A" "j + 1 = fst e + snd e" for e
      using gap [OF that(1)] A(3) [OF that(1)] that(2) j by auto
    have "is_last s j \<longleftrightarrow> (\<exists>e\<in>A. j + 1 = fst e + snd e)" using A(2) j c by simp
    also have "\<dots> \<longleftrightarrow> j + 1 = b' + c"
      using end_of assms(3) by (metis fst_conv snd_conv)
    finally show ?thesis .
  qed
  have "free_loop s (int b) = Some (free_run (b' + c - 1 - b) s b)"
    by (rule free_loop_run) (use last c bk assms(4) in auto)
  moreover have "heap_start s \<le> page_addr s b"
    using unat_page_addr [OF assms(1), of b] c assms(4) by (simp add: word_le_nat_alt)
  ultimately show "cpage_free s (page_addr s b) =
      (if heap_end s < page_addr s b then Some s else Some (free_run (b' + c - 1 - b) s b))"
    using cpage_free_index [OF assms(1), of b] c assms(4) by (simp add: cpage_free_def)
  have bits: "taken (free_run (b' + c - 1 - b) s b) j = (\<not> (b \<le> j \<and> j < b' + c) \<and> taken s j)"
    "is_last (free_run (b' + c - 1 - b) s b) j = (\<not> (b \<le> j \<and> j < b' + c) \<and> is_last s j)"
    if "j < unat (bk_bytes s)" for j
    using bits_free_run [of b "b' + c - 1 - b" j s] c bk that assms(4) by auto
  have last_out: "\<not> (b \<le> j \<and> j < b' + c)" if "e \<in> A" "e \<noteq> (b', c)" "j + 1 = fst e + snd e" for e j
    using gap [OF that(1,2)] that(3) A(3) [OF that(1)] by auto
  show "holds_extents (free_run (b' + c - 1 - b) s b) (A - {(b', c)})"
    unfolding holds_extents_def layout_free_run
  proof (intro conjI allI impI)
    fix j
    assume j: "j < unat (bk_bytes s)"
    show "taken (free_run (b' + c - 1 - b) s b) j = (\<exists>e\<in>A - {(b', c)}. j \<in> pages_of e)"
      using bits(1) [OF j] A(1) [OF j] other [of j] assms(4) by (auto simp: pages_of_def)
    show "is_last (free_run (b' + c - 1 - b) s b) j = (\<exists>e\<in>A - {(b', c)}. j + 1 = fst e + snd e)"
      using bits(2) [OF j] A(2) [OF j] last [of j] last_out [of _ j] j c assms(4) by auto
  qed (use A(3,4) in auto)
qed

lemma extents_apart:
  assumes "holds_extents s A" "e \<in> A" "f \<in> A" "e \<noteq> f"
  shows "fst e + snd e \<le> fst f \<or> fst f + snd f \<le> fst e"
proof (rule ccontr)
  assume "\<not> ?thesis"
  moreover have "0 < snd e" "0 < snd f" "pages_of e \<inter> pages_of f = {}" using assms by (auto simp: holds_extents_def)
  ultimately show False by (auto simp: pages_of_def)
qed

lemma free_run_extents:
  assumes "heap_ok s" "holds_extents s A" "(b, c) \<in> A"
  shows "cpage_free s (page_addr s b) =
      (if heap_end s < page_addr s b then Some s else Some (free_run (c - 1) s b))"
    and "holds_extents (free_run (c - 1) s b) (A - {(b, c)})"
proof -
  have gap: "fst e + snd e \<le> b \<or> b + c \<le> fst e" if "e \<in> A" "e \<noteq> (b, c)" for e
    using extents_apart [OF assms(2) that(1) assms(3) that(2)] by auto
  have "b + c - 1 - b = c - 1" by simp
  then show "cpage_free s (page_addr s b) =
      (if heap_end s < page_addr s b then Some s else Some (free_run (c - 1) s b))"
    "holds_extents (free_run (c - 1) s b) (A - {(b, c)})"
    using free_gap_extents [OF assms(1-3) le_refl] gap by metis+
qed

section \<open>The allocator provides pages\<close>

definition cpage_inv :: "machine \<Rightarrow> bool" where
  "cpage_inv s \<longleftrightarrow> heap_ok s \<and> (\<exists>A. holds_extents s A)"

definition cpage_live :: "machine \<Rightarrow> u64 set" where
  "cpage_live s = {page_addr s j | j. j < unat (bk_bytes s) \<and> taken s j}"

lemma cpage_znalloc_small:
  assumes "0 < n" "n \<le> 2" "first_pair s k"
  shows "cpage_znalloc s n = (claim s k 2, page_addr s k)"
  using cpage_znalloc_claim [OF assms(1,3)] assms(2) by (simp add: max_def nat_le_iff)

text \<open>Every allocation of one or two pages either fails or claims the first free pair.\<close>

lemma cpage_znalloc_cases:
  assumes "0 < n" "n \<le> 2"
  obtains (fail) "\<And>k. \<not> free_pair s k" "cpage_znalloc s n = (s, NULL)"
    | (claim) k where "first_pair s k" "cpage_znalloc s n = (claim s k 2, page_addr s k)"
proof (cases "\<exists>k. free_pair s k")
  case True
  then obtain k where "first_pair s k" using first_pair_exists by blast
  then show ?thesis using claim cpage_znalloc_small [OF assms] by blast
next
  case False
  then show ?thesis using fail cpage_znalloc_fail by blast
qed

lemma first_pairD:
  assumes "first_pair s k"
  shows "k + 2 \<le> unat (bk_bytes s)" "\<And>j. k \<le> j \<Longrightarrow> j < k + 2 \<Longrightarrow> \<not> taken s j"
proof -
  show "k + 2 \<le> unat (bk_bytes s)" using assms by (simp add: first_pair_def free_pair_def)
  fix j
  assume "k \<le> j" "j < k + 2"
  then have "j = k \<or> j = k + 1" by linarith
  then show "\<not> taken s j" using assms by (auto simp: first_pair_def free_pair_def)
qed

lemma claim_live:
  assumes "heap_ok s" "first_pair s k"
  shows "cpage_live (claim s k 2) = cpage_live s \<union> {page_addr s k, page_addr s (k + 1)}"
    and "page_addr s k \<notin> cpage_live s"
proof -
  note fp = first_pairD [OF assms(2)]
  have t: "taken (claim s k 2) j \<longleftrightarrow> j = k \<or> j = k + 1 \<or> taken s j" if "j < unat (bk_bytes s)" for j
    using bits_claim(1) [OF assms(1) _ fp(1) that] by auto
  show "cpage_live (claim s k 2) = cpage_live s \<union> {page_addr s k, page_addr s (k + 1)}"
    using t fp(1) by (auto simp: cpage_live_def)
  show "page_addr s k \<notin> cpage_live s"
  proof
    assume "page_addr s k \<in> cpage_live s"
    then obtain j where j: "j < unat (bk_bytes s)" "taken s j" "page_addr s k = page_addr s j"
      by (auto simp: cpage_live_def)
    then have "k = j" using page_addr_inj [OF assms(1)] fp(1) by simp
    then show False using fp(2) [of k] j(2) by simp
  qed
qed

lemma cpage_znalloc1_cases:
  assumes "cpage_znalloc s 1 = (s', p)"
  shows "p = NULL \<and> s' = s \<or> (\<exists>k. first_pair s k \<and> s' = claim s k 2 \<and> p = page_addr s k)"
  by (rule cpage_znalloc_cases [of 1 s]) (use assms in auto)

interpretation cp: page_provider "\<lambda>s. Some (cpage_znalloc s 1)" cpage_live cpage_inv
proof unfold_locales
  fix s s' p
  assume inv: "cpage_inv s"
  then obtain A where ok: "heap_ok s" and A: "holds_extents s A" by (auto simp: cpage_inv_def)
  have nonnull: "page_addr s k \<noteq> NULL" "aligned 12 (page_addr s k)" if "first_pair s k" for k
    using page_addr_nonnull [OF ok, of k] page_addr_aligned [OF ok, of k] first_pairD(1) [OF that]
    by simp_all
  { assume "Some (cpage_znalloc s 1) = Some (s', NULL)"
    then show "s' = s"
      using cpage_znalloc1_cases [of s s' NULL] nonnull by fastforce }
  assume "Some (cpage_znalloc s 1) = Some (s', p)"
  then have a: "p = NULL \<and> s' = s \<or> (\<exists>k. first_pair s k \<and> s' = claim s k 2 \<and> p = page_addr s k)"
    by (intro cpage_znalloc1_cases) simp
  have "holds_extents (claim s k 2) (insert (k, 2) A)" if "first_pair s k" for k
    by (rule claim_extents(1)) (use ok A first_pairD [OF that] in auto)
  with a inv ok show "cpage_inv s'" by (fastforce simp: cpage_inv_def)
  assume p: "p \<noteq> NULL"
  with a obtain k where k: "first_pair s k" "s' = claim s k 2" "p = page_addr s k" by blast
  show "p \<notin> cpage_live s \<and> p \<in> cpage_live s' \<and> cpage_live s \<subseteq> cpage_live s'"
    using claim_live [OF ok k(1)] k by auto
  show "aligned 12 p" using nonnull(2) [OF k(1)] k(3) by simp
qed auto

text \<open>The next \<open>n\<close> one-page requests succeed when \<open>n\<close> free pairs do not overlap.\<close>

definition cpage_room :: "nat \<Rightarrow> machine \<Rightarrow> bool" where
  "cpage_room n s \<longleftrightarrow> (\<exists>ks. length ks = n \<and> sorted_wrt (\<lambda>i j. i + 2 \<le> j) ks \<and> (\<forall>k \<in> set ks. free_pair s k))"

lemma cpage_room_mono:
  assumes "cpage_room (Suc n) s"
  shows "cpage_room n s"
proof -
  obtain j js where "length js = n" "sorted_wrt (\<lambda>i j. i + 2 \<le> j) (j # js)" "\<forall>k \<in> set (j # js). free_pair s k"
    using assms unfolding cpage_room_def by (metis length_Suc_conv)
  then show ?thesis unfolding cpage_room_def by (intro exI [of _ js]) simp
qed

lemma claim_room:
  assumes "heap_ok s" "cpage_room (Suc n) s" "first_pair s k"
  shows "cpage_room n (claim s k 2)"
proof -
  obtain j js where js: "length js = n" "sorted_wrt (\<lambda>i j. i + 2 \<le> j) (j # js)" "\<forall>k \<in> set (j # js). free_pair s k"
    using assms(2) unfolding cpage_room_def by (metis length_Suc_conv)
  have kj: "k \<le> j" using assms(3) js(3) by (auto simp: first_pair_def) (meson not_le)
  have "free_pair (claim s k 2) i" if "i \<in> set js" for i
  proof -
    have i: "free_pair s i" "k + 2 \<le> i" using that js(2,3) kj by auto
    then show ?thesis
      using bits_claim(1) [OF assms(1) _ first_pairD(1) [OF assms(3)], of i]
        bits_claim(1) [OF assms(1) _ first_pairD(1) [OF assms(3)], of "i + 1"]
      by (auto simp: free_pair_def)
  qed
  then show ?thesis using js unfolding cpage_room_def by (intro exI [of _ js]) simp
qed

lemma page_not_bk:
  assumes "heap_ok s" "j < unat (bk_bytes s)" "i < unat (bk_bytes s)"
  shows "\<not> within (heap_start s + of_nat i) (page_addr s j) 4096"
  using bk_not_in_pages [OF assms(1,3), of j 1] assms(2) by simp

lemma pages_apart:
  assumes "heap_ok s" "i < unat (bk_bytes s)" "k + c \<le> unat (bk_bytes s)" "i < k \<or> k + c \<le> i"
    and "within a (page_addr s i) 4096"
  shows "\<not> within a (page_addr s k) (4096 * c)"
proof
  assume w: "within a (page_addr s k) (4096 * c)"
  have pi: "unat (page_addr s i) = unat (heap_start s) + bk_area s + 4096 * i"
    and pk: "unat (page_addr s k) = unat (heap_start s) + bk_area s + 4096 * k"
    using unat_page_addr [OF assms(1)] assms(2,3) by simp_all
  have top: "unat (heap_start s) + bk_area s + 4096 * unat (bk_bytes s) < 2 ^ 64"
    using bk_area_bounds [OF assms(1)] assms(1) by (simp add: heap_ok_def)
  have "unat a = unat (page_addr s i) + unat (a - page_addr s i)"
    by (rule unat_within_add) (use assms(2,5) pi top in \<open>auto simp: within_def\<close>)
  moreover have "unat a = unat (page_addr s k) + unat (a - page_addr s k)"
    by (rule unat_within_add) (use assms(3) w pk top in \<open>auto simp: within_def\<close>)
  ultimately show False
    using assms(4,5) w pi pk unfolding within_def by (elim disjE) linarith+
qed

lemma cpage_write_own:
  assumes "cpage_inv s" "q \<in> cpage_live s" "\<And>a. \<not> within a q 4096 \<Longrightarrow> m a = mem s a"
  shows "cpage_inv (s\<lparr>mem := m\<rparr>) \<and> cpage_live (s\<lparr>mem := m\<rparr>) = cpage_live s
    \<and> (\<forall>n. cpage_room n s \<longrightarrow> cpage_room n (s\<lparr>mem := m\<rparr>))"
proof -
  let ?s = "s\<lparr>mem := m\<rparr>"
  obtain A where ok: "heap_ok s" and A: "holds_extents s A" using assms(1) by (auto simp: cpage_inv_def)
  obtain j where j: "j < unat (bk_bytes s)" "q = page_addr s j" using assms(2) by (auto simp: cpage_live_def)
  have bk: "bk_bytes ?s = bk_bytes s" "page_addr ?s i = page_addr s i" for i
    by (simp_all add: bk_bytes_def page_addr_def)
  have "cur_byte ?s i = cur_byte s i" if "i < unat (bk_bytes s)" for i
    using assms(3) page_not_bk [OF ok j(1) that] j(2) by (simp add: cur_byte_def)
  then have t: "taken ?s i = taken s i" "is_last ?s i = is_last s i" if "i < unat (bk_bytes s)" for i
    using that by (simp_all add: taken_def is_last_def)
  have "holds_extents ?s A" using A t by (simp add: holds_extents_def bk)
  moreover have "heap_ok ?s" using ok heap_ok_cong [of ?s s] by simp
  moreover have "free_pair ?s i = free_pair s i" for i using t by (auto simp: free_pair_def bk)
  moreover have "cpage_live ?s = cpage_live s" using t by (auto simp: cpage_live_def bk)
  ultimately show ?thesis by (auto simp: cpage_inv_def cpage_room_def)
qed

interpretation cz: zeroing_provider "\<lambda>s. Some (cpage_znalloc s 1)" cpage_live cpage_inv mem
  "\<lambda>s m. s\<lparr>mem := m\<rparr>" cpage_room
proof unfold_locales
  fix s s' :: machine and p q a n
  assume inv: "cpage_inv s"
  then have ok: "heap_ok s" by (auto simp: cpage_inv_def)
  { assume "q \<in> cpage_live s"
    then show "aligned 12 q" using page_addr_aligned [OF ok] by (auto simp: cpage_live_def) }
  assume "Some (cpage_znalloc s 1) = Some (s', p)"
  then have c: "p = NULL \<and> s' = s \<or> (\<exists>k. first_pair s k \<and> s' = claim s k 2 \<and> p = page_addr s k)"
    by (intro cpage_znalloc1_cases) simp
  have byte: "within (heap_start s + of_nat j) q 4096 \<Longrightarrow> False" if "q \<in> cpage_live s" "j < unat (bk_bytes s)" for j q
    using page_not_bk [OF ok] that by (auto simp: cpage_live_def)
  { assume "p \<noteq> NULL" and w: "within a p 4096"
    then obtain k where k: "first_pair s k" "s' = claim s k 2" "p = page_addr s k" using c by blast
    have "a \<noteq> heap_start s + of_nat j" if "j < k + 2" for j
      using page_not_bk [OF ok, of k j] first_pairD(1) [OF k(1)] that w k(3) by auto
    then show "mem s' a = 0"
      using mem_claim [of 2 k a s] w k(2,3) by (simp add: within_def) }
  { assume q: "q \<in> cpage_live s" and w: "within a q 4096"
    show "mem s' a = mem s a"
    proof (cases "p = NULL \<and> s' = s")
      case False
      then obtain k where k: "first_pair s k" "s' = claim s k 2" "p = page_addr s k" using c by blast
      obtain j where j: "j < unat (bk_bytes s)" "taken s j" "q = page_addr s j"
        using q by (auto simp: cpage_live_def)
      note fp = first_pairD [OF k(1)]
      have "j < k \<or> k + 2 \<le> j" using fp(2) [of j] j(2) by linarith
      then have "\<not> within a (page_addr s k) (4096 * 2)"
        using pages_apart [OF ok j(1) fp(1)] w j(3) by blast
      moreover have "a \<noteq> heap_start s + of_nat i" if "i < k + 2" for i
        using byte [OF q, of i] fp(1) that w by auto
      ultimately show ?thesis using mem_claim [of 2 k a s] k(2) by simp
    qed simp }
  assume room: "cpage_room (Suc n) s"
  then obtain i where "free_pair s i" unfolding cpage_room_def by (metis length_Suc_conv list.set_intros(1))
  then obtain k where k: "first_pair s k" using first_pair_exists by blast
  then have "cpage_znalloc s 1 = (claim s k 2, page_addr s k)" using cpage_znalloc_small [of 1 s k] by simp
  then have "s' = claim s k 2" "p = page_addr s k" using \<open>Some (cpage_znalloc s 1) = Some (s', p)\<close> by simp_all
  then show "p \<noteq> NULL \<and> cpage_room n s'"
    using claim_room [OF ok room k] page_addr_nonnull [OF ok, of k] first_pairD(1) [OF k] by simp
qed (use cpage_write_own cpage_room_mono in auto)

section \<open>Properties\<close>

text \<open>A small heap for the witnesses: four pages at 0x10000, nothing taken.\<close>

definition demo_heap :: machine where
  "demo_heap = \<lparr>mem = (\<lambda>_. 0), heap_start = 0x10000, heap_end = 0x14000\<rparr>"

lemma demo_heap_ok: "heap_ok demo_heap" "bk_bytes demo_heap = 4" "first_pair demo_heap 0"
  "holds_extents demo_heap {}" "page_addr demo_heap 0 = 0x11000" "heap_end demo_heap = 0x14000"
proof -
  have bk: "bk_bytes demo_heap = 4" by (simp add: bk_bytes_def demo_heap_def)
  have clear: "\<not> taken demo_heap j" "\<not> is_last demo_heap j" for j
    by (simp_all add: taken_def is_last_def cur_byte_def demo_heap_def)
  show "bk_bytes demo_heap = 4" by (rule bk)
  show "heap_ok demo_heap"
    by (simp add: heap_ok_def bk aligned_def) (simp add: demo_heap_def)
  show "first_pair demo_heap 0"
    by (simp add: first_pair_def free_pair_def bk clear)
  show "holds_extents demo_heap {}" by (simp add: holds_extents_def clear)
  show "page_addr demo_heap 0 = 0x11000" by (simp add: page_addr_def bk) (simp add: demo_heap_def)
  show "heap_end demo_heap = 0x14000" by (simp add: demo_heap_def)
qed

text \<open>
  First fit: a request for one or two pages gets the first pair of neighbouring free
  pages; the result is page aligned, both pages are zeroed, exactly their taken bits become
  set, and the rest of memory outside the bookkeeping bytes is untouched.\<close>

theorem cpage_first_fit:
  assumes "heap_ok s" "0 < n" "n \<le> 2" "first_pair s k" "cpage_znalloc s n = (s', p)"
  shows "p = page_addr s k \<and> p \<noteq> NULL \<and> aligned 12 p
    \<and> (\<forall>a. within a p 8192 \<longrightarrow> mem s' a = 0)
    \<and> (\<forall>j < unat (bk_bytes s). taken s' j \<longleftrightarrow> j = k \<or> j = k + 1 \<or> taken s j)
    \<and> (\<forall>a. \<not> within a p 8192 \<and> \<not> within a (heap_start s) (unat (bk_bytes s)) \<longrightarrow> mem s' a = mem s a)"
proof -
  have s': "s' = claim s k 2" "p = page_addr s k"
    using cpage_znalloc_small [OF assms(2-4)] assms(5) by auto
  note fp = first_pairD [OF assms(4)]
  have bk: "unat (bk_bytes s) < 2 ^ 19" using assms(1) by (simp add: heap_ok_def)
  have out: "a \<noteq> heap_start s + of_nat j"
    if "\<not> within a (heap_start s) (unat (bk_bytes s))" "j < k + 2" for a j
    using that fp(1) bk by (auto simp: within_def unat_of_nat)
  have in_bk: "within a (heap_start s) (unat (bk_bytes s)) \<Longrightarrow> \<not> within a p 8192" for a
    using bk_not_in_pages [OF assms(1), of "unat (a - heap_start s)" k 2] fp(1) s'(2)
    by (simp add: within_def)
  have k: "k \<le> unat (bk_bytes s)" "k + 2 \<le> unat (bk_bytes s)" using fp(1) by simp_all
  have m: "mem s' a = (if within a p 8192 then 0 else mem s a)"
    if "\<And>j. j < k + 2 \<Longrightarrow> a \<noteq> heap_start s + of_nat j" for a
    using mem_claim [of 2 k a s] that by (simp add: s')
  show ?thesis
  proof (intro conjI allI impI)
    fix a
    assume w: "within a p 8192"
    then have "\<not> within a (heap_start s) (unat (bk_bytes s))" using in_bk by blast
    then show "mem s' a = 0" using m [of a] out [of a] w by simp
  next
    fix a
    assume "\<not> within a p 8192 \<and> \<not> within a (heap_start s) (unat (bk_bytes s))"
    then show "mem s' a = mem s a" using m [of a] out [of a] by simp
  next
    fix j
    assume "j < unat (bk_bytes s)"
    then show "taken s' j \<longleftrightarrow> j = k \<or> j = k + 1 \<or> taken s j"
      using bits_claim(1) [OF assms(1) _ k(2)] by (auto simp: s')
  qed (use page_addr_nonnull [OF assms(1) k(1)] page_addr_aligned [OF assms(1) k(1)] s'(2) in auto)
qed

lemma cpage_first_fit_witness:
  "\<exists>s' p. cpage_znalloc demo_heap 1 = (s', p) \<and> p = 0x11000 \<and> p \<noteq> NULL \<and> aligned 12 p
     \<and> (\<forall>a. within a p 8192 \<longrightarrow> mem s' a = 0)"
proof -
  obtain s' p where r: "cpage_znalloc demo_heap 1 = (s', p)" by fastforce
  show ?thesis
    using cpage_first_fit [OF demo_heap_ok(1) _ _ demo_heap_ok(3) r] r demo_heap_ok(5) by auto
qed

text \<open>
  C1. Allocations of one or two pages never overlap: whenever the bookkeeping stands for a
  set of disjoint live extents, a successful allocation adds one two-page extent that was
  not live and shares no page with the others.\<close>

theorem cpage_no_overlap:
  assumes "heap_ok s" "holds_extents s A" "0 < n" "n \<le> 2" "cpage_znalloc s n = (s', p)" "p \<noteq> NULL"
  shows "\<exists>k. p = page_addr s k \<and> (k, 2) \<notin> A \<and> holds_extents s' (insert (k, 2) A)"
proof (rule cpage_znalloc_cases [OF assms(3,4), of s])
  fix k
  assume k: "first_pair s k" "cpage_znalloc s n = (claim s k 2, page_addr s k)"
  have "holds_extents (claim s k 2) (insert (k, 2) A)" "(k, 2) \<notin> A"
    using claim_extents [OF assms(1,2), of 2 k] first_pairD [OF k(1)] by auto
  then show ?thesis using k(2) assms(5) by auto
qed (use assms in auto)

lemma cpage_no_overlap_witness:
  "\<exists>s' p k. cpage_znalloc demo_heap 2 = (s', p) \<and> p = page_addr demo_heap k \<and> holds_extents s' {(k, 2)}"
proof -
  have r: "cpage_znalloc demo_heap 2 = (claim demo_heap 0 2, page_addr demo_heap 0)"
    by (rule cpage_znalloc_small) (simp_all add: demo_heap_ok)
  show ?thesis
    using cpage_no_overlap [OF demo_heap_ok(1,4) _ _ r] demo_heap_ok(5) r by fastforce
qed

text \<open>
  Freeing undoes an allocation: freeing the address of a live extent that does not lie
  past the heap end terminates and removes exactly that extent; in particular freeing the
  page just allocated gives back the bookkeeping there was before.\<close>

theorem cpage_free_extent:
  assumes "heap_ok s" "holds_extents s A" "(b, c) \<in> A" "page_addr s b \<le> heap_end s"
  shows "\<exists>s'. cpage_free s (page_addr s b) = Some s' \<and> holds_extents s' (A - {(b, c)})
    \<and> (\<forall>j < unat (bk_bytes s). taken s' j \<longleftrightarrow> taken s j \<and> \<not> (b \<le> j \<and> j < b + c))
    \<and> (\<forall>a. \<not> within a (heap_start s) (unat (bk_bytes s)) \<longrightarrow> mem s' a = mem s a)"
proof -
  have e: "0 < c" "b + c \<le> unat (bk_bytes s)" using assms(2,3) by (auto simp: holds_extents_def)
  have bk: "unat (bk_bytes s) < 2 ^ 19" using assms(1) by (simp add: heap_ok_def)
  have "mem (free_run (c - 1) s b) a = mem s a"
    if "\<not> within a (heap_start s) (unat (bk_bytes s))" for a
    by (rule mem_free_run) (use that e bk in \<open>auto simp: within_def unat_of_nat\<close>)
  moreover have "taken (free_run (c - 1) s b) j \<longleftrightarrow> taken s j \<and> \<not> (b \<le> j \<and> j < b + c)"
    if "j < unat (bk_bytes s)" for j
    using bits_free_run(1) [of b "c - 1" j s] e bk that by auto
  ultimately show ?thesis
    using free_run_extents [OF assms(1-3)] assms(4) by (auto simp: not_less)
qed

lemma cpage_free_extent_witness:
  "\<exists>s'. cpage_free (claim demo_heap 0 2) 0x11000 = Some s' \<and> holds_extents s' {}"
proof -
  have h: "holds_extents (claim demo_heap 0 2) {(0, 2)}"
    using claim_extents(1) [OF demo_heap_ok(1,4), of 2 0] first_pairD [OF demo_heap_ok(3)]
      demo_heap_ok(2) by simp
  show ?thesis
    using cpage_free_extent [OF _ h, of 0 2] demo_heap_ok(1,5,6) by auto
qed

text \<open>A request for three or more pages is not checked: its extent starts
  \<open>num_pages - 2\<close> pages behind the first free pair, and the scan never looked at the
  taken bits there, so an allocated page can be handed out a second time.\<close>

theorem cpage_large_unchecked:
  assumes "3 \<le> n" "first_pair s k"
  shows "cpage_znalloc s n = (claim s (k + nat n - 2) (nat n), page_addr s (k + nat n - 2))
    \<and> (taken s (k + nat n - 2) \<longrightarrow> (\<exists>j. taken s j \<and> snd (cpage_znalloc s n) = page_addr s j))"
proof -
  have n: "max (nat n) 2 = nat n" "k + (nat n - 2) = k + nat n - 2" using assms(1) by auto
  then show ?thesis
    using cpage_znalloc_claim [OF _ assms(2), of n] assms(1) by auto
qed

lemma cpage_large_unchecked_witness:
  "\<exists>s. first_pair s 0 \<and> taken s 2 \<and> snd (cpage_znalloc s 4) = page_addr s 2"
proof -
  let ?s = "claim demo_heap 2 1"
  have t: "taken ?s j \<longleftrightarrow> j = 2" if "j < 4" for j
    using bits_claim(1) [OF demo_heap_ok(1), of 1 2 j] that demo_heap_ok(2)
    by (auto simp: demo_heap_def taken_def cur_byte_def)
  have f: "first_pair ?s 0"
    using t [of 0] t [of 1] by (simp add: first_pair_def free_pair_def demo_heap_ok(2))
  have "snd (cpage_znalloc ?s 4) = page_addr ?s 2"
    using cpage_large_unchecked [of 4 ?s 0] f by simp
  then show ?thesis by (intro exI [of _ ?s]) (use f t [of 2] in simp)
qed

text \<open>
  C2. Any number of one-page requests in a row returns, and the addresses handed out are
  pairwise different, page aligned and different from every page taken before.\<close>

theorem cpage_many_distinct:
  assumes "cpage_inv s"
  shows "\<exists>s' ps. alloc_many (\<lambda>s. Some (cpage_znalloc s 1)) n s = Some (s', ps)
    \<and> cpage_inv s' \<and> distinct ps \<and> set ps \<inter> cpage_live s = {} \<and> set ps \<subseteq> cpage_live s'
    \<and> (\<forall>p \<in> set ps. p \<noteq> NULL \<and> aligned 12 p)"
  using cp.alloc_many_returns [OF assms] cp.alloc_many_correct [OF assms] by metis

lemma cpage_many_distinct_witness:
  "\<exists>s' ps. alloc_many (\<lambda>s. Some (cpage_znalloc s 1)) 3 demo_heap = Some (s', ps) \<and> distinct ps"
proof -
  have "cpage_inv demo_heap" using demo_heap_ok by (auto simp: cpage_inv_def)
  from cpage_many_distinct [OF this, of 3] show ?thesis by blast
qed

end
