(* ===== verification/Locks.thy ===== *)
theory Locks
  imports Prelude "HOL-Library.Multiset"
begin

text \<open>
  The synchronisation primitives of src/src/lock.c and sbi/src/lock.c: the spinning mutex,
  the counting semaphore and the barrier. Each atomic memory operation (amoswap.w, amoadd.w)
  is one step on a 32-bit word. The first part gives the operations as functions, the second
  the interleavings of several harts as step relations with mutual exclusion proved by rule
  induction.
\<close>

section \<open>The atomic instructions and the operations\<close>

text \<open>\<open>amoswap.w old, new, (a)\<close> and \<open>amoadd.w old, d, (a)\<close>: the new content and the old one.\<close>

definition amoswap_w :: "u32 \<Rightarrow> u32 \<Rightarrow> u32 \<times> u32" where
  "amoswap_w m new = (new, m)"

definition amoadd_w :: "u32 \<Rightarrow> u32 \<Rightarrow> u32 \<times> u32" where
  "amoadd_w m d = (m + d, m)"

abbreviation (input) MUTEX_LOCKED :: u32 where
  "MUTEX_LOCKED \<equiv> 1"

abbreviation (input) MUTEX_UNLOCKED :: u32 where
  "MUTEX_UNLOCKED \<equiv> 0"

definition mutex_trylock :: "u32 \<Rightarrow> u32 \<times> bool" where
  "mutex_trylock mutex = (let (mutex, old) = amoswap_w mutex MUTEX_LOCKED
     in (mutex, old \<noteq> MUTEX_LOCKED))"

text \<open>\<open>while (!mutex_trylock(mutex));\<close> on a mutex nobody else writes: \<open>None\<close> spins forever.\<close>

partial_function (option) mutex_spinlock :: "u32 \<Rightarrow> u32 option" where
  "mutex_spinlock mutex =
     (case mutex_trylock mutex of (mutex, got) \<Rightarrow> if got then Some mutex else mutex_spinlock mutex)"

definition mutex_unlock :: "u32 \<Rightarrow> u32" where
  "mutex_unlock mutex = fst (amoswap_w mutex 0)"

text \<open>The same three operations of the firmware (sbi/src/lock.c).\<close>

definition sbi_mutex_trylock :: "u32 \<Rightarrow> u32 \<times> bool" where
  "sbi_mutex_trylock mutex = (let (mutex, old) = amoswap_w mutex MUTEX_LOCKED
     in (mutex, old \<noteq> MUTEX_LOCKED))"

partial_function (option) sbi_mutex_spinlock :: "u32 \<Rightarrow> u32 option" where
  "sbi_mutex_spinlock mutex =
     (case sbi_mutex_trylock mutex of
        (mutex, got) \<Rightarrow> if got then Some mutex else sbi_mutex_spinlock mutex)"

definition sbi_mutex_unlock :: "u32 \<Rightarrow> u32" where
  "sbi_mutex_unlock mutex = fst (amoswap_w mutex 0)"

text \<open>A semaphore is its \<open>int value\<close>; \<open>semaphore_up\<close> is also what undoes a failed down.\<close>

definition semaphore_up :: "u32 \<Rightarrow> u32" where
  "semaphore_up s = fst (amoadd_w s 1)"

definition semaphore_trydown :: "u32 \<Rightarrow> u32 \<times> bool" where
  "semaphore_trydown s =
     (let (s, old) = amoadd_w s (- 1);
          s = (if sint old \<le> 0 then semaphore_up s else s)
      in (s, 0 < sint old))"

text \<open>
  A barrier is its list of processes, last added first, and its \<open>int value\<close>. The list
  nodes come from \<open>kmalloc\<close>, whose result the code does not test; the model has a node for
  every call. \<open>barrier_wall\<close> is given the process states and returns them updated.
\<close>

datatype P_STATE = P_DEAD | P_UNINT | P_RUNNING | P_SLEEPING | P_WAITING

record 'p barrier =
  bar_head :: "'p list"
  bar_value :: u32

definition barrier_init :: "'p barrier \<Rightarrow> 'p barrier" where
  "barrier_init b = b\<lparr>bar_head := [], bar_value := 0\<rparr>"

definition barrier_add_process :: "'p barrier \<Rightarrow> 'p \<Rightarrow> 'p barrier" where
  "barrier_add_process b proc = b\<lparr>bar_head := proc # bar_head b, bar_value := bar_value b + 1\<rparr>"

fun release :: "'p list \<Rightarrow> ('p \<Rightarrow> P_STATE) \<Rightarrow> ('p \<Rightarrow> P_STATE)" where
  "release [] st = st"
| "release (p # bl) st = release bl (st(p := P_RUNNING))"

definition barrier_wall ::
  "'p barrier \<Rightarrow> ('p \<Rightarrow> P_STATE) \<Rightarrow> 'p barrier \<times> ('p \<Rightarrow> P_STATE)" where
  "barrier_wall b st =
     (let (v, old) = amoadd_w (bar_value b) (- 1); b = b\<lparr>bar_value := v\<rparr>
      in if sint old \<le> 1 then (b\<lparr>bar_head := []\<rparr>, release (bar_head b) st) else (b, st))"

section \<open>One hart alone\<close>

lemma trylock_simps [simp]:
  "mutex_trylock m = (MUTEX_LOCKED, m \<noteq> MUTEX_LOCKED)"
  "sbi_mutex_trylock m = (MUTEX_LOCKED, m \<noteq> MUTEX_LOCKED)"
  "mutex_unlock m = MUTEX_UNLOCKED"
  "sbi_mutex_unlock m = MUTEX_UNLOCKED"
  by (simp_all add: mutex_trylock_def sbi_mutex_trylock_def mutex_unlock_def sbi_mutex_unlock_def
      amoswap_w_def)

lemma spinlock_free [simp]:
  "m \<noteq> MUTEX_LOCKED \<Longrightarrow> mutex_spinlock m = Some MUTEX_LOCKED"
  "m \<noteq> MUTEX_LOCKED \<Longrightarrow> sbi_mutex_spinlock m = Some MUTEX_LOCKED"
  by (simp_all add: mutex_spinlock.simps [of m] sbi_mutex_spinlock.simps [of m])

text \<open>A mutex that is locked and that nobody releases is spun on forever.\<close>

lemma spinlock_no_result:
  assumes "mutex_spinlock m = Some m'"
  shows "m \<noteq> MUTEX_LOCKED"
  by (rule mutex_spinlock.raw_induct [where P = "\<lambda>m m'. m \<noteq> MUTEX_LOCKED", OF _ assms])
    (auto split: if_splits)

lemma sbi_spinlock_no_result:
  assumes "sbi_mutex_spinlock m = Some m'"
  shows "m \<noteq> MUTEX_LOCKED"
  by (rule sbi_mutex_spinlock.raw_induct [where P = "\<lambda>m m'. m \<noteq> MUTEX_LOCKED", OF _ assms])
    (auto split: if_splits)

lemma spinlock_held [simp]:
  "mutex_spinlock MUTEX_LOCKED = None" "sbi_mutex_spinlock MUTEX_LOCKED = None"
  using spinlock_no_result [of MUTEX_LOCKED] sbi_spinlock_no_result [of MUTEX_LOCKED] by fastforce+

lemma spinlock_eq:
  "mutex_spinlock m = (if m = MUTEX_LOCKED then None else Some MUTEX_LOCKED)"
  "sbi_mutex_spinlock m = (if m = MUTEX_LOCKED then None else Some MUTEX_LOCKED)"
  by auto

lemma trydown_eq:
  "semaphore_trydown s = (if 0 < sint s then (s - 1, True) else (s, False))"
  by (simp add: semaphore_trydown_def semaphore_up_def amoadd_w_def)

lemma release_eq: "release ps st = (\<lambda>p. if p \<in> set ps then P_RUNNING else st p)"
  by (induction ps arbitrary: st) (auto simp: fun_eq_iff)

section \<open>Several harts: the mutex\<close>

text \<open>
  A configuration is the lock word and the program counter of every hart. A waiting hart runs
  one \<open>mutex_trylock\<close> per step, so the spin loop of one hart interleaves with the others.
\<close>

datatype lock_pc = Outside | Waiting | Critical

inductive lock_step ::
  "(u32 \<Rightarrow> u32 \<times> bool) \<Rightarrow> (u32 \<Rightarrow> u32) \<Rightarrow> u32 \<times> lock_pc list \<Rightarrow> u32 \<times> lock_pc list \<Rightarrow> bool"
  for trylock unlock where
  call: "i < length ps \<Longrightarrow> ps ! i = Outside \<Longrightarrow> lock_step trylock unlock (m, ps) (m, ps[i := Waiting])"
| spin: "i < length ps \<Longrightarrow> ps ! i = Waiting \<Longrightarrow> trylock m = (m', got) \<Longrightarrow>
    lock_step trylock unlock (m, ps) (m', ps[i := if got then Critical else Waiting])"
| leave: "i < length ps \<Longrightarrow> ps ! i = Critical \<Longrightarrow>
    lock_step trylock unlock (m, ps) (unlock m, ps[i := Outside])"

inductive_cases lock_stepE: "lock_step trylock unlock (m, ps) (m', ps')"
inductive_simps lock_step_simps: "lock_step trylock unlock (m, ps) c"

lemma count_list_update:
  assumes "i < length ps"
  shows "count_list (ps[i := x]) y + (if ps ! i = y then 1 else 0)
    = count_list ps y + (if x = y then 1 else 0)"
proof -
  have "mset (ps[i := x]) + {#ps ! i#} = mset ps + {#x#}"
    using assms by (simp add: mset_update)
  then have "count (mset (ps[i := x]) + {#ps ! i#}) y = count (mset ps + {#x#}) y" by simp
  then show ?thesis by (simp add: count_mset eq_commute split: if_splits)
qed

lemma count_list_two:
  assumes "i < length ps" "j < length ps" "i \<noteq> j" "ps ! i = x" "ps ! j = x"
  shows "2 \<le> count_list ps x"
proof -
  have "count_list (ps[i := y]) x + 1 = count_list ps x" if "y \<noteq> x" for y
    using count_list_update [OF assms(1), of y x] assms(4) that by simp
  moreover have "count_list (ps[i := y]) x \<noteq> 0" for y
    using assms by (metis count_list_0_iff length_list_update nth_list_update_neq nth_mem)
  ultimately show ?thesis
  proof (cases "\<exists>y. y \<noteq> x")
    case False
    then have "set ps \<subseteq> {x}" by blast
    then have "count_list ps x = length ps"
      by (induction ps) auto
    then show ?thesis using assms(1-3) by linarith
  qed (metis One_nat_def Suc_1 Suc_le_mono add.commute add_Suc less_one not_less plus_1_eq_Suc)
qed

locale spin_mutex =
  fixes trylock :: "u32 \<Rightarrow> u32 \<times> bool" and unlock :: "u32 \<Rightarrow> u32"
  assumes try_law: "trylock m = (MUTEX_LOCKED, m \<noteq> MUTEX_LOCKED)"
    and unlock_law: "unlock m = MUTEX_UNLOCKED"
begin

lemma step_inv:
  assumes "lock_step trylock unlock (m, ps) (m', ps')"
    and "if m = MUTEX_UNLOCKED then count_list ps Critical = 0
         else m = MUTEX_LOCKED \<and> count_list ps Critical = 1"
  shows "length ps' = length ps \<and> (if m' = MUTEX_UNLOCKED then count_list ps' Critical = 0
         else m' = MUTEX_LOCKED \<and> count_list ps' Critical = 1)"
  using assms(1)
proof (rule lock_stepE)
  fix i
  assume "m' = m" "ps' = ps[i := Waiting]" "i < length ps" "ps ! i = Outside"
  then show ?thesis using assms(2) count_list_update [of i ps Waiting Critical] by simp
next
  fix i got
  assume "ps' = ps[i := if got then Critical else Waiting]" "i < length ps" "ps ! i = Waiting"
    "trylock m = (m', got)"
  then show ?thesis
    using assms(2) count_list_update [of i ps "if got then Critical else Waiting" Critical]
    by (auto simp: try_law split: if_splits)
next
  fix i
  assume "m' = unlock m" "ps' = ps[i := Outside]" "i < length ps" "ps ! i = Critical"
  then show ?thesis
    using assms(2) count_list_update [of i ps Outside Critical] by (auto simp: unlock_law split: if_splits)
qed

lemma reach_inv:
  assumes "(lock_step trylock unlock)\<^sup>*\<^sup>* (MUTEX_UNLOCKED, replicate n Outside) (m, ps)"
  shows "length ps = n \<and> (if m = MUTEX_UNLOCKED then count_list ps Critical = 0
         else m = MUTEX_LOCKED \<and> count_list ps Critical = 1)"
  using assms
proof (induction "(m, ps)" arbitrary: m ps rule: rtranclp_induct)
  case base
  then show ?case by (simp add: count_list_0_iff)
next
  case (step c m ps)
  then show ?case using step_inv [of "fst c" "snd c" m ps] by (cases c) auto
qed

lemma mutual_exclusion:
  assumes "(lock_step trylock unlock)\<^sup>*\<^sup>* (MUTEX_UNLOCKED, replicate n Outside) (m, ps)"
    and "i < n" "j < n" "ps ! i = Critical" "ps ! j = Critical"
  shows "i = j"
  using reach_inv [OF assms(1)] count_list_two [of i ps j Critical] assms(2-)
  by (auto split: if_splits)

text \<open>There is no deadlock: every hart can always take a step, and a waiting one enters when none is inside.\<close>

lemma step_possible: "i < length ps \<Longrightarrow> \<exists>m' p. lock_step trylock unlock (m, ps) (m', ps[i := p])"
  by (cases "ps ! i"; cases "trylock m"; blast intro: lock_step.intros)

lemma waiting_enters:
  assumes "(lock_step trylock unlock)\<^sup>*\<^sup>* (MUTEX_UNLOCKED, replicate n Outside) (m, ps)"
    and "i < n" "ps ! i = Waiting" "Critical \<notin> set ps"
  shows "lock_step trylock unlock (m, ps) (MUTEX_LOCKED, ps[i := Critical])"
  using reach_inv [OF assms(1)] assms(2-) count_list_0_iff [of ps Critical]
  by (auto simp: lock_step_simps try_law split: if_splits)

end

interpretation os_mutex: spin_mutex mutex_trylock mutex_unlock
  by unfold_locales simp_all

interpretation sbi_mutex: spin_mutex sbi_mutex_trylock sbi_mutex_unlock
  by unfold_locales simp_all

section \<open>Several processes: the semaphore\<close>

text \<open>
  A failed \<open>semaphore_trydown\<close> is two atomic steps, the decrement and the
  \<open>semaphore_up\<close> that undoes it; other processes run in between and see the value one
  too low, also below zero.
\<close>

datatype sem_pc = Idle | Undoing | Holding

inductive sem_step :: "u32 \<times> sem_pc list \<Rightarrow> u32 \<times> sem_pc list \<Rightarrow> bool" where
  down: "i < length ps \<Longrightarrow> ps ! i = Idle \<Longrightarrow> amoadd_w v (- 1) = (v', old) \<Longrightarrow>
    sem_step (v, ps) (v', ps[i := if sint old \<le> 0 then Undoing else Holding])"
| undo: "i < length ps \<Longrightarrow> ps ! i = Undoing \<Longrightarrow> sem_step (v, ps) (semaphore_up v, ps[i := Idle])"
| up: "i < length ps \<Longrightarrow> ps ! i = Holding \<Longrightarrow> sem_step (v, ps) (semaphore_up v, ps[i := Idle])"

inductive_cases sem_stepE: "sem_step (v, ps) (v', ps')"

definition sem_inv :: "nat \<Rightarrow> nat \<Rightarrow> u32 \<times> sem_pc list \<Rightarrow> bool" where
  "sem_inv k n c \<longleftrightarrow> length (snd c) = n
     \<and> fst c + of_nat (count_list (snd c) Undoing) + of_nat (count_list (snd c) Holding) = of_nat k
     \<and> count_list (snd c) Holding \<le> k"

lemma count_two_le: "x \<noteq> y \<Longrightarrow> count_list ps x + count_list ps y \<le> length ps"
  by (induction ps) auto

text \<open>The value is the permits left, less the failed attempts that are not undone yet.\<close>

lemma sem_value:
  assumes "k + n < 2 ^ 31" "sem_inv k n (v, ps)"
  shows "sint v = int k - int (count_list ps Undoing) - int (count_list ps Holding)"
proof -
  let ?u = "count_list ps Undoing" and ?h = "count_list ps Holding"
  have b: "?u + ?h \<le> n" using assms(2) count_two_le [of Undoing Holding ps] by (simp add: sem_inv_def)
  have "v = word_of_int (int k - int ?u - int ?h)"
    using assms(2) by (simp add: sem_inv_def algebra_simps)
  moreover have "- (2 ^ 31) \<le> int k - int ?u - int ?h" "int k - int ?u - int ?h < 2 ^ 31"
  proof -
    have "int ?u + int ?h \<le> int n" using b by linarith
    moreover have "int k + int n < 2 ^ 31" using assms(1) by simp
    ultimately show "- (2 ^ 31) \<le> int k - int ?u - int ?h" "int k - int ?u - int ?h < 2 ^ 31"
      by linarith+
  qed
  ultimately show ?thesis
    using sint_of_int32 by metis
qed

lemma sem_step_inv:
  assumes "k + n < 2 ^ 31" "sem_inv k n c" "sem_step c c'"
  shows "sem_inv k n c'"
  using assms(3,2)
proof (cases rule: sem_step.cases)
  case (down i ps v v' old)
  have old: "v' = v - 1" "old = v" using down(5) by (auto simp: amoadd_w_def)
  have v: "sint v = int k - int (count_list ps Undoing) - int (count_list ps Holding)"
    using sem_value [OF assms(1)] assms(2) down(1) by simp
  show ?thesis
  proof (cases "sint v \<le> 0")
    case True
    then show ?thesis
      using assms(2) down old count_list_update [of i ps Undoing Undoing]
        count_list_update [of i ps Undoing Holding] by (simp add: sem_inv_def algebra_simps)
  next
    case False
    then have "count_list ps Holding < k" using v by linarith
    with False show ?thesis
      using assms(2) down old count_list_update [of i ps Holding Undoing]
        count_list_update [of i ps Holding Holding] by (simp add: sem_inv_def algebra_simps)
  qed
next
  case (undo i ps v)
  have "count_list ps Undoing = count_list (ps[i := Idle]) Undoing + 1"
    "count_list (ps[i := Idle]) Holding = count_list ps Holding"
    using undo count_list_update [of i ps Idle Undoing] count_list_update [of i ps Idle Holding] by simp_all
  then show ?thesis
    using assms(2) undo by (simp add: sem_inv_def semaphore_up_def amoadd_w_def algebra_simps)
next
  case (up i ps v)
  have "count_list ps Holding = count_list (ps[i := Idle]) Holding + 1"
    "count_list (ps[i := Idle]) Undoing = count_list ps Undoing"
    using up count_list_update [of i ps Idle Undoing] count_list_update [of i ps Idle Holding] by simp_all
  then show ?thesis
    using assms(2) up by (simp add: sem_inv_def semaphore_up_def amoadd_w_def algebra_simps)
qed

lemma sem_reach_inv:
  assumes "k + n < 2 ^ 31" "sem_step\<^sup>*\<^sup>* (of_nat k, replicate n Idle) c"
  shows "sem_inv k n c"
  using assms(2)
proof (induction rule: rtranclp_induct)
  case base
  then show ?case by (simp add: sem_inv_def count_list_0_iff)
qed (use sem_step_inv [OF assms(1)] in blast)

section \<open>The barrier\<close>

fun walls :: "nat \<Rightarrow> 'p barrier \<times> ('p \<Rightarrow> P_STATE) \<Rightarrow> 'p barrier \<times> ('p \<Rightarrow> P_STATE)" where
  "walls 0 c = c"
| "walls (Suc n) c = walls n (barrier_wall (fst c) (snd c))"

lemma add_processes:
  "foldl barrier_add_process (barrier_init b) ps = b\<lparr>bar_head := rev ps, bar_value := of_nat (length ps)\<rparr>"
  by (induction ps rule: rev_induct) (simp_all add: barrier_init_def barrier_add_process_def add.commute)

lemma barrier_wall_eq:
  "barrier_wall b st =
     (if sint (bar_value b) \<le> 1
      then (b\<lparr>bar_head := [], bar_value := bar_value b - 1\<rparr>, \<lambda>p. if p \<in> set (bar_head b) then P_RUNNING else st p)
      else (b\<lparr>bar_value := bar_value b - 1\<rparr>, st))"
  by (simp add: barrier_wall_def amoadd_w_def release_eq Let_def)

lemma sint_of_nat32: "n < 2 ^ 31 \<Longrightarrow> sint (of_nat n :: u32) = int n"
  by (simp add: sint_uint unsigned_of_nat take_bit_nat_eq_self signed_take_bit_int_eq_self)

lemma walls_wait:
  assumes "k < n" "n < 2 ^ 31" "bar_value b = of_nat n"
  shows "walls k (b, st) = (b\<lparr>bar_value := of_nat (n - k)\<rparr>, st)"
  using assms
proof (induction k arbitrary: n b)
  case (Suc k)
  then have "\<not> sint (bar_value b) \<le> 1" using sint_of_nat32 [of n] by simp
  moreover have "(of_nat n :: u32) - 1 = of_nat (n - 1)" using Suc.prems(1) by (simp add: of_nat_diff)
  ultimately show ?case
    using Suc.IH [of "n - 1" "b\<lparr>bar_value := of_nat (n - 1)\<rparr>"] Suc.prems
    by (simp add: barrier_wall_eq)
qed simp

lemma walls_snoc: "walls (Suc k) c = barrier_wall (fst (walls k c)) (snd (walls k c))"
  by (induction k arbitrary: c) simp_all

section \<open>Properties\<close>

text \<open>
  C20. The spinning mutex gives mutual exclusion: in every interleaving of any number of
  harts at most one is in its critical section, and the lock word is free exactly when none
  is, so a waiting hart then succeeds with its next attempt.\<close>

theorem mutex_mutual_exclusion:
  assumes "(lock_step mutex_trylock mutex_unlock)\<^sup>*\<^sup>* (MUTEX_UNLOCKED, replicate n Outside) (m, ps)"
  shows "(\<forall>i j. i < n \<and> j < n \<and> ps ! i = Critical \<and> ps ! j = Critical \<longrightarrow> i = j)
    \<and> (snd (mutex_trylock m) \<longleftrightarrow> (\<forall>i<n. ps ! i \<noteq> Critical))"
proof -
  have "count_list ps Critical = 0 \<longleftrightarrow> (\<forall>i<length ps. ps ! i \<noteq> Critical)"
    by (auto simp: count_list_0_iff in_set_conv_nth)
  then show ?thesis
    using os_mutex.mutual_exclusion [OF assms] os_mutex.reach_inv [OF assms] by (auto split: if_splits)
qed

lemma mutex_mutual_exclusion_witness:
  "\<not> snd (mutex_trylock 1) \<and> (lock_step mutex_trylock mutex_unlock)\<^sup>*\<^sup>* (0, replicate 2 Outside) (1, [Critical, Waiting])"
proof -
  let ?st = "lock_step mutex_trylock mutex_unlock"
  have "?st (0, [Outside, Outside]) (0, [Waiting, Outside])"
    using lock_step.call [of 0 "[Outside, Outside]"] by simp
  moreover have "?st (0, [Waiting, Outside]) (1, [Critical, Outside])"
    using lock_step.spin [of 0 "[Waiting, Outside]" mutex_trylock 0 1 True] by simp
  moreover have "?st (1, [Critical, Outside]) (1, [Critical, Waiting])"
    using lock_step.call [of 1 "[Critical, Outside]"] by simp
  ultimately have r: "?st\<^sup>*\<^sup>* (0, replicate 2 Outside) (1, [Critical, Waiting])"
    by (simp add: numeral_2_eq_2)
  show ?thesis using mutex_mutual_exclusion [OF r] r by (auto intro: exI [of _ 0])
qed

text \<open>
  C21. A semaphore initialised to \<open>k\<close> is never held by more than \<open>k\<close> processes, and its value is
  always \<open>k\<close> less the holders less the failed attempts still to be undone (which can make
  it negative), as long as \<open>k\<close> plus the number of processes fits an int.\<close>

theorem semaphore_bound:
  assumes "k + n < 2 ^ 31" "sem_step\<^sup>*\<^sup>* (of_nat k, replicate n Idle) (v, ps)"
  shows "count_list ps Holding \<le> k
    \<and> sint v = int k - int (count_list ps Undoing) - int (count_list ps Holding)"
  using sem_reach_inv [OF assms] sem_value [OF assms(1)] by (simp add: sem_inv_def)

lemma semaphore_bound_witness:
  "\<exists>v. sem_step\<^sup>*\<^sup>* (of_nat 1, replicate 2 Idle) (v, [Holding, Undoing]) \<and> sint v = - 1"
proof -
  have a: "amoadd_w 1 (- 1) = (0, 1)" "amoadd_w 0 (- 1) = (- 1, 0)" by (simp_all add: amoadd_w_def)
  have "sem_step (1, [Idle, Idle]) (0, [Holding, Idle])"
    using sem_step.down [of 0 "[Idle, Idle]" 1 0 1] a by simp
  moreover have "sem_step (0, [Holding, Idle]) (- 1, [Holding, Undoing])"
    using sem_step.down [of 1 "[Holding, Idle]" 0 "- 1" 0] a by simp
  ultimately have r: "sem_step\<^sup>*\<^sup>* (of_nat 1, replicate 2 Idle) (- 1, [Holding, Undoing])"
    by (simp add: numeral_2_eq_2)
  show ?thesis using semaphore_bound [OF _ r] r by (intro exI [of _ "- 1"]) auto
qed

text \<open>
  The barrier opens with the last arrival: of the \<open>n\<close> processes added to an initialised
  barrier the first \<open>n - 1\<close> arrivals change no process state, and the last one sets all of
  them running and leaves the barrier empty and ready for use.\<close>

theorem barrier_opens_last:
  assumes "0 < length ps" "length ps < 2 ^ 31" "c = (foldl barrier_add_process (barrier_init b) ps, st)"
  shows "(\<forall>k < length ps. snd (walls k c) = st \<and> bar_head (fst (walls k c)) = rev ps)
    \<and> snd (walls (length ps) c) = (\<lambda>p. if p \<in> set ps then P_RUNNING else st p)
    \<and> fst (walls (length ps) c) = barrier_init b"
proof -
  note c = assms(3) [unfolded add_processes]
  have w: "walls k c = (b\<lparr>bar_head := rev ps, bar_value := of_nat (length ps - k)\<rparr>, st)" if "k < length ps" for k
    using walls_wait [OF that assms(2), of "fst c" st] c by simp
  obtain m where m: "length ps = Suc m" using assms(1) by (cases "length ps") auto
  have "walls (Suc m) c = barrier_wall (fst (walls m c)) (snd (walls m c))" by (rule walls_snoc)
  then show ?thesis
    using w w [of m] m by (simp add: barrier_wall_eq barrier_init_def)
qed

lemma barrier_opens_last_witness:
  "snd (walls 2 (foldl barrier_add_process (barrier_init \<lparr>bar_head = [], bar_value = 7\<rparr>) [1, 2 :: nat], \<lambda>_. P_WAITING)) 1
     = P_RUNNING"
proof -
  let ?c = "(foldl barrier_add_process (barrier_init \<lparr>bar_head = [], bar_value = 7\<rparr>) [1, 2 :: nat], \<lambda>_. P_WAITING)"
  have "snd (walls (length [1, 2 :: nat]) ?c) = (\<lambda>p. if p \<in> set [1, 2] then P_RUNNING else P_WAITING)"
    using barrier_opens_last [of "[1, 2 :: nat]" ?c "\<lparr>bar_head = [], bar_value = 7\<rparr>" "\<lambda>_. P_WAITING"] by simp
  then show ?thesis by (simp add: numeral_2_eq_2)
qed

end
