(* ===== verification/NcPages.thy ===== *)
theory NcPages
  imports Pages Locks
begin

text \<open>
  The page-at-a-time allocator of src/src/ncpage.c: a singly linked list threaded through the
  first eight bytes of the free pages, on the same heap as cpage.c. The lemmas relate the
  memory to the list of free pages it stands for; init, alloc and free are then list
  operations, and the allocator is a second provider of pages.
\<close>

section \<open>State and operations\<close>

text \<open>The globals \<open>page_head\<close> and \<open>ncp_lock\<close> beside the memory and the heap bounds.\<close>

record nc_machine = machine +
  page_head :: u64
  ncp_lock :: u32

text \<open>
  The \<open>while\<close> loop of \<open>ncpage_init\<close> over \<open>page\<close> and \<open>page_next\<close>, with the end of the heap;
  the last \<open>page\<close> comes back with the memory. \<open>None\<close> is a loop that never ends.
\<close>

partial_function (option) nc_init_loop :: "mem \<Rightarrow> u64 \<Rightarrow> u64 \<Rightarrow> u64 \<Rightarrow> (mem \<times> u64) option" where
  "nc_init_loop m hend page page_next =
     (if page_next < hend
      then nc_init_loop (store64 m page page_next) hend page_next (page_next + PAGE_SIZE)
      else Some (m, page))"

definition ncpage_init :: "nc_machine \<Rightarrow> nc_machine option" where
  "ncpage_init s =
     (let s = s\<lparr>page_head := heap_start s\<rparr> in
      case nc_init_loop (mem s) (heap_end s) (page_head s) (page_head s) of
        None \<Rightarrow> None
      | Some (m, page) \<Rightarrow> Some (s\<lparr>mem := store64 m page NULL\<rparr>))"

definition ncpage_zalloc :: "nc_machine \<Rightarrow> (nc_machine \<times> u64) option" where
  "ncpage_zalloc s =
     (if page_head s = NULL then Some (s, NULL)
      else case mutex_spinlock (ncp_lock s) of
        None \<Rightarrow> None
      | Some l \<Rightarrow>
          let s = s\<lparr>ncp_lock := l\<rparr>;
              ret_page = page_head s;
              s = s\<lparr>page_head := load64 (mem s) (page_head s)\<rparr>;
              s = s\<lparr>ncp_lock := mutex_unlock (ncp_lock s)\<rparr>
          in Some (s, ret_page))"

definition ncpage_free :: "nc_machine \<Rightarrow> u64 \<Rightarrow> nc_machine option" where
  "ncpage_free s page =
     (if page = NULL then Some s
      else case mutex_spinlock (ncp_lock s) of
        None \<Rightarrow> None
      | Some l \<Rightarrow>
          let s = s\<lparr>ncp_lock := l\<rparr>;
              s = s\<lparr>mem := store64 (mem s) page (page_head s)\<rparr>;
              s = s\<lparr>page_head := page\<rparr>;
              s = s\<lparr>ncp_lock := mutex_unlock (ncp_lock s)\<rparr>
          in Some s)"

section \<open>The free list the memory stands for\<close>

fun chain :: "mem \<Rightarrow> u64 \<Rightarrow> u64 list \<Rightarrow> bool" where
  "chain m p [] \<longleftrightarrow> p = NULL"
| "chain m p (x # xs) \<longleftrightarrow> p = x \<and> x \<noteq> NULL \<and> chain m (load64 m x) xs"

definition nc_free :: "nc_machine \<Rightarrow> u64 list \<Rightarrow> bool" where
  "nc_free s ps \<longleftrightarrow> chain (mem s) (page_head s) ps \<and> distinct ps
     \<and> (\<forall>p \<in> set ps. aligned 12 p) \<and> ncp_lock s = MUTEX_UNLOCKED"

lemma chain_unique: "chain m p xs \<Longrightarrow> chain m p ys \<Longrightarrow> xs = ys"
proof (induction xs arbitrary: p ys)
  case Nil
  then show ?case by (cases ys) auto
next
  case (Cons x xs)
  then show ?case by (cases ys) auto
qed

lemma chain_cong:
  "(\<And>x. x \<in> set xs \<Longrightarrow> load64 m x = load64 m' x) \<Longrightarrow> chain m p xs = chain m' p xs"
  by (induction xs arbitrary: p) auto

lemma chain_store:
  assumes "aligned 12 a" "\<forall>p \<in> set xs. aligned 12 p" "a \<notin> set xs"
  shows "chain (store64 m a v) p xs = chain m p xs"
proof (rule chain_cong)
  fix x
  assume "x \<in> set xs"
  then have "aligned 3 x" "x \<noteq> a" using assms by (auto intro: aligned_mono [of 12 _ 3])
  then show "load64 (store64 m a v) x = load64 m x"
    using assms(1) by (simp add: load64_store64_aligned aligned_mono [of 12 _ 3])
qed

lemma zalloc_cases:
  assumes "nc_free s ps"
  shows "ncpage_zalloc s =
    (case ps of [] \<Rightarrow> Some (s, NULL) | p # qs \<Rightarrow> Some (s\<lparr>page_head := load64 (mem s) p\<rparr>, p))"
  using assms
  by (cases ps) (auto simp: nc_free_def ncpage_zalloc_def Let_def)

lemma zalloc_pop:
  assumes "nc_free s (p # qs)"
  shows "nc_free (s\<lparr>page_head := load64 (mem s) p\<rparr>) qs"
  using assms by (simp add: nc_free_def)

lemma free_push:
  assumes "nc_free s ps" "p \<noteq> NULL" "aligned 12 p" "p \<notin> set ps"
  shows "ncpage_free s p = Some (s\<lparr>mem := store64 (mem s) p (page_head s), page_head := p\<rparr>)"
    and "nc_free (s\<lparr>mem := store64 (mem s) p (page_head s), page_head := p\<rparr>) (p # ps)"
  using assms by (auto simp: nc_free_def ncpage_free_def Let_def chain_store)

lemma nc_freeD:
  assumes "nc_free s ps"
  shows "chain (mem s) (page_head s) ps" "distinct ps" "p \<in> set ps \<Longrightarrow> aligned 12 p" "p \<in> set ps \<Longrightarrow> p \<noteq> NULL"
proof -
  show "chain (mem s) (page_head s) ps" "distinct ps" "p \<in> set ps \<Longrightarrow> aligned 12 p"
    using assms by (auto simp: nc_free_def)
  have "chain m q ps \<Longrightarrow> p \<in> set ps \<Longrightarrow> p \<noteq> NULL" for m q
    by (induction ps arbitrary: q) auto
  then show "p \<in> set ps \<Longrightarrow> p \<noteq> NULL" using assms by (auto simp: nc_free_def)
qed

section \<open>Initialisation\<close>

text \<open>The heap has room for the page after its end, so \<open>page_next\<close> does not wrap.\<close>

definition nc_heap_ok :: "nc_machine \<Rightarrow> bool" where
  "nc_heap_ok s \<longleftrightarrow> aligned 12 (heap_start s) \<and> NULL < heap_start s \<and> heap_start s < heap_end s
     \<and> unat (heap_end s) + 4096 < 2 ^ 64"

definition nc_count :: "nc_machine \<Rightarrow> nat" where
  "nc_count s = (unat (heap_end s) - unat (heap_start s) + 4095) div 4096"

definition nc_page :: "nc_machine \<Rightarrow> nat \<Rightarrow> u64" where
  "nc_page s i = heap_start s + 4096 * of_nat i"

lemma nc_count_bounds:
  assumes "nc_heap_ok s"
  shows "0 < nc_count s" "unat (heap_start s) + 4096 * nc_count s < unat (heap_end s) + 4096"
    "unat (heap_end s) \<le> unat (heap_start s) + 4096 * nc_count s"
proof -
  have "unat (heap_start s) < unat (heap_end s)"
    using assms by (simp add: nc_heap_ok_def word_less_nat_alt)
  then show "0 < nc_count s" "unat (heap_start s) + 4096 * nc_count s < unat (heap_end s) + 4096"
    "unat (heap_end s) \<le> unat (heap_start s) + 4096 * nc_count s"
    unfolding nc_count_def by linarith+
qed

lemma unat_nc_page:
  assumes "nc_heap_ok s" "i \<le> nc_count s"
  shows "unat (nc_page s i) = unat (heap_start s) + 4096 * i"
proof -
  have b: "unat (heap_start s) + 4096 * i < 2 ^ 64"
    using nc_count_bounds [OF assms(1)] assms by (simp add: nc_heap_ok_def)
  then have "unat (4096 * of_nat i :: u64) = 4096 * i"
    by (simp add: unat_word_ariths unat_of_nat)
  then show ?thesis using b by (simp add: nc_page_def unat_word_ariths)
qed

lemma nc_page_facts:
  assumes "nc_heap_ok s" "i \<le> nc_count s"
  shows "aligned 12 (nc_page s i)" "nc_page s i \<noteq> NULL" "nc_page s i < heap_end s \<longleftrightarrow> i < nc_count s"
    and "j \<le> nc_count s \<Longrightarrow> nc_page s i = nc_page s j \<longleftrightarrow> i = j"
proof -
  note u = unat_nc_page [OF assms(1)]
  show "aligned 12 (nc_page s i)"
    using assms u [of i] by (simp add: aligned_iff_dvd nc_heap_ok_def)
  have "0 < unat (heap_start s)" using assms(1) by (simp add: nc_heap_ok_def word_less_nat_alt)
  then show "nc_page s i \<noteq> NULL" using u [OF assms(2)] by (metis add_is_0 less_irrefl unat_0)
  show "nc_page s i < heap_end s \<longleftrightarrow> i < nc_count s"
    using u [OF assms(2)] nc_count_bounds [OF assms(1)] assms(2) by (simp add: word_less_nat_alt)
      linarith
  show "j \<le> nc_count s \<Longrightarrow> nc_page s i = nc_page s j \<longleftrightarrow> i = j"
    using u [OF assms(2)] u [of j] by (auto simp: word_unat_eq_iff)
qed

lemma nc_page_Suc: "nc_page s i + 4096 = nc_page s (Suc i)"
  by (simp add: nc_page_def algebra_simps)

text \<open>From page \<open>k\<close> on, the loop links the rest of the pages and leaves the earlier links alone.\<close>

lemma nc_init_loop_from:
  assumes "nc_heap_ok s" "k < nc_count s"
  shows "\<exists>m'. nc_init_loop m (heap_end s) (nc_page s k) (nc_page s (Suc k)) = Some (m', nc_page s (nc_count s - 1))
    \<and> (\<forall>i < nc_count s. load64 m' (nc_page s i) =
         (if k \<le> i \<and> i + 1 < nc_count s then nc_page s (i + 1) else load64 m (nc_page s i)))"
  using assms(2)
proof (induction "nc_count s - k" arbitrary: k m)
  case 0
  then show ?case by simp
next
  case (Suc d)
  note pg = nc_page_facts [OF assms(1)]
  show ?case
  proof (cases "Suc k < nc_count s")
    case False
    with Suc.prems have "nc_count s = Suc k" by simp
    moreover from this have "\<not> nc_page s (Suc k) < heap_end s" using pg(3) [of "Suc k"] by simp
    ultimately show ?thesis by (auto simp: nc_init_loop.simps [of m "heap_end s"])
  next
    case True
    let ?m = "store64 m (nc_page s k) (nc_page s (Suc k))"
    have "nc_init_loop m (heap_end s) (nc_page s k) (nc_page s (Suc k))
        = nc_init_loop ?m (heap_end s) (nc_page s (Suc k)) (nc_page s (Suc (Suc k)))"
      using True pg(3) [of "Suc k"]
      by (simp add: nc_init_loop.simps [of m "heap_end s" "nc_page s k"] nc_page_Suc)
    moreover have "load64 ?m (nc_page s i) = (if i = k then nc_page s (Suc k) else load64 m (nc_page s i))"
      if "i < nc_count s" for i
    proof -
      have "aligned 3 (nc_page s i)" "aligned 3 (nc_page s k)"
        using pg(1) that Suc.prems by (simp_all add: aligned_mono [of 12 _ 3])
      then show ?thesis
        using pg(4) [of k i] that Suc.prems by (auto simp: load64_store64_aligned)
    qed
    moreover have "d = nc_count s - Suc k" using Suc.hyps(2) by simp
    moreover from this obtain m' where "nc_init_loop ?m (heap_end s) (nc_page s (Suc k)) (nc_page s (Suc (Suc k)))
        = Some (m', nc_page s (nc_count s - 1))" and
      "\<forall>i < nc_count s. load64 m' (nc_page s i) =
         (if Suc k \<le> i \<and> i + 1 < nc_count s then nc_page s (i + 1) else load64 ?m (nc_page s i))"
      using Suc.hyps(1) [OF _ True] by blast
    ultimately show ?thesis using True
      by (intro exI [of _ m']) (auto simp: not_less_eq_eq dest: le_antisym)
  qed
qed

lemma chain_from:
  assumes "\<And>i. i + 1 < n \<Longrightarrow> load64 m (f i) = f (i + 1)" "load64 m (f (n - 1)) = NULL"
    and "\<And>i. i < n \<Longrightarrow> f i \<noteq> NULL" "k < n"
  shows "chain m (f k) (map f [k..<n])"
  using assms(4)
proof (induction "n - k" arbitrary: k)
  case (Suc d)
  show ?case
  proof (cases "Suc k < n")
    case True
    then have "chain m (f (Suc k)) (map f [Suc k..<n])" using Suc by simp
    then show ?thesis using Suc.prems assms(1) [of k] assms(3) [of k] True by (simp add: upt_conv_Cons)
  next
    case False
    then have "n = Suc k" using Suc.prems by simp
    then show ?thesis using assms(2,3) by simp
  qed
qed simp

lemma ncpage_init_free:
  assumes "nc_heap_ok s" "ncp_lock s = MUTEX_UNLOCKED"
  shows "\<exists>s'. ncpage_init s = Some s' \<and> nc_free s' (map (nc_page s) [0..<nc_count s])
    \<and> heap_start s' = heap_start s \<and> heap_end s' = heap_end s"
proof -
  note pg = nc_page_facts [OF assms(1)] and n = nc_count_bounds(1) [OF assms(1)]
  have p0: "nc_page s 0 = heap_start s" by (simp add: nc_page_def)
  let ?m = "store64 (mem s) (nc_page s 0) (nc_page s 0)"
  obtain m' where m': "nc_init_loop ?m (heap_end s) (nc_page s 0) (nc_page s (Suc 0)) = Some (m', nc_page s (nc_count s - 1))"
    "\<forall>i < nc_count s. load64 m' (nc_page s i) =
         (if 0 \<le> i \<and> i + 1 < nc_count s then nc_page s (i + 1) else load64 ?m (nc_page s i))"
    using nc_init_loop_from [OF assms(1) n] by blast
  let ?l = "nc_page s (nc_count s - 1)"
  have "nc_init_loop (mem s) (heap_end s) (nc_page s 0) (nc_page s 0) = Some (m', ?l)"
    using m'(1) pg(3) [of 0] n
    by (simp add: nc_init_loop.simps [of "mem s" "heap_end s" "nc_page s 0"] nc_page_Suc)
  then have init: "ncpage_init s = Some (s\<lparr>page_head := heap_start s, mem := store64 m' ?l NULL\<rparr>)"
    by (simp add: ncpage_init_def Let_def p0)
  have ld: "load64 (store64 m' ?l NULL) (nc_page s i) = (if i = nc_count s - 1 then NULL else nc_page s (i + 1))"
    if i: "i < nc_count s" for i
  proof -
    have "aligned 3 (nc_page s i)" "aligned 3 ?l"
      using pg(1) i n by (simp_all add: aligned_mono [of 12 _ 3])
    then show ?thesis
      using pg(4) [of "nc_count s - 1" i] i n m'(2) by (auto simp: load64_store64_aligned)
  qed
  have "chain (store64 m' ?l NULL) (nc_page s 0) (map (nc_page s) [0..<nc_count s])"
    by (rule chain_from) (use ld pg(2) n in auto)
  moreover have "distinct (map (nc_page s) [0..<nc_count s])"
    using pg(4) by (auto simp: distinct_map inj_on_def)
  ultimately show ?thesis
    using init assms(2) pg(1) p0 by (auto simp: nc_free_def)
qed

section \<open>A second provider of pages\<close>

definition nc_pages :: "nc_machine \<Rightarrow> u64 set" where
  "nc_pages s = nc_page s ` {..<nc_count s}"

definition nc_inv :: "nc_machine \<Rightarrow> bool" where
  "nc_inv s \<longleftrightarrow> (\<exists>ps. nc_free s ps \<and> set ps \<subseteq> nc_pages s)"

definition nc_live :: "nc_machine \<Rightarrow> u64 set" where
  "nc_live s = {p \<in> nc_pages s. \<forall>ps. nc_free s ps \<longrightarrow> p \<notin> set ps}"

lemma nc_live_eq:
  assumes "nc_free s ps"
  shows "nc_live s = nc_pages s - set ps"
proof -
  have "nc_free s qs \<longleftrightarrow> qs = ps" for qs
    using assms chain_unique [OF nc_freeD(1) nc_freeD(1)] by blast
  then show ?thesis by (auto simp: nc_live_def)
qed

lemma nc_pages_head [simp, frame]:
  "nc_pages (s\<lparr>page_head := h\<rparr>) = nc_pages s" "nc_pages (s\<lparr>mem := m\<rparr>) = nc_pages s"
  by (simp_all add: nc_pages_def nc_page_def nc_count_def image_def)

interpretation nc: page_provider ncpage_zalloc nc_live nc_inv
proof unfold_locales
  fix s s' p
  assume "nc_inv s"
  then obtain ps where ps: "nc_free s ps" "set ps \<subseteq> nc_pages s" by (auto simp: nc_inv_def)
  note z = zalloc_cases [OF ps(1)]
  show "\<exists>s' p. ncpage_zalloc s = Some (s', p)" using z by (auto split: list.splits)
  { assume "ncpage_zalloc s = Some (s', NULL)"
    then show "s' = s" using z nc_freeD(4) [OF ps(1)] by (auto split: list.splits) }
  assume a: "ncpage_zalloc s = Some (s', p)"
  show "nc_inv s'"
  proof (cases ps)
    case Nil
    then show ?thesis using a z ps unfolding nc_inv_def by auto
  next
    case (Cons q qs)
    then have "s' = s\<lparr>page_head := load64 (mem s) q\<rparr>" using a z by auto
    moreover have "nc_free (s\<lparr>page_head := load64 (mem s) q\<rparr>) qs" using zalloc_pop ps(1) Cons by simp
    ultimately show ?thesis using ps(2) Cons unfolding nc_inv_def by (intro exI [of _ qs]) simp
  qed
  assume "p \<noteq> NULL"
  with a z obtain q qs where "ps = q # qs" "(s\<lparr>page_head := load64 (mem s) q\<rparr>, q) = (s', p)"
    by (cases ps) simp_all
  then have qs: "ps = p # qs" "s' = s\<lparr>page_head := load64 (mem s) p\<rparr>" by (metis prod.inject)+
  have s': "nc_free s' qs" using zalloc_pop ps(1) qs by simp
  have "p \<notin> set qs" using nc_freeD(2) [OF ps(1)] qs(1) by simp
  then show "p \<notin> nc_live s \<and> p \<in> nc_live s' \<and> nc_live s \<subseteq> nc_live s'"
    unfolding nc_live_eq [OF ps(1)] nc_live_eq [OF s'] using ps(2) qs by auto
  show "aligned 12 p" using nc_freeD(3) [OF ps(1)] qs(1) by simp
qed

text \<open>Allocating \<open>k\<close> times hands out the first \<open>k\<close> free pages in order, and then NULL.\<close>

lemma alloc_many_take:
  "nc_free s ps \<Longrightarrow> \<exists>s'. alloc_many ncpage_zalloc k s = Some (s', take k ps)
     \<and> nc_free s' (drop k ps) \<and> mem s' = mem s"
proof (induction k arbitrary: s ps)
  case (Suc k)
  show ?case
  proof (cases ps)
    case Nil
    then show ?thesis using zalloc_cases [OF Suc.prems] Suc.prems by simp
  next
    case (Cons p qs)
    then have f: "nc_free (s\<lparr>page_head := load64 (mem s) p\<rparr>) qs" "p \<noteq> NULL"
      using Suc.prems zalloc_pop nc_freeD(4) [OF Suc.prems] by auto
    show ?thesis using Suc.IH [OF f(1)] f(2) zalloc_cases [OF Suc.prems] Cons by auto
  qed
qed auto

section \<open>Properties\<close>

definition demo_nc :: nc_machine where
  "demo_nc = \<lparr>mem = (\<lambda>_. 0xFF), heap_start = 0x10000, heap_end = 0x12800, page_head = 0, ncp_lock = 0\<rparr>"

lemma demo_nc_ok: "nc_heap_ok demo_nc" "ncp_lock demo_nc = MUTEX_UNLOCKED" "nc_count demo_nc = 3"
  "heap_start demo_nc = 0x10000"
  by (simp_all add: nc_heap_ok_def nc_count_def demo_nc_def aligned_def)

text \<open>
  After \<open>ncpage_init\<close>, which terminates, the allocator hands out every page of the heap
  exactly once and in address order, a partial page at the end included, and then NULL.\<close>

theorem ncpage_init_drain:
  assumes "nc_heap_ok s" "ncp_lock s = MUTEX_UNLOCKED"
  shows "\<exists>s' s''. ncpage_init s = Some s'
    \<and> alloc_many ncpage_zalloc (nc_count s + 1) s' = Some (s'', map (\<lambda>i. heap_start s + 4096 * of_nat i) [0..<nc_count s])
    \<and> ncpage_zalloc s'' = Some (s'', NULL)"
proof -
  obtain s' where s': "ncpage_init s = Some s'" "nc_free s' (map (nc_page s) [0..<nc_count s])"
    using ncpage_init_free [OF assms] by blast
  obtain s'' where s'': "alloc_many ncpage_zalloc (nc_count s + 1) s' = Some (s'', map (nc_page s) [0..<nc_count s])"
    "nc_free s'' []"
    using alloc_many_take [OF s'(2), of "nc_count s + 1"] by auto
  have "map (nc_page s) [0..<nc_count s] = map (\<lambda>i. heap_start s + 4096 * of_nat i) [0..<nc_count s]"
    by (simp add: nc_page_def)
  then show ?thesis using s'(1) s'' zalloc_cases [OF s''(2)] by auto
qed

lemma ncpage_init_drain_witness:
  "\<exists>s' s''. ncpage_init demo_nc = Some s' \<and> alloc_many ncpage_zalloc 4 s' = Some (s'', [0x10000, 0x11000, 0x12000])"
proof -
  have "[0..<3] = [0, 1, 2 :: nat]" by (simp add: numeral_3_eq_3)
  then show ?thesis
    using ncpage_init_drain [OF demo_nc_ok(1,2)] by (auto simp: demo_nc_ok simp del: alloc_many.simps)
qed

text \<open>
  Allocation and free are pop and push on the list of free pages the memory stands for:
  both return, release the lock, and a freed page is the next one handed out, its old
  contents apart from the link word not cleared.\<close>

theorem ncpage_lifo:
  assumes "nc_free s ps" "p \<noteq> NULL" "aligned 12 p" "p \<notin> set ps"
  shows "\<exists>s' s''. ncpage_free s p = Some s' \<and> nc_free s' (p # ps)
    \<and> ncpage_zalloc s' = Some (s'', p) \<and> nc_free s'' ps
    \<and> (\<forall>a. \<not> within a p 8 \<longrightarrow> mem s'' a = mem s a)"
proof -
  note f = free_push [OF assms]
  have "store64 (mem s) p (page_head s) a = mem s a" if "\<not> within a p 8" for a
    by (rule store64_other) (use that in \<open>auto simp: within_def\<close>)
  then show ?thesis
    using f zalloc_cases [OF f(2)] zalloc_pop [OF f(2)] by auto
qed

lemma ncpage_lifo_witness:
  "\<exists>s' s''. ncpage_free demo_nc 0x11000 = Some s' \<and> ncpage_zalloc s' = Some (s'', 0x11000) \<and> mem s'' 0x11008 = 0xFF"
proof -
  have f: "nc_free demo_nc []" by (simp add: nc_free_def demo_nc_def)
  show ?thesis using ncpage_lifo [OF f, where p = "0x11000"]
    by (auto simp: aligned_def within_def) (auto simp: demo_nc_def)
qed

end
