(* ===== verification/RingBuffers.thy ===== *)
theory RingBuffers
  imports Pages Locks
begin

text \<open>
  The two ring buffers: the one of the virtio input driver (src/src/ringbuff.c), 64-bit
  elements in pages of the kernel heap with a choice of three behaviours when it is full,
  and the ten-byte ring of the firmware's console (sbi/src/ring_buff.c), guarded by a mutex.
  Their contract is the locale \<open>fifo\<close> and its extensions for a full ring.
\<close>

section \<open>The contract of a bounded queue\<close>

text \<open>\<open>puts\<close> and \<open>gets\<close> repeat an operation; \<open>None\<close> is an operation that does not return.\<close>

fun puts :: "('s \<Rightarrow> 'a \<Rightarrow> ('s \<times> bool) option) \<Rightarrow> 's \<Rightarrow> 'a list \<Rightarrow> 's option" where
  "puts put s [] = Some s"
| "puts put s (x # xs) = (case put s x of None \<Rightarrow> None | Some (s', _) \<Rightarrow> puts put s' xs)"

fun gets :: "('s \<Rightarrow> ('s \<times> 'a option) option) \<Rightarrow> 's \<Rightarrow> nat \<Rightarrow> ('s \<times> 'a option list) option" where
  "gets get s 0 = Some (s, [])"
| "gets get s (Suc n) = (case get s of None \<Rightarrow> None
     | Some (s', x) \<Rightarrow> map_option (\<lambda>(s'', xs). (s'', x # xs)) (gets get s' n))"

locale fifo =
  fixes put :: "'s \<Rightarrow> 'a \<Rightarrow> ('s \<times> bool) option"
    and get :: "'s \<Rightarrow> ('s \<times> 'a option) option"
    and elems :: "'s \<Rightarrow> 'a list"
    and room :: "'s \<Rightarrow> nat"
    and inv :: "'s \<Rightarrow> bool"
  assumes put_room: "inv s \<Longrightarrow> length (elems s) < room s \<Longrightarrow>
      \<exists>s'. put s x = Some (s', True) \<and> inv s' \<and> elems s' = elems s @ [x] \<and> room s' = room s"
    and get_empty: "inv s \<Longrightarrow> elems s = [] \<Longrightarrow> get s = Some (s, None)"
    and get_first: "inv s \<Longrightarrow> elems s = x # xs \<Longrightarrow>
      \<exists>s'. get s = Some (s', Some x) \<and> inv s' \<and> elems s' = xs \<and> room s' = room s"
begin

lemma puts_room:
  assumes "inv s" "length (elems s) + length xs \<le> room s"
  shows "\<exists>s'. puts put s xs = Some s' \<and> inv s' \<and> elems s' = elems s @ xs \<and> room s' = room s"
  using assms
proof (induction xs arbitrary: s)
  case (Cons x xs)
  then obtain s' where s': "put s x = Some (s', True)" "inv s'" "elems s' = elems s @ [x]" "room s' = room s"
    using put_room [of s x] by auto
  from Cons.IH [OF s'(2)] s' Cons.prems show ?case by auto
qed simp

lemma gets_all:
  assumes "inv s"
  shows "\<exists>s'. gets get s (length (elems s)) = Some (s', map Some (elems s)) \<and> inv s' \<and> elems s' = []
    \<and> room s' = room s"
  using assms
proof (induction "elems s" arbitrary: s)
  case Nil
  then show ?case by auto
next
  case (Cons x xs)
  then obtain s' where s': "get s = Some (s', Some x)" "inv s'" "elems s' = xs" "room s' = room s"
    using get_first [of s x xs] by metis
  from Cons.hyps(1) [of s'] s' Cons.hyps(2) [symmetric] show ?case by auto
qed

end

text \<open>A full ring may refuse the element, with an answer of its own, or drop the oldest one.\<close>

locale fifo_refuse = fifo +
  fixes answer :: bool
  assumes put_full: "inv s \<Longrightarrow> length (elems s) = room s \<Longrightarrow> put s x = Some (s, answer)"
begin

lemma puts_prefix:
  assumes "inv s" "length (elems s) \<le> room s"
  shows "\<exists>s'. puts put s xs = Some s' \<and> inv s' \<and> elems s' = take (room s) (elems s @ xs) \<and> room s' = room s"
  using assms
proof (induction xs arbitrary: s)
  case (Cons x xs)
  show ?case
  proof (cases "length (elems s) < room s")
    case True
    then obtain s' where s': "put s x = Some (s', True)" "inv s'" "elems s' = elems s @ [x]" "room s' = room s"
      using put_room [of s x] Cons.prems by auto
    from Cons.IH [OF s'(2)] s' True show ?thesis by auto
  next
    case False
    then have "length (elems s) = room s" using Cons.prems by simp
    from Cons.IH [OF Cons.prems] put_full [OF Cons.prems(1) this, of x] this show ?thesis by auto
  qed
qed simp

end

locale fifo_overwrite = fifo +
  assumes put_over: "inv s \<Longrightarrow> 0 < room s \<Longrightarrow> length (elems s) = room s \<Longrightarrow>
      \<exists>s'. put s x = Some (s', True) \<and> inv s' \<and> elems s' = tl (elems s) @ [x] \<and> room s' = room s"
begin

lemma puts_suffix:
  assumes "inv s" "0 < room s" "length (elems s) \<le> room s"
  shows "\<exists>s'. puts put s xs = Some s' \<and> inv s' \<and> room s' = room s
    \<and> elems s' = drop (length (elems s) + length xs - room s) (elems s @ xs)"
  using assms
proof (induction xs arbitrary: s)
  case (Cons x xs)
  show ?case
  proof (cases "length (elems s) < room s")
    case True
    then obtain s' where s': "put s x = Some (s', True)" "inv s'" "elems s' = elems s @ [x]" "room s' = room s"
      using put_room [of s x] Cons.prems by auto
    from Cons.IH [OF s'(2)] s' True show ?thesis by auto
  next
    case False
    then have l: "length (elems s) = room s" using Cons.prems by simp
    then obtain e es where e: "elems s = e # es" using Cons.prems(2) by (cases "elems s") auto
    obtain s' where s': "put s x = Some (s', True)" "inv s'" "elems s' = es @ [x]" "room s' = room s"
      using put_over [OF Cons.prems(1,2) l, of x] e by auto
    have r: "room s = Suc (length es)" using l e by simp
    from Cons.IH [OF s'(2)] s' e r show ?thesis by auto
  qed
qed simp

end

section \<open>ringbuff.c\<close>

text \<open>\<open>RingBufferBehavior\<close>; the struct keeps it in a \<open>uint32_t\<close>.\<close>

abbreviation (input) RB_OVERWRITE :: u32 where "RB_OVERWRITE \<equiv> 0"
abbreviation (input) RB_DISCARD :: u32 where "RB_DISCARD \<equiv> 1"
abbreviation (input) RB_ERROR :: u32 where "RB_ERROR \<equiv> 2"

record RingBuffer =
  at :: u32
  num_elements :: u32
  capacity :: u32
  behavior :: u32
  buffer :: u64

definition ring_init :: "machine \<Rightarrow> RingBuffer \<Rightarrow> u32 \<Rightarrow> u32 \<Rightarrow> machine \<times> RingBuffer" where
  "ring_init s buf cap rbb =
     (let buf = buf\<lparr>at := 0, capacity := cap, num_elements := 0, behavior := rbb\<rparr>;
          (s, p) = cpage_znalloc s 10
      in (s, buf\<lparr>buffer := p\<rparr>))"

text \<open>\<open>ring_new\<close> gives the address of the struct; its fields are the record.\<close>

definition ring_new :: "machine \<Rightarrow> RingBuffer \<Rightarrow> u32 \<Rightarrow> u32 \<Rightarrow> machine \<times> u64 \<times> RingBuffer" where
  "ring_new s uninit cap rbb =
     (let (s, buf) = cpage_znalloc s 10; (s, r) = ring_init s uninit cap rbb in (s, buf, r))"

text \<open>The element \<open>buffer[b]\<close>. A capacity of 0 leaves \<open>x % 0 = x\<close>, as the RISC-V remainder does.\<close>

definition ring_slot :: "RingBuffer \<Rightarrow> u32 \<Rightarrow> u64" where
  "ring_slot buf b = buffer buf + 8 * ucast b"

definition ring_store :: "mem \<times> RingBuffer \<Rightarrow> u64 \<Rightarrow> mem \<times> RingBuffer" where
  "ring_store = (\<lambda>(m, buf) elem.
     let b = (at buf + num_elements buf) mod capacity buf
     in (store64 m (ring_slot buf b) elem, buf\<lparr>num_elements := num_elements buf + 1\<rparr>))"

definition ring_push :: "mem \<times> RingBuffer \<Rightarrow> u64 \<Rightarrow> (mem \<times> RingBuffer) \<times> bool" where
  "ring_push = (\<lambda>(m, buf) elem.
     if capacity buf \<le> num_elements buf then
       if behavior buf = RB_DISCARD then ((m, buf), True)
       else if behavior buf = RB_ERROR then ((m, buf), False)
       else
         let buf = buf\<lparr>num_elements := num_elements buf - 1\<rparr>;
             buf = buf\<lparr>at := (at buf + 1) mod capacity buf\<rparr>
         in (ring_store (m, buf) elem, True)
     else (ring_store (m, buf) elem, True))"

text \<open>\<open>ring_pop\<close> gives \<open>Some\<close> of the element written to \<open>*elem\<close> with \<open>true\<close>, \<open>None\<close> with \<open>false\<close>.\<close>

definition ring_pop :: "mem \<times> RingBuffer \<Rightarrow> (mem \<times> RingBuffer) \<times> u64 option" where
  "ring_pop = (\<lambda>(m, buf).
     if num_elements buf = 0 then ((m, buf), None)
     else
       let elem = load64 m (ring_slot buf (at buf));
           buf = buf\<lparr>at := (at buf + 1) mod capacity buf\<rparr>;
           buf = buf\<lparr>num_elements := num_elements buf - 1\<rparr>
       in ((m, buf), Some elem))"

text \<open>The queue a ring stands for, and when it is sound.\<close>

definition ring_elems :: "mem \<times> RingBuffer \<Rightarrow> u64 list" where
  "ring_elems = (\<lambda>(m, buf). map (\<lambda>i. load64 m (ring_slot buf ((at buf + of_nat i) mod capacity buf)))
     [0..<unat (num_elements buf)])"

definition ring_ok :: "u32 \<Rightarrow> mem \<times> RingBuffer \<Rightarrow> bool" where
  "ring_ok b = (\<lambda>(m, buf). 0 < capacity buf \<and> capacity buf < 2 ^ 31 \<and> at buf < capacity buf
     \<and> num_elements buf \<le> capacity buf \<and> aligned 3 (buffer buf) \<and> behavior buf = b)"

definition ring_room :: "mem \<times> RingBuffer \<Rightarrow> nat" where
  "ring_room r = unat (capacity (snd r))"

lemma unat_8_ucast: "unat (8 * ucast (x::u32) :: u64) = 8 * unat x"
proof -
  have "unat x < 2 ^ LENGTH(32)" by (rule unsigned_less)
  then show ?thesis by (simp add: unat_word_ariths unsigned_ucast_eq take_bit_nat_eq_self)
qed

lemma ring_slot_aligned: "aligned 3 (buffer buf) \<Longrightarrow> aligned 3 (ring_slot buf b)"
  unfolding ring_slot_def by (rule aligned_add) (simp_all add: aligned_iff_dvd unat_8_ucast)

lemma ring_slot_inj: "ring_slot buf b = ring_slot buf c \<longleftrightarrow> b = c"
proof
  assume "ring_slot buf b = ring_slot buf c"
  then have "unat (8 * ucast b :: u64) = unat (8 * ucast c :: u64)" by (simp add: ring_slot_def)
  then show "b = c" by (simp add: unat_8_ucast word_unat_eq_iff)
qed simp

lemma load_store_slot:
  "aligned 3 (buffer buf) \<Longrightarrow> load64 (store64 m (ring_slot buf b) v) (ring_slot buf c)
     = (if b = c then v else load64 m (ring_slot buf c))"
  by (simp add: load64_store64_aligned ring_slot_aligned ring_slot_inj)

text \<open>Index arithmetic below the capacity, on naturals.\<close>

lemma ring_index:
  assumes "a < cap" "cap < (2 ^ 31 :: u32)" "i \<le> unat cap"
  shows "unat ((a + of_nat i) mod cap) = (unat a + i) mod unat cap"
proof -
  have "unat cap < 2 ^ 31" "unat a < unat cap"
    using assms(1,2) by (simp_all add: word_less_nat_alt)
  then have "unat (a + of_nat i) = unat a + i"
    using assms(3) by (simp add: unat_word_ariths unat_of_nat)
  then show ?thesis by (simp add: unat_mod_distrib)
qed

lemma mod_add_inj:
  assumes "i < n" "j < n" "(a + i) mod n = (a + j) mod (n::nat)"
  shows "i = j"
proof -
  have "i mod n = j mod n" using assms(3) by (simp add: nat_mod_eq_iff)
  then show ?thesis using assms(1,2) by simp
qed

lemma length_ring_elems [simp]: "length (ring_elems (m, buf)) = unat (num_elements buf)"
  by (simp add: ring_elems_def)

lemma ring_store_elems:
  assumes "ring_ok b (m, buf)" "num_elements buf < capacity buf"
  shows "ring_ok b (ring_store (m, buf) x)" "ring_elems (ring_store (m, buf) x) = ring_elems (m, buf) @ [x]"
    and "ring_room (ring_store (m, buf) x) = ring_room (m, buf)"
proof -
  let ?n = "unat (num_elements buf)" and ?cap = "unat (capacity buf)"
  have ok: "at buf < capacity buf" "capacity buf < 2 ^ 31" "aligned 3 (buffer buf)"
    using assms(1) by (simp_all add: ring_ok_def)
  have n: "?n < ?cap" using assms(2) by (simp add: word_less_nat_alt)
  have suc: "unat (num_elements buf + 1) = Suc ?n"
    using assms(2) by (rule unat_plus1)
  have num: "num_elements buf = of_nat ?n" by simp
  have other: "(at buf + num_elements buf) mod capacity buf \<noteq> (at buf + of_nat i) mod capacity buf"
    if "i < ?n" for i
  proof
    assume "(at buf + num_elements buf) mod capacity buf = (at buf + of_nat i) mod capacity buf"
    then have "unat ((at buf + of_nat ?n) mod capacity buf) = unat ((at buf + of_nat i) mod capacity buf)"
      using num by metis
    then have "(unat (at buf) + ?n) mod ?cap = (unat (at buf) + i) mod ?cap"
      using ring_index [OF ok(1,2), of ?n] ring_index [OF ok(1,2), of i] that n by simp
    then have "?n = i"
      using mod_add_inj [of ?n ?cap i "unat (at buf)"] that n by simp
    then show False using that by simp
  qed
  show "ring_elems (ring_store (m, buf) x) = ring_elems (m, buf) @ [x]"
    using other by (simp add: ring_elems_def ring_store_def Let_def suc ring_slot_def [of "num_elements_update _ _"]
        flip: ring_slot_def) (auto simp: load_store_slot [OF ok(3)])
  show "ring_ok b (ring_store (m, buf) x)"
    using assms n suc by (simp add: ring_ok_def ring_store_def Let_def word_le_nat_alt)
  show "ring_room (ring_store (m, buf) x) = ring_room (m, buf)"
    by (simp add: ring_room_def ring_store_def Let_def)
qed

text \<open>Advancing \<open>at\<close> and counting down drops the oldest element.\<close>

definition ring_advance :: "RingBuffer \<Rightarrow> RingBuffer" where
  "ring_advance buf = buf\<lparr>at := (at buf + 1) mod capacity buf, num_elements := num_elements buf - 1\<rparr>"

lemma ring_advance_elems:
  assumes "ring_ok b (m, buf)" "num_elements buf \<noteq> 0"
  shows "ring_ok b (m, ring_advance buf)" "ring_room (m, ring_advance buf) = ring_room (m, buf)"
    and "ring_elems (m, buf) = load64 m (ring_slot buf (at buf)) # ring_elems (m, ring_advance buf)"
proof -
  let ?n = "unat (num_elements buf)" and ?cap = "unat (capacity buf)"
  have ok: "at buf < capacity buf" "capacity buf < 2 ^ 31" "num_elements buf \<le> capacity buf" "0 < capacity buf"
    using assms(1) by (simp_all add: ring_ok_def)
  have n: "0 < ?n" "?n \<le> ?cap" using assms(2) ok(3) by (simp_all add: word_le_nat_alt unat_gt_0)
  have pre: "unat (num_elements buf - 1) = ?n - 1" using assms(2) by (simp add: unat_minus_one)
  have at': "unat ((at buf + 1) mod capacity buf) = (unat (at buf) + 1) mod ?cap"
    using ring_index [OF ok(1,2), of 1] n by simp
  have lt: "(at buf + 1) mod capacity buf < capacity buf"
    using ok(4) by (simp add: word_mod_less_divisor)
  have shift: "((at buf + 1) mod capacity buf + of_nat i) mod capacity buf = (at buf + of_nat (Suc i)) mod capacity buf"
    if "Suc i \<le> ?n" for i
  proof -
    have "unat (((at buf + 1) mod capacity buf + of_nat i) mod capacity buf) = ((unat (at buf) + 1) mod ?cap + i) mod ?cap"
      using ring_index [OF lt ok(2), of i] at' that n by simp
    also have "\<dots> = unat ((at buf + of_nat (Suc i)) mod capacity buf)"
      using ring_index [OF ok(1,2), of "Suc i"] that n by (simp add: mod_simps)
    finally show ?thesis by (simp add: word_unat_eq_iff)
  qed
  have at0: "at buf mod capacity buf = at buf" using ok(1) by (rule word_mod_self)
  have "[0..<?n] = 0 # map Suc [0..<?n - 1]"
    using n by (simp add: map_Suc_upt upt_conv_Cons)
  then show "ring_elems (m, buf) = load64 m (ring_slot buf (at buf)) # ring_elems (m, ring_advance buf)"
    using shift by (auto simp: ring_elems_def ring_advance_def pre at0 ring_slot_def)
  show "ring_ok b (m, ring_advance buf)"
    using assms(1) lt pre n by (simp add: ring_ok_def ring_advance_def word_le_nat_alt)
  show "ring_room (m, ring_advance buf) = ring_room (m, buf)"
    by (simp add: ring_room_def ring_advance_def)
qed

lemma ring_push_cases:
  assumes "ring_ok b (m, buf)"
  shows "num_elements buf < capacity buf \<Longrightarrow> ring_push (m, buf) x = (ring_store (m, buf) x, True)"
    and "num_elements buf = capacity buf \<Longrightarrow> b = RB_DISCARD \<Longrightarrow> ring_push (m, buf) x = ((m, buf), True)"
    and "num_elements buf = capacity buf \<Longrightarrow> b = RB_ERROR \<Longrightarrow> ring_push (m, buf) x = ((m, buf), False)"
    and "num_elements buf = capacity buf \<Longrightarrow> b \<noteq> RB_DISCARD \<Longrightarrow> b \<noteq> RB_ERROR \<Longrightarrow>
      ring_push (m, buf) x = (ring_store (m, ring_advance buf) x, True)"
proof -
  have upd: "buf\<lparr>num_elements := n, at := a\<rparr> = buf\<lparr>at := a, num_elements := n\<rparr>" for n a by (cases buf) simp
  then show "num_elements buf = capacity buf \<Longrightarrow> b \<noteq> RB_DISCARD \<Longrightarrow> b \<noteq> RB_ERROR \<Longrightarrow>
      ring_push (m, buf) x = (ring_store (m, ring_advance buf) x, True)"
    using assms by (simp add: ring_push_def ring_ok_def ring_advance_def Let_def upd)
qed (use assms in \<open>auto simp: ring_push_def ring_ok_def Let_def\<close>)

lemma ring_pop_eq:
  "ring_pop (m, buf) = (if num_elements buf = 0 then ((m, buf), None)
     else ((m, ring_advance buf), Some (load64 m (ring_slot buf (at buf)))))"
  by (simp add: ring_pop_def ring_advance_def Let_def)

text \<open>The ring provides the queue; the three behaviours provide the three extensions.\<close>

lemma ring_fifo: "fifo (\<lambda>r x. Some (ring_push r x)) (\<lambda>r. Some (ring_pop r)) ring_elems ring_room (ring_ok b)"
proof unfold_locales
  fix r :: "mem \<times> RingBuffer" and x xs
  obtain m buf where r: "r = (m, buf)" by fastforce
  assume ok: "ring_ok b r"
  { assume "length (ring_elems r) < ring_room r"
    then have "num_elements buf < capacity buf" by (simp add: r ring_room_def word_less_nat_alt)
    then show "\<exists>r'. Some (ring_push r x) = Some (r', True) \<and> ring_ok b r' \<and> ring_elems r' = ring_elems r @ [x]
        \<and> ring_room r' = ring_room r"
      using ring_store_elems [of b m buf] ring_push_cases(1) [of b m buf] ok r by simp }
  { assume "ring_elems r = []"
    then have "num_elements buf = 0" using length_ring_elems [of m buf] r by (simp add: unat_0_iff)
    then show "Some (ring_pop r) = Some (r, None)" by (simp add: ring_pop_eq r) }
  assume e: "ring_elems r = x # xs"
  then have "num_elements buf \<noteq> 0" using length_ring_elems [of m buf] r by auto
  then show "\<exists>r'. Some (ring_pop r) = Some (r', Some x) \<and> ring_ok b r' \<and> ring_elems r' = xs \<and> ring_room r' = ring_room r"
    using ring_advance_elems [of b m buf] ok e r by (simp add: ring_pop_eq)
qed

lemma ring_full: "length (ring_elems (m, buf)) = ring_room (m, buf) \<longleftrightarrow> num_elements buf = capacity buf"
  by (simp add: ring_room_def word_unat_eq_iff)

interpretation discard: fifo_refuse "\<lambda>r x. Some (ring_push r x)" "\<lambda>r. Some (ring_pop r)"
  ring_elems ring_room "ring_ok RB_DISCARD" True
  by (rule fifo_refuse.intro [OF ring_fifo], unfold_locales)
    (use ring_push_cases(2) ring_full in auto)

interpretation error: fifo_refuse "\<lambda>r x. Some (ring_push r x)" "\<lambda>r. Some (ring_pop r)"
  ring_elems ring_room "ring_ok RB_ERROR" False
  by (rule fifo_refuse.intro [OF ring_fifo], unfold_locales)
    (use ring_push_cases(3) ring_full in auto)

interpretation overwrite: fifo_overwrite "\<lambda>r x. Some (ring_push r x)" "\<lambda>r. Some (ring_pop r)"
  ring_elems ring_room "ring_ok RB_OVERWRITE"
proof (rule fifo_overwrite.intro [OF ring_fifo], unfold_locales)
  fix r :: "mem \<times> RingBuffer" and x
  obtain m buf where r: "r = (m, buf)" by fastforce
  assume ok: "ring_ok RB_OVERWRITE r" and "length (ring_elems r) = ring_room r"
  then have full: "num_elements buf = capacity buf" "num_elements buf \<noteq> 0"
    using ring_full r by (auto simp: ring_ok_def)
  note a = ring_advance_elems [OF ok [unfolded r] full(2)]
  have lt: "num_elements (ring_advance buf) < capacity (ring_advance buf)"
    using full by (simp add: ring_advance_def word_less_nat_alt unat_minus_one unat_gt_0)
  show "\<exists>r'. Some (ring_push r x) = Some (r', True) \<and> ring_ok RB_OVERWRITE r'
      \<and> ring_elems r' = tl (ring_elems r) @ [x] \<and> ring_room r' = ring_room r"
    using ring_store_elems [OF a(1) lt] a(2,3) ring_push_cases(4) [of RB_OVERWRITE m buf] ok full(1) r by simp
qed

section \<open>The firmware's console ring\<close>

text \<open>The globals of sbi/src/ring_buff.c; \<open>%\<close> on int truncates (\<open>smod\<close>).\<close>

definition BUFF_SIZE :: int where
  "BUFF_SIZE = 10"

record console_ring =
  buf :: "u8 list"
  fill :: int
  start :: int
  buf_mutex :: u32

definition ring_put :: "console_ring \<Rightarrow> u8 \<Rightarrow> console_ring option" where
  "ring_put s c =
     (case sbi_mutex_spinlock (buf_mutex s) of
        None \<Rightarrow> None
      | Some l \<Rightarrow>
          let s = s\<lparr>buf_mutex := l\<rparr>;
              s = (if fill s < BUFF_SIZE
                   then s\<lparr>buf := (buf s)[nat ((start s + fill s) smod BUFF_SIZE) := c], fill := fill s + 1\<rparr>
                   else s)
          in Some (s\<lparr>buf_mutex := sbi_mutex_unlock (buf_mutex s)\<rparr>))"

definition ring_get :: "console_ring \<Rightarrow> (console_ring \<times> u8) option" where
  "ring_get s =
     (let ret_c = 0xFF in
      case sbi_mutex_spinlock (buf_mutex s) of
        None \<Rightarrow> None
      | Some l \<Rightarrow>
          let s = s\<lparr>buf_mutex := l\<rparr>;
              (ret_c, s) = (if 0 < fill s
                then (buf s ! nat (start s),
                      s\<lparr>start := (start s + 1) smod BUFF_SIZE, fill := fill s - 1\<rparr>)
                else (ret_c, s))
          in Some (s\<lparr>buf_mutex := sbi_mutex_unlock (buf_mutex s)\<rparr>, ret_c))"

definition con_ok :: "console_ring \<Rightarrow> bool" where
  "con_ok s \<longleftrightarrow> length (buf s) = 10 \<and> 0 \<le> start s \<and> start s < 10 \<and> 0 \<le> fill s \<and> fill s \<le> 10
     \<and> buf_mutex s = MUTEX_UNLOCKED"

definition con_elems :: "console_ring \<Rightarrow> u8 list" where
  "con_elems s = map (\<lambda>i. buf s ! ((nat (start s) + i) mod 10)) [0..<nat (fill s)]"

lemma smod_10: "0 \<le> x \<Longrightarrow> nat (x smod BUFF_SIZE) = nat x mod 10"
  by (cases "x = 0") (simp_all add: BUFF_SIZE_def signed_modulo_int_def nat_mod_distrib)

text \<open>\<open>ring_get\<close> answers 0xFF on an empty ring; as a queue operation that is no element.\<close>

definition con_put :: "console_ring \<Rightarrow> u8 \<Rightarrow> (console_ring \<times> bool) option" where
  "con_put s c = map_option (\<lambda>s'. (s', fill s < BUFF_SIZE)) (ring_put s c)"

definition con_get :: "console_ring \<Rightarrow> (console_ring \<times> u8 option) option" where
  "con_get s = map_option (\<lambda>(s', c). (s', if 0 < fill s then Some c else None)) (ring_get s)"

lemma ring_put_eq:
  assumes "con_ok s"
  shows "ring_put s c = Some (if fill s < 10
    then s\<lparr>buf := (buf s)[(nat (start s) + nat (fill s)) mod 10 := c], fill := fill s + 1\<rparr> else s)"
  using assms smod_10 [of "start s + fill s"]
  by (cases s) (simp add: ring_put_def con_ok_def Let_def BUFF_SIZE_def nat_add_distrib)

lemma ring_get_eq:
  assumes "con_ok s"
  shows "ring_get s = Some (if 0 < fill s
    then (s\<lparr>start := int ((nat (start s) + 1) mod 10), fill := fill s - 1\<rparr>, buf s ! nat (start s)) else (s, 0xFF))"
proof -
  have "(start s + 1) smod BUFF_SIZE = int ((nat (start s) + 1) mod 10)"
    using assms by (simp add: con_ok_def BUFF_SIZE_def signed_modulo_int_def zmod_int add.commute)
  then show ?thesis
    using assms by (cases s) (simp add: ring_get_def con_ok_def Let_def)
qed

lemma con_put_elems:
  assumes "con_ok s" "fill s < 10"
  shows "con_elems (s\<lparr>buf := (buf s)[(nat (start s) + nat (fill s)) mod 10 := c], fill := fill s + 1\<rparr>)
    = con_elems s @ [c]"
proof -
  have f: "nat (fill s + 1) = Suc (nat (fill s))" "nat (fill s) < 10"
    using assms by (auto simp: con_ok_def)
  have "(nat (start s) + nat (fill s)) mod 10 \<noteq> (nat (start s) + i) mod 10" if "i < nat (fill s)" for i
    using mod_add_inj [of "nat (fill s)" 10 i "nat (start s)"] that f(2) by auto
  then show ?thesis
    using assms(1) f by (auto simp: con_elems_def con_ok_def)
qed

lemma con_get_elems:
  assumes "con_ok s" "0 < fill s"
  shows "con_elems s = buf s ! nat (start s)
    # con_elems (s\<lparr>start := int ((nat (start s) + 1) mod 10), fill := fill s - 1\<rparr>)"
proof -
  have "[0..<nat (fill s)] = 0 # map Suc [0..<nat (fill s - 1)]"
    using assms(2) by (simp add: map_Suc_upt upt_conv_Cons nat_diff_distrib)
  moreover have "(nat (start s) + Suc i) mod 10 = ((nat (start s) + 1) mod 10 + i) mod 10" for i
    by (simp add: mod_simps)
  ultimately show ?thesis
    using assms(1) by (auto simp: con_elems_def con_ok_def)
qed

interpretation console: fifo_refuse con_put con_get con_elems "\<lambda>_. 10" con_ok False
proof unfold_locales
  fix s :: console_ring and x xs
  assume ok: "con_ok s"
  have len: "length (con_elems s) = nat (fill s)" by (simp add: con_elems_def)
  { assume "length (con_elems s) < 10"
    then have "fill s < 10" using len by simp
    then show "\<exists>s'. con_put s x = Some (s', True) \<and> con_ok s' \<and> con_elems s' = con_elems s @ [x] \<and> (10::nat) = 10"
      using ok con_put_elems [OF ok] by (auto simp: con_put_def ring_put_eq BUFF_SIZE_def con_ok_def) }
  { assume "length (con_elems s) = 10"
    then have "\<not> fill s < 10" using len by simp
    then show "con_put s x = Some (s, False)"
      using ok by (simp add: con_put_def ring_put_eq BUFF_SIZE_def) }
  { assume "con_elems s = []"
    then have "\<not> 0 < fill s" using len by simp
    then show "con_get s = Some (s, None)" using ok by (simp add: con_get_def ring_get_eq) }
  assume e: "con_elems s = x # xs"
  then have f: "0 < fill s" using len by simp
  then show "\<exists>s'. con_get s = Some (s', Some x) \<and> con_ok s' \<and> con_elems s' = xs \<and> (10::nat) = 10"
    using ok e con_get_elems [OF ok f] by (auto simp: con_get_def ring_get_eq con_ok_def)
qed

section \<open>Properties\<close>

definition demo_ring :: "u32 \<Rightarrow> mem \<times> RingBuffer" where
  "demo_ring b = (\<lambda>_. 0, \<lparr>at = 1, num_elements = 0, capacity = 2, behavior = b, buffer = 0x1000\<rparr>)"

lemma demo_ring_ok: "ring_ok b (demo_ring b)" "ring_elems (demo_ring b) = []" "ring_room (demo_ring b) = 2"
  by (simp_all add: demo_ring_def ring_ok_def ring_elems_def ring_room_def aligned_def)

text \<open>A discarding or erring ring is a queue: whatever is pushed, popping until it is empty
  gives the earliest elements that fit, in the order they were pushed, and then \<open>false\<close>.\<close>

theorem ring_refuse_fifo:
  assumes "b = RB_DISCARD \<or> b = RB_ERROR" "ring_ok b r"
  shows "\<exists>r' r''. puts (\<lambda>r x. Some (ring_push r x)) r xs = Some r'
    \<and> ring_elems r' = take (unat (capacity (snd r))) (ring_elems r @ xs)
    \<and> gets (\<lambda>r. Some (ring_pop r)) r' (length (ring_elems r')) = Some (r'', map Some (ring_elems r'))
    \<and> ring_pop r'' = (r'', None)"
proof -
  have "length (ring_elems r) \<le> ring_room r"
    using assms(2) by (cases r) (simp add: ring_ok_def ring_room_def word_le_nat_alt)
  then obtain r' where r': "puts (\<lambda>r x. Some (ring_push r x)) r xs = Some r'" "ring_ok b r'"
    "ring_elems r' = take (ring_room r) (ring_elems r @ xs)"
    using discard.puts_prefix [of r xs] error.puts_prefix [of r xs] assms by blast
  obtain r'' where "gets (\<lambda>r. Some (ring_pop r)) r' (length (ring_elems r')) = Some (r'', map Some (ring_elems r'))"
    "ring_ok b r''" "ring_elems r'' = []"
    using fifo.gets_all [OF ring_fifo r'(2)] by blast
  moreover from this have "ring_pop r'' = (r'', None)"
    using fifo.get_empty [OF ring_fifo, of b r''] by simp
  ultimately show ?thesis using r' unfolding ring_room_def by blast
qed

lemma ring_refuse_fifo_witness:
  "\<exists>r'. puts (\<lambda>r x. Some (ring_push r x)) (demo_ring RB_ERROR) [5, 6, 7] = Some r' \<and> ring_elems r' = [5, 6]"
  using ring_refuse_fifo [of RB_ERROR "demo_ring RB_ERROR" "[5, 6, 7]"] demo_ring_ok(1,2)
  by (force simp: demo_ring_def)

text \<open>
  An overwriting ring keeps the latest elements: after any pushes it holds the last
  \<open>capacity\<close> of what it held and was given, and they pop in order.\<close>

theorem ring_overwrite_latest:
  assumes "ring_ok RB_OVERWRITE r"
  shows "\<exists>r' r''. puts (\<lambda>r x. Some (ring_push r x)) r xs = Some r'
    \<and> ring_elems r' = drop (length (ring_elems r) + length xs - unat (capacity (snd r))) (ring_elems r @ xs)
    \<and> gets (\<lambda>r. Some (ring_pop r)) r' (length (ring_elems r')) = Some (r'', map Some (ring_elems r'))"
proof -
  have "length (ring_elems r) \<le> ring_room r" "0 < ring_room r"
    using assms by (cases r, simp add: ring_ok_def ring_room_def word_le_nat_alt word_less_nat_alt)+
  then obtain r' where r': "puts (\<lambda>r x. Some (ring_push r x)) r xs = Some r'" "ring_ok RB_OVERWRITE r'"
    "ring_elems r' = drop (length (ring_elems r) + length xs - ring_room r) (ring_elems r @ xs)"
    using overwrite.puts_suffix [OF assms] by blast
  with fifo.gets_all [OF ring_fifo r'(2)] show ?thesis by (auto simp: ring_room_def)
qed

lemma ring_overwrite_latest_witness:
  "\<exists>r'. puts (\<lambda>r x. Some (ring_push r x)) (demo_ring RB_OVERWRITE) [5, 6, 7] = Some r' \<and> ring_elems r' = [6, 7]"
  using ring_overwrite_latest [of "demo_ring RB_OVERWRITE" "[5, 6, 7]"] demo_ring_ok(1,2)
  by (force simp: demo_ring_def)

text \<open>
  The firmware's console ring keeps the first ten characters and gives them back in
  order; every operation returns and leaves the mutex free.\<close>

theorem console_ring_fifo:
  assumes "con_ok s"
  shows "\<exists>s' s''. puts con_put s cs = Some s' \<and> con_elems s' = take 10 (con_elems s @ cs)
    \<and> gets con_get s' (length (con_elems s')) = Some (s'', map Some (con_elems s'))
    \<and> ring_get s'' = Some (s'', 0xFF) \<and> buf_mutex s' = MUTEX_UNLOCKED"
proof -
  have "length (con_elems s) \<le> 10" using assms by (auto simp: con_elems_def con_ok_def)
  then obtain s' where s': "puts con_put s cs = Some s'" "con_ok s'" "con_elems s' = take 10 (con_elems s @ cs)"
    using console.puts_prefix [OF assms] by blast
  obtain s'' where s'': "gets con_get s' (length (con_elems s')) = Some (s'', map Some (con_elems s'))"
    "con_ok s''" "con_elems s'' = []"
    using console.gets_all [OF s'(2)] by blast
  have "\<not> 0 < fill s''" using s''(3) by (simp add: con_elems_def)
  then have "ring_get s'' = Some (s'', 0xFF)" using s''(2) by (simp add: ring_get_eq)
  with s' s''(1) show ?thesis by (auto simp: con_ok_def)
qed

lemma console_ring_fifo_witness:
  "\<exists>s'. puts con_put \<lparr>buf = replicate 10 0, fill = 0, start = 7, buf_mutex = 0\<rparr> [1, 2, 3, 4] = Some s'
     \<and> con_elems s' = [1, 2, 3, 4]"
proof -
  let ?s = "\<lparr>buf = replicate 10 0, fill = 0, start = 7, buf_mutex = 0\<rparr>"
  have "con_ok ?s" "con_elems ?s = []" by (simp_all add: con_ok_def con_elems_def)
  with console_ring_fifo [of ?s "[1, 2, 3, 4]"] show ?thesis by auto
qed

end
