(* ===== verification/Mmu.thy ===== *)
theory Mmu
  imports Pages Locks
begin

text \<open>
  The Sv39 page tables of src/src/mmu.c: mapping, translating and freeing on the tables as
  they lie in memory, each table a page of 512 eight-byte entries obtained from
  \<open>cpage_znalloc(1)\<close>. The lemmas see a table tree as a function from three virtual page
  numbers to a leaf entry; mapping is then a function update and translating is decoding.
\<close>

section \<open>State and operations\<close>

text \<open>The permission bits and the SATP macros of mmu.h.\<close>

abbreviation (input) PB_VALID :: u64 where "PB_VALID \<equiv> 1"
abbreviation (input) PB_READ :: u64 where "PB_READ \<equiv> 2"
abbreviation (input) PB_WRITE :: u64 where "PB_WRITE \<equiv> 4"
abbreviation (input) PB_EXECUTE :: u64 where "PB_EXECUTE \<equiv> 8"
abbreviation (input) PB_USER :: u64 where "PB_USER \<equiv> 16"

definition SATP_SET_PPN :: "u64 \<Rightarrow> u64" where
  "SATP_SET_PPN x = drop_bit 12 x AND 0xFFFFFFFFFFF"

definition SATP_SET_ASID :: "u64 \<Rightarrow> u64" where
  "SATP_SET_ASID x = push_bit 44 (x AND 0xFFFF)"

definition SATP :: "u64 \<Rightarrow> u64 \<Rightarrow> u64" where
  "SATP table asid = push_bit 60 8 OR SATP_SET_PPN table OR SATP_SET_ASID asid"

record mmu_state =
  hw :: machine
  kernel_mmu_lock :: u32

text \<open>\<open>table->pt_entry[i]\<close>, and the table an entry links to.\<close>

definition pt_entry :: "mem \<Rightarrow> u64 \<Rightarrow> u64 \<Rightarrow> u64" where
  "pt_entry m table i = load64 m (table + 8 * i)"

definition set_pt_entry :: "machine \<Rightarrow> u64 \<Rightarrow> u64 \<Rightarrow> u64 \<Rightarrow> machine" where
  "set_pt_entry s table i e = s\<lparr>mem := store64 (mem s) (table + 8 * i) e\<rparr>"

definition next_table :: "u64 \<Rightarrow> u64" where
  "next_table table_entry = push_bit 2 table_entry AND NOT 0xFFF"

definition vpns :: "u64 \<Rightarrow> u64 list" where
  "vpns vaddr = [drop_bit 12 vaddr AND 0x1FF, drop_bit 21 vaddr AND 0x1FF, drop_bit 30 vaddr AND 0x1FF]"

definition ppns :: "u64 \<Rightarrow> u64 list" where
  "ppns paddr = [drop_bit 12 paddr AND 0x1FF, drop_bit 21 paddr AND 0x1FF, drop_bit 30 paddr AND 0x3FFFFFF]"

text \<open>One iteration of the loop in \<open>mmu_map\<close>, and the loop from \<open>i\<close> down to 1.\<close>

definition map_step :: "machine \<Rightarrow> u64 \<Rightarrow> u64 \<Rightarrow> machine \<times> u64" where
  "map_step s table v =
     (let table_entry = pt_entry (mem s) table v in
      if \<not> bit table_entry 0 then
        let (s, new_table) = cpage_znalloc s 1;
            table_entry = drop_bit 2 new_table OR PB_VALID;
            s = set_pt_entry s table v table_entry
        in (s, next_table table_entry)
      else (s, next_table table_entry))"

fun map_loop :: "u64 list \<Rightarrow> nat \<Rightarrow> machine \<Rightarrow> u64 \<Rightarrow> machine \<times> u64" where
  "map_loop vpn 0 s table = (s, table)"
| "map_loop vpn (Suc i) s table =
     (let (s, table) = map_step s table (vpn ! Suc i) in map_loop vpn i s table)"

definition leaf_entry :: "u64 \<Rightarrow> u64 \<Rightarrow> u64" where
  "leaf_entry paddr bits = (let ppn = ppns paddr in
     push_bit 28 (ppn ! 2) OR push_bit 19 (ppn ! 1) OR push_bit 10 (ppn ! 0) OR bits OR PB_VALID)"

text \<open>\<open>None\<close>: the lock was taken, the call spins forever.\<close>

definition mmu_map :: "mmu_state \<Rightarrow> u64 \<Rightarrow> u64 \<Rightarrow> u64 \<Rightarrow> u64 \<Rightarrow> (mmu_state \<times> bool) option" where
  "mmu_map st table vaddr paddr bits =
     (let vpn = vpns vaddr in
      case mutex_spinlock (kernel_mmu_lock st) of
        None \<Rightarrow> None
      | Some l \<Rightarrow>
          let st = st\<lparr>kernel_mmu_lock := l\<rparr>;
              (s, table) = map_loop vpn 2 (hw st) table;
              s = set_pt_entry s table (vpn ! 0) (leaf_entry paddr bits);
              st = st\<lparr>hw := s\<rparr>
          in Some (st\<lparr>kernel_mmu_lock := mutex_unlock (kernel_mmu_lock st)\<rparr>, True))"

text \<open>The loop of \<open>mmu_translate\<close>; the argument is \<open>i + 1\<close>.\<close>

definition leaf_address :: "nat \<Rightarrow> u64 \<Rightarrow> u64 \<Rightarrow> u64" where
  "leaf_address i table_entry vaddr =
     (let ppn = [drop_bit 10 table_entry AND 0x1FF, drop_bit 19 table_entry AND 0x1FF,
                 drop_bit 28 table_entry AND 0x3FFFFFF]
      in if i = 0 then push_bit 30 (ppn ! 2) OR push_bit 21 (ppn ! 1) OR push_bit 12 (ppn ! 0) OR (vaddr AND 0xFFF)
         else if i = 1 then push_bit 30 (ppn ! 2) OR push_bit 21 (ppn ! 1) OR (vaddr AND 0x1FFFFF)
         else push_bit 30 (ppn ! 2) OR (vaddr AND 0x3FFFFFFF))"

fun translate_loop :: "mem \<Rightarrow> u64 \<Rightarrow> nat \<Rightarrow> u64 \<Rightarrow> u64" where
  "translate_loop m vaddr 0 table = minus1UL"
| "translate_loop m vaddr (Suc i) table =
     (let table_entry = pt_entry m table (vpns vaddr ! i) in
      if \<not> bit table_entry 0 then minus1UL
      else if table_entry AND 0xE = 0 then translate_loop m vaddr i (next_table table_entry)
      else leaf_address i table_entry vaddr)"

definition mmu_translate :: "mem \<Rightarrow> u64 \<Rightarrow> u64 \<Rightarrow> u64" where
  "mmu_translate m table vaddr = translate_loop m vaddr 3 table"

text \<open>
  \<open>mmu_free\<close> from entry \<open>i\<close> on. A branch is freed and its entry left in place; a table that
  links back to itself makes the recursion endless (\<open>None\<close>).
\<close>

partial_function (option) mmu_free_from :: "machine \<Rightarrow> u64 \<Rightarrow> nat \<Rightarrow> machine option" where
  "mmu_free_from s table i =
     (if i < 512 then
        let table_entry = pt_entry (mem s) table (of_nat i) in
        if bit table_entry 0 then
          if table_entry AND 0xE = 0 then
            Option.bind (mmu_free_from s (next_table table_entry) 0) (\<lambda>s. mmu_free_from s table (i + 1))
          else mmu_free_from (set_pt_entry s table (of_nat i) 0) table (i + 1)
        else mmu_free_from s table (i + 1)
      else cpage_free s table)"

definition mmu_free :: "machine \<Rightarrow> u64 \<Rightarrow> machine option" where
  "mmu_free s table = mmu_free_from s table 0"

text \<open>\<open>mmu_map_multiple\<close>; \<open>i\<close> is 64 bits wide, so an odd \<open>bytes\<close> near the top never ends the loop.\<close>

partial_function (option) map_multiple_from ::
  "mmu_state \<Rightarrow> u64 \<Rightarrow> u64 \<Rightarrow> u64 \<Rightarrow> u64 \<Rightarrow> u64 \<Rightarrow> u64 \<Rightarrow> mmu_state option" where
  "map_multiple_from st table v_start p_start bytes bits i =
     (if i < bytes then
        Option.bind (mmu_map st table (v_start + i) (p_start + i) bits)
          (\<lambda>(st, _). map_multiple_from st table v_start p_start bytes bits (i + PAGE_SIZE))
      else Some st)"

definition mmu_map_multiple :: "mmu_state \<Rightarrow> u64 \<Rightarrow> u64 \<Rightarrow> u64 \<Rightarrow> u64 \<Rightarrow> u64 \<Rightarrow> mmu_state option" where
  "mmu_map_multiple st table v_start p_start bytes bits =
     map_multiple_from st table v_start p_start bytes bits 0"

section \<open>Entries and addresses as bit fields\<close>

lemma and_masks:
  "x AND 0x1FF = take_bit 9 (x::u64)" "x AND 0x3FFFFFF = take_bit 26 (x::u64)"
  "x AND 0xFFF = take_bit 12 (x::u64)"
  by (simp_all add: take_bit_eq_mask mask_eq_exp_minus_1)

lemma unat_vpn: "unat (drop_bit k x AND 0x1FF :: u64) < 512"
proof -
  have "unat (take_bit 9 (drop_bit k x)) = take_bit 9 (unat (drop_bit k x))" by (simp only: unsigned_take_bit_eq)
  then show ?thesis by (simp add: and_masks take_bit_eq_mod)
qed

lemma next_table_link:
  assumes "aligned 12 p"
  shows "next_table (drop_bit 2 p OR 1) = p"
proof (rule bit_word_eqI)
  fix n
  assume "n < LENGTH(64)"
  have mask: "(NOT 0xFFF :: u64) = NOT (mask 12)" by (simp add: mask_eq_exp_minus_1)
  have m: "bit (NOT 0xFFF :: u64) n \<longleftrightarrow> 12 \<le> n"
    unfolding mask bit_not_iff bit_mask_iff using \<open>n < LENGTH(64)\<close> by auto
  show "bit (next_table (drop_bit 2 p OR 1)) n = bit p n"
  proof (cases "12 \<le> n")
    case True
    then obtain k where "n = k + 12"
      by (metis add.commute le_Suc_ex)
    have "\<not> bit (4 :: u64) n" by (rule small_bit [of _ 3]) (use True in simp_all)
    then show ?thesis
      using \<open>n = k + 12\<close> \<open>n < LENGTH(64)\<close>
      unfolding next_table_def bit_and_iff m
      by (simp add: bit_push_bit_iff bit_or_iff bit_drop push_bit_or add.commute)
  qed (use m aligned_bit [OF assms, of n] in \<open>simp add: next_table_def bit_and_iff\<close>)
qed

text \<open>The fields of a leaf entry, and what decoding one gives.\<close>

definition page_frame :: "u64 \<Rightarrow> u64" where
  "page_frame paddr = push_bit 12 (take_bit 44 (drop_bit 12 paddr))"

lemma bit_leaf:
  assumes "unat bits < 2 ^ 10" "n < 64"
  shows "bit (leaf_entry paddr bits) n \<longleftrightarrow>
    (if n < 10 then bit bits n \<or> n = 0 else n < 54 \<and> bit paddr (n + 2))"
proof -
  note simps = leaf_entry_def Let_def ppns_def and_masks bit_or_iff bit_push_bit_iff bit_take_bit_iff bit_drop bit_1_iff
  consider "n < 10" | k where "n = k + 10" "n < 19" | k where "n = k + 19" "n < 28" | k where "n = k + 28"
    by (metis add.commute le_Suc_ex not_le)
  then show ?thesis
  proof cases
    case 2
    then show ?thesis using small_bit [OF assms(1), of n] by (simp add: simps)
  next
    case 3
    then show ?thesis using small_bit [OF assms(1), of n] by (simp add: simps)
  next
    case 4
    then show ?thesis using small_bit [OF assms(1), of n] assms(2) by (simp add: simps)
  qed (use assms(2) in \<open>simp add: simps\<close>)
qed

lemma leaf_valid:
  assumes "unat bits < 2 ^ 10"
  shows "bit (leaf_entry paddr bits) 0" "leaf_entry paddr bits AND 0xE = bits AND 0xE"
proof -
  show "bit (leaf_entry paddr bits) 0" using bit_leaf [OF assms, of 0] by simp
  show "leaf_entry paddr bits AND 0xE = bits AND 0xE"
  proof (rule bit_word_eqI)
    fix n
    assume n: "n < LENGTH(64)"
    have "\<not> bit (0xE :: u64) 0" by simp
    then show "bit (leaf_entry paddr bits AND 0xE) n = bit (bits AND 0xE) n"
      using bit_leaf [OF assms, of n] small_bit [of "0xE :: u64" 4 n] n
      by (cases "n = 0"; cases "n < 10") (auto simp: bit_and_iff)
  qed
qed

lemma leaf_address_leaf:
  assumes "unat bits < 2 ^ 10"
  shows "leaf_address 0 (leaf_entry paddr bits) vaddr = page_frame paddr OR (vaddr AND 0xFFF)"
proof (rule bit_word_eqI)
  fix n
  assume n: "n < LENGTH(64)"
  note simps = leaf_address_def Let_def page_frame_def and_masks bit_or_iff bit_push_bit_iff bit_take_bit_iff bit_drop
    bit_leaf [OF assms]
  consider "n < 12" | k where "n = k + 12" "n < 21" | k where "n = k + 21" "n < 30" | k where "n = k + 30"
    by (metis add.commute le_Suc_ex not_le)
  then show "bit (leaf_address 0 (leaf_entry paddr bits) vaddr) n = bit (page_frame paddr OR (vaddr AND 0xFFF)) n"
  proof cases
    case 4
    then show ?thesis using n by (cases "k < 26") (simp_all add: simps)
  qed (use n in \<open>simp_all add: simps\<close>)
qed

section \<open>Table trees\<close>

text \<open>
  The table reached from \<open>t\<close> along the entries \<open>vs\<close> (the highest level first), and the leaf
  entry for three page numbers, 0 where a table on the way is missing or the entry is not
  valid.
\<close>

fun walk :: "mem \<Rightarrow> u64 list \<Rightarrow> u64 \<Rightarrow> u64 option" where
  "walk m [] t = Some t"
| "walk m (v # vs) t = (if bit (pt_entry m t v) 0 then walk m vs (next_table (pt_entry m t v)) else None)"

definition pte_of :: "mem \<Rightarrow> u64 \<Rightarrow> u64 list \<Rightarrow> u64" where
  "pte_of m root vpn = (case walk m [vpn ! 2, vpn ! 1] root of
     None \<Rightarrow> 0
   | Some t \<Rightarrow> if bit (pt_entry m t (vpn ! 0)) 0 then pt_entry m t (vpn ! 0) else 0)"

text \<open>Entry numbers a page number can have, and paths of them.\<close>

definition path :: "u64 list \<Rightarrow> bool" where
  "path vs \<longleftrightarrow> (\<forall>v \<in> set vs. unat v < 512)"

lemma path_simps [simp]: "path []" "path (v # vs) \<longleftrightarrow> unat v < 512 \<and> path vs"
  "path (vs @ ws) \<longleftrightarrow> path vs \<and> path ws"
  by (auto simp: path_def)

lemma path_vpns: "unat (vpns vaddr ! i) < 512" if "i < 3"
proof -
  have "i = 0 \<or> i = 1 \<or> i = 2" using that by auto
  then show ?thesis using unat_vpn [of _ vaddr] by (auto simp: vpns_def)
qed

text \<open>
  A sound table tree: every table on the way is a page of its own that the allocator has
  handed out, different paths lead to different tables, and above the last level valid
  entries are branches.
\<close>

definition tree_ok :: "machine \<Rightarrow> u64 \<Rightarrow> bool" where
  "tree_ok s root \<longleftrightarrow> cpage_inv s
     \<and> (\<forall>vs t. path vs \<and> length vs \<le> 2 \<and> walk (mem s) vs root = Some t \<longrightarrow> t \<in> cpage_live s)
     \<and> (\<forall>vs ws t. path vs \<and> length vs \<le> 2 \<and> walk (mem s) vs root = Some t
           \<and> path ws \<and> length ws \<le> 2 \<and> walk (mem s) ws root = Some t \<longrightarrow> vs = ws)
     \<and> (\<forall>vs t v. path (vs @ [v]) \<and> length vs \<le> 1 \<and> walk (mem s) vs root = Some t
           \<and> bit (pt_entry (mem s) t v) 0 \<longrightarrow> pt_entry (mem s) t v AND 0xE = 0)"

lemma tree_okD:
  assumes "tree_ok s root"
  shows "cpage_inv s"
    and "path vs \<Longrightarrow> length vs \<le> 2 \<Longrightarrow> walk (mem s) vs root = Some t \<Longrightarrow> t \<in> cpage_live s"
    and "path vs \<Longrightarrow> length vs \<le> 2 \<Longrightarrow> walk (mem s) vs root = Some t \<Longrightarrow>
      path ws \<Longrightarrow> length ws \<le> 2 \<Longrightarrow> walk (mem s) ws root = Some t \<Longrightarrow> vs = ws"
    and "path (vs @ [v]) \<Longrightarrow> length vs \<le> 1 \<Longrightarrow> walk (mem s) vs root = Some t \<Longrightarrow>
      bit (pt_entry (mem s) t v) 0 \<Longrightarrow> pt_entry (mem s) t v AND 0xE = 0"
  using assms unfolding tree_ok_def by blast+

lemma walk_append:
  "walk m (vs @ ws) t = (case walk m vs t of None \<Rightarrow> None | Some t \<Rightarrow> walk m ws t)"
  by (induction vs arbitrary: t) auto

lemma pt_entry_store:
  assumes "aligned 12 t" "aligned 12 t'" "unat v < 512" "unat v' < 512"
  shows "pt_entry (store64 m (t + 8 * v) e) t' v' = (if t' = t \<and> v' = v then e else pt_entry m t' v')"
proof -
  have off: "unat (8 * v :: u64) = 8 * unat v" if "unat v < 512" for v :: u64
    using that by (simp add: unat_word_ariths)
  have "aligned 3 (t + 8 * v)" if "aligned 12 t" "unat v < 512" for t v :: u64
    by (rule aligned_add) (use that off [of v] in \<open>auto simp: aligned_iff_dvd intro: aligned_mono [of 12 t 3, unfolded aligned_iff_dvd]\<close>)
  note al = this [OF assms(1,3)] this [OF assms(2,4)]
  have "t + 8 * v = t' + 8 * v' \<longleftrightarrow> t' = t \<and> v' = v"
  proof
    assume "t + 8 * v = t' + 8 * v'"
    then have "t = t'" "8 * v = 8 * v'"
      using aligned_add_inj [OF assms(1,2), of "8 * v" "8 * v'"] off assms(3,4) by auto
    moreover from this have "8 * unat v = 8 * unat v'" using off assms(3,4) by metis
    ultimately show "t' = t \<and> v' = v" by (simp add: word_unat_eq_iff)
  qed simp
  then show ?thesis by (simp add: pt_entry_def load64_store64_aligned [OF al])
qed

lemma pt_entry_cong:
  assumes "\<And>a. within a t 4096 \<Longrightarrow> m a = m' a" "unat v < 512"
  shows "pt_entry m t v = pt_entry m' t v"
  unfolding pt_entry_def
proof (rule load64_cong)
  fix k :: u64
  assume "unat k < 8"
  then have "unat (8 * v + k) < 4096" using assms(2) by (simp add: unat_word_ariths)
  then show "m (t + 8 * v + k) = m' (t + 8 * v + k)" by (intro assms(1)) (simp add: within_def add.assoc)
qed

text \<open>Walking is the same in two memories that agree on the entries of the tables it passes.\<close>

lemma walk_cong:
  assumes "\<And>us v ws t. vs = us @ v # ws \<Longrightarrow> walk m us root = Some t \<Longrightarrow> pt_entry m' t v = pt_entry m t v"
  shows "walk m' vs root = walk m vs root"
  using assms
proof (induction vs arbitrary: root)
  case (Cons v vs)
  have e: "pt_entry m' root v = pt_entry m root v" using Cons.prems [of "[]" v vs root] by simp
  show ?case
  proof (cases "bit (pt_entry m root v) 0")
    case True
    have "walk m' vs (next_table (pt_entry m root v)) = walk m vs (next_table (pt_entry m root v))"
    proof (rule Cons.IH)
      fix us u ws t
      assume "vs = us @ u # ws" "walk m us (next_table (pt_entry m root v)) = Some t"
      then show "pt_entry m' t u = pt_entry m t u" using Cons.prems [of "v # us" u ws t] True by simp
    qed
    then show ?thesis using e True by simp
  qed (use e in simp)
qed simp

section \<open>Linking a new table\<close>

lemma link_entry: "aligned 12 p \<Longrightarrow> bit (drop_bit 2 p OR 1 :: u64) 0 \<and> (drop_bit 2 p OR 1) AND 0xE = 0"
proof
  assume p: "aligned 12 p"
  show "bit (drop_bit 2 p OR 1) 0" by (simp add: bit_or_iff)
  show "(drop_bit 2 p OR 1) AND 0xE = 0"
  proof (rule bit_word_eqI)
    fix n
    have "\<not> bit (0xE :: u64) 0" by simp
    then show "bit ((drop_bit 2 p OR 1) AND 0xE) n = bit (0 :: u64) n"
      using small_bit [of "0xE :: u64" 4 n] aligned_bit [OF p, of "2 + n"]
      by (cases "n < 4"; cases "n = 0") (auto simp: bit_and_iff bit_or_iff bit_drop bit_1_iff)
  qed
qed

text \<open>Reading the entries of the tree's tables, and of the new one, after a table was linked in.\<close>

definition link_table :: "machine \<Rightarrow> u64 \<Rightarrow> u64 \<Rightarrow> machine" where
  "link_table s t v = (let (s, p) = cpage_znalloc s 1 in set_pt_entry s t v (drop_bit 2 p OR 1))"

lemma link_table_entries:
  assumes "tree_ok s root" "t \<in> cpage_live s" "unat v < 512" "cpage_room (Suc n) s"
  obtains p where "cpage_inv (link_table s t v)" "cpage_live s \<subseteq> cpage_live (link_table s t v)"
    and "p \<notin> cpage_live s" "p \<in> cpage_live (link_table s t v)" "cpage_room n (link_table s t v)"
    and "map_step s t v = (if bit (pt_entry (mem s) t v) 0 then (s, next_table (pt_entry (mem s) t v))
      else (link_table s t v, p))"
    and "\<And>q u. q \<in> cpage_live s \<Longrightarrow> unat u < 512 \<Longrightarrow> pt_entry (mem (link_table s t v)) q u =
      (if q = t \<and> u = v then drop_bit 2 p OR 1 else pt_entry (mem s) q u)"
    and "\<And>u. unat u < 512 \<Longrightarrow> pt_entry (mem (link_table s t v)) p u = 0"
    and "next_table (drop_bit 2 p OR 1) = p" "aligned 12 p"
proof -
  obtain s1 p where a: "cpage_znalloc s 1 = (s1, p)" by fastforce
  note inv = tree_okD(1) [OF assms(1)]
  note a' = arg_cong [OF a, of Some]
  have p: "p \<noteq> NULL" "cpage_room n s1" using cz.alloc_room [OF inv assms(4) a'] by simp_all
  have inv1: "cpage_inv s1" using cp.alloc_inv [OF inv a'] .
  have live: "p \<notin> cpage_live s" "p \<in> cpage_live s1" "cpage_live s \<subseteq> cpage_live s1"
    using cp.alloc_live [OF inv a' p(1)] by auto
  have t: "t \<in> cpage_live s1" "aligned 12 t" using assms(2) live(3) cz.live_aligned [OF inv] by auto
  have al: "aligned 12 p" using cp.alloc_aligned [OF inv a' p(1)] .
  let ?e = "drop_bit 2 p OR 1"
  have link: "link_table s t v = s1\<lparr>mem := store64 (mem s1) (t + 8 * v) ?e\<rparr>"
    by (simp add: link_table_def a set_pt_entry_def)
  note own = cz.store_own [OF inv1 t(1) assms(3), where v = ?e, folded link]
  have e1: "pt_entry (mem (link_table s t v)) q u = (if q = t \<and> u = v then ?e else pt_entry (mem s1) q u)"
    if "aligned 12 q" "unat u < 512" for q u
    using pt_entry_store [OF t(2) that(1) assms(3) that(2)] by (simp add: link)
  have e2: "pt_entry (mem s1) q u = pt_entry (mem s) q u" if "q \<in> cpage_live s" "unat u < 512" for q u
    by (rule pt_entry_cong) (use cz.alloc_frame [OF inv a' that(1)] that(2) in auto)
  have e3: "pt_entry (mem s1) p u = 0" if "unat u < 512" for u
  proof -
    have "pt_entry (mem s1) p u = pt_entry (\<lambda>_. 0) p u"
      by (rule pt_entry_cong) (use cz.alloc_zero [OF inv a' p(1)] that in auto)
    then show ?thesis by (simp add: pt_entry_def load64_def)
  qed
  show ?thesis
  proof (rule that [of p])
    show "map_step s t v = (if bit (pt_entry (mem s) t v) 0 then (s, next_table (pt_entry (mem s) t v))
      else (link_table s t v, p))"
      using next_table_link [OF al] by (simp add: map_step_def Let_def a link_table_def)
    show "pt_entry (mem (link_table s t v)) q u = (if q = t \<and> u = v then ?e else pt_entry (mem s) q u)"
      if "q \<in> cpage_live s" "unat u < 512" for q u
      using e1 [of q u] e2 [OF that] that cz.live_aligned [OF inv] by simp
    show "pt_entry (mem (link_table s t v)) p u = 0" if "unat u < 512" for u
      using e1 [OF al that] e3 [OF that] live(1) assms(2) by auto
  qed (use own inv1 live p(2) al next_table_link in auto)
qed

text \<open>The tables of the tree after linking: the old ones and the new one at its place.\<close>

lemma link_walk:
  assumes "tree_ok s root" "walk (mem s) vs root = Some t" "path (vs @ [v])" "length vs \<le> 1"
    and "\<not> bit (pt_entry (mem s) t v) 0"
    and E: "\<And>q u. q \<in> cpage_live s \<Longrightarrow> unat u < 512 \<Longrightarrow> pt_entry m' q u =
      (if q = t \<and> u = v then e else pt_entry (mem s) q u)"
    and Z: "\<And>u. unat u < 512 \<Longrightarrow> pt_entry m' p u = 0"
    and e: "next_table e = p" "bit e 0"
    and ws: "path ws" "length ws \<le> 2"
  shows "walk m' ws root = (if ws = vs @ [v] then Some p else walk (mem s) ws root)"
proof (cases "\<exists>us. ws = vs @ v # us")
  case False
  have "walk m' ws root = walk (mem s) ws root"
  proof (rule walk_cong)
    fix us u ws' t1
    assume d: "ws = us @ u # ws'" "walk (mem s) us root = Some t1"
    then have us: "path us" "length us \<le> 2" "unat u < 512" using ws by auto
    have "\<not> (t1 = t \<and> u = v)"
      using tree_okD(3) [OF assms(1) us(1,2) d(2), of vs] assms(2-4) d(1) False by auto
    then show "pt_entry m' t1 u = pt_entry (mem s) t1 u"
      using E [OF tree_okD(2) [OF assms(1) us(1,2) d(2)] us(3)] by auto
  qed
  with False show ?thesis by auto
next
  case True
  then obtain us where us: "ws = vs @ v # us" by blast
  have t: "t \<in> cpage_live s" "unat v < 512" using tree_okD(2) [OF assms(1)] assms(2-4) by auto
  have vs: "walk m' vs root = Some t"
  proof -
    have "walk m' vs root = walk (mem s) vs root"
    proof (rule walk_cong)
      fix us u ws' t1
      assume d: "vs = us @ u # ws'" "walk (mem s) us root = Some t1"
      then have us: "path us" "length us \<le> 2" "unat u < 512" using assms(3,4) by auto
      have "t1 \<noteq> t"
        using tree_okD(3) [OF assms(1) us(1,2) d(2), of vs] assms(2-4) d(1) by auto
      then show "pt_entry m' t1 u = pt_entry (mem s) t1 u"
        using E [OF tree_okD(2) [OF assms(1) us(1,2) d(2)] us(3)] by auto
    qed
    then show ?thesis using assms(2) by simp
  qed
  have new: "walk m' (v # us) t = walk m' us p" using E [OF t] e by simp
  have old: "walk (mem s) ws root = None" using assms(2,5) us by (simp add: walk_append)
  show ?thesis
  proof (cases us)
    case Nil
    then show ?thesis using us vs new by (simp add: walk_append)
  next
    case (Cons u us')
    then have "unat u < 512" using ws us by simp
    then show ?thesis using Cons Z [of u] us vs new old by (simp add: walk_append)
  qed
qed

lemma pte_of_walk:
  assumes "\<And>t. walk (mem s) [vpn ! 2, vpn ! 1] root = Some t \<Longrightarrow>
      walk m' [vpn ! 2, vpn ! 1] root = Some t \<and> pt_entry m' t (vpn ! 0) = pt_entry (mem s) t (vpn ! 0)"
    and "\<And>t. walk (mem s) [vpn ! 2, vpn ! 1] root = None \<Longrightarrow> walk m' [vpn ! 2, vpn ! 1] root = Some t \<Longrightarrow>
      \<not> bit (pt_entry m' t (vpn ! 0)) 0"
  shows "pte_of m' root vpn = pte_of (mem s) root vpn"
  using assms unfolding pte_of_def by (auto split: option.splits simp del: walk.simps)

lemma map_step_ok:
  assumes "tree_ok s root" "walk (mem s) vs root = Some t" "path (vs @ [v])" "length vs \<le> 1"
    and "cpage_room (Suc n) s" "map_step s t v = (s', t')"
  shows "tree_ok s' root \<and> cpage_room n s' \<and> walk (mem s') (vs @ [v]) root = Some t'
    \<and> (\<forall>vpn. path [vpn ! 2, vpn ! 1, vpn ! 0] \<longrightarrow> pte_of (mem s') root vpn = pte_of (mem s) root vpn)"
proof -
  have t: "t \<in> cpage_live s" "unat v < 512" using tree_okD(2) [OF assms(1)] assms(2-4) by auto
  obtain p where p: "cpage_inv (link_table s t v)" "cpage_live s \<subseteq> cpage_live (link_table s t v)"
    "p \<notin> cpage_live s" "p \<in> cpage_live (link_table s t v)" "cpage_room n (link_table s t v)"
    "map_step s t v = (if bit (pt_entry (mem s) t v) 0 then (s, next_table (pt_entry (mem s) t v))
      else (link_table s t v, p))"
    and E: "\<And>q u. q \<in> cpage_live s \<Longrightarrow> unat u < 512 \<Longrightarrow> pt_entry (mem (link_table s t v)) q u =
      (if q = t \<and> u = v then drop_bit 2 p OR 1 else pt_entry (mem s) q u)"
    and Z: "\<And>u. unat u < 512 \<Longrightarrow> pt_entry (mem (link_table s t v)) p u = 0"
    and e: "next_table (drop_bit 2 p OR 1) = p" "aligned 12 p"
    by (rule link_table_entries [OF assms(1) t assms(5)]) (rule that)
  show ?thesis
  proof (cases "bit (pt_entry (mem s) t v) 0")
    case True
    then show ?thesis using assms p(6) cz.room_mono by (auto simp: walk_append)
  next
    case False
    let ?m = "mem (link_table s t v)"
    have s': "s' = link_table s t v" "t' = p" using assms(6) p(6) False by auto
    note W = link_walk [OF assms(1-4) False E Z e(1) conjunct1 [OF link_entry [OF e(2)]]]
    have new: "walk (mem s) (vs @ [v]) root = None" using assms(2) False by (simp add: walk_append)
    have "tree_ok (link_table s t v) root"
      unfolding tree_ok_def
    proof (intro conjI allI impI)
      show "cpage_inv (link_table s t v)" by (rule p(1))
    next
      fix ws q
      assume "path ws \<and> length ws \<le> 2 \<and> walk ?m ws root = Some q"
      then show "q \<in> cpage_live (link_table s t v)"
        using W [of ws] tree_okD(2) [OF assms(1), of ws q] p(2,4) by (auto split: if_splits)
    next
      fix ws us q
      assume a: "path ws \<and> length ws \<le> 2 \<and> walk ?m ws root = Some q
        \<and> path us \<and> length us \<le> 2 \<and> walk ?m us root = Some q"
      then have w: "(if ws = vs @ [v] then Some p else walk (mem s) ws root) = Some q"
        "(if us = vs @ [v] then Some p else walk (mem s) us root) = Some q"
        using W [of ws] W [of us] by simp_all
      moreover have "walk (mem s) us root = Some q \<Longrightarrow> q \<noteq> p" "walk (mem s) ws root = Some q \<Longrightarrow> q \<noteq> p"
        using a tree_okD(2) [OF assms(1)] p(3) by metis+
      ultimately show "ws = us"
        using a tree_okD(3) [OF assms(1), of ws q us] by (metis option.inject)
    next
      fix ws q u
      assume a: "path (ws @ [u]) \<and> length ws \<le> 1 \<and> walk ?m ws root = Some q \<and> bit (pt_entry ?m q u) 0"
      show "pt_entry ?m q u AND 0xE = 0"
      proof (cases "ws = vs @ [v]")
        case True
        then have "Some q = Some p" using a W [of ws] assms(3,4) by (metis path_simps(3) length_append_singleton le_SucI Suc_1 Suc_le_mono One_nat_def)
        then have "q = p" by simp
        then show ?thesis using a Z [of u] by simp
      next
        case False
        then have q: "walk (mem s) ws root = Some q" using a W [of ws] by simp
        then show ?thesis
          using a E [OF tree_okD(2) [OF assms(1) _ _ q], of u] tree_okD(4) [OF assms(1) _ _ q, of u]
            link_entry [OF e(2)] by (auto split: if_splits)
      qed
    qed
    moreover have "pte_of ?m root vpn = pte_of (mem s) root vpn" if vpn: "path [vpn ! 2, vpn ! 1, vpn ! 0]" for vpn
    proof (rule pte_of_walk)
      fix q
      assume q: "walk (mem s) [vpn ! 2, vpn ! 1] root = Some q"
      have "q \<noteq> t" using tree_okD(3) [OF assms(1) _ _ q, of vs] assms(2-4) vpn by auto
      then show "walk ?m [vpn ! 2, vpn ! 1] root = Some q \<and> pt_entry ?m q (vpn ! 0) = pt_entry (mem s) q (vpn ! 0)"
        using W [of "[vpn ! 2, vpn ! 1]"] q new vpn E [OF tree_okD(2) [OF assms(1) _ _ q], of "vpn ! 0"] by auto
    next
      fix q
      assume "walk (mem s) [vpn ! 2, vpn ! 1] root = None" "walk ?m [vpn ! 2, vpn ! 1] root = Some q"
      then have "q = p" using W [of "[vpn ! 2, vpn ! 1]"] vpn by (simp split: if_splits)
      then show "\<not> bit (pt_entry ?m q (vpn ! 0)) 0" using Z [of "vpn ! 0"] vpn by simp
    qed
    ultimately show ?thesis using s' p(5) W [of "vs @ [v]"] assms(3,4) by auto
  qed
qed

text \<open>Writing a leaf changes the one entry.\<close>

lemma leaf_store_ok:
  assumes "tree_ok s root" "walk (mem s) [v2, v1] root = Some t" "path [v2, v1, v0]"
  shows "tree_ok (set_pt_entry s t v0 e) root"
    and "path [vpn ! 2, vpn ! 1, vpn ! 0] \<Longrightarrow> pte_of (mem (set_pt_entry s t v0 e)) root vpn =
      (if [vpn ! 0, vpn ! 1, vpn ! 2] = [v0, v1, v2] then (if bit e 0 then e else 0) else pte_of (mem s) root vpn)"
proof -
  let ?s = "set_pt_entry s t v0 e"
  note inv = tree_okD(1) [OF assms(1)]
  have t: "t \<in> cpage_live s" using tree_okD(2) [OF assms(1) _ _ assms(2)] assms(3) by simp
  note own = cz.store_own [OF inv t, of v0, where v = e, folded set_pt_entry_def]
  have E: "pt_entry (mem ?s) q u = (if q = t \<and> u = v0 then e else pt_entry (mem s) q u)"
    if "q \<in> cpage_live s" "unat u < 512" for q u
    using pt_entry_store [of t q v0 u] cz.live_aligned [OF inv] t that assms(3) by (simp add: set_pt_entry_def)
  have other: "q \<noteq> t" if "path us" "length us \<le> 1" "walk (mem s) us root = Some q" for us q
    using tree_okD(3) [OF assms(1), of us q "[v2, v1]"] that assms(2,3) by auto
  have W: "walk (mem ?s) ws root = walk (mem s) ws root" if "path ws" "length ws \<le> 2" for ws
  proof (rule walk_cong)
    fix us u ws' q
    assume d: "ws = us @ u # ws'" "walk (mem s) us root = Some q"
    then have "path us" "length us \<le> 1" "unat u < 512" using that by auto
    then show "pt_entry (mem ?s) q u = pt_entry (mem s) q u"
      using E [of q u] other [of us q] tree_okD(2) [OF assms(1), of us q] d(2) by auto
  qed
  have own': "cpage_inv ?s" "cpage_live ?s = cpage_live s" using own(1,2) assms(3) by simp_all
  show "tree_ok ?s root"
    unfolding tree_ok_def own'(2)
  proof (intro conjI allI impI)
    fix ws q u
    assume a: "path (ws @ [u]) \<and> length ws \<le> 1 \<and> walk (mem ?s) ws root = Some q \<and> bit (pt_entry (mem ?s) q u) 0"
    then have q: "walk (mem s) ws root = Some q" using W [of ws] by simp
    show "pt_entry (mem ?s) q u AND 0xE = 0"
      using a q E [of q u] other [of ws q] tree_okD(2) [OF assms(1), of ws q] tree_okD(4) [OF assms(1) _ _ q, of u]
      by simp
  next
    fix ws q
    assume "path ws \<and> length ws \<le> 2 \<and> walk (mem ?s) ws root = Some q"
    then show "q \<in> cpage_live s" using W [of ws] tree_okD(2) [OF assms(1), of ws q] by simp
  next
    fix ws us q
    assume a: "path ws \<and> length ws \<le> 2 \<and> walk (mem ?s) ws root = Some q
        \<and> path us \<and> length us \<le> 2 \<and> walk (mem ?s) us root = Some q"
    then have "walk (mem s) ws root = Some q" "walk (mem s) us root = Some q" using W by metis+
    with a show "ws = us" using tree_okD(3) [OF assms(1)] by blast
  qed (rule own'(1))
  assume vpn: "path [vpn ! 2, vpn ! 1, vpn ! 0]"
  have w: "walk (mem ?s) [vpn ! 2, vpn ! 1] root = walk (mem s) [vpn ! 2, vpn ! 1] root"
    using W [of "[vpn ! 2, vpn ! 1]"] vpn by simp
  show "pte_of (mem ?s) root vpn =
      (if [vpn ! 0, vpn ! 1, vpn ! 2] = [v0, v1, v2] then (if bit e 0 then e else 0) else pte_of (mem s) root vpn)"
  proof (cases "walk (mem s) [vpn ! 2, vpn ! 1] root")
    case None
    then show ?thesis using w assms(2) unfolding pte_of_def by (auto simp del: walk.simps)
  next
    case (Some q)
    have "q = t \<longleftrightarrow> [vpn ! 2, vpn ! 1] = [v2, v1]"
      using tree_okD(3) [OF assms(1) _ _ Some, of "[v2, v1]"] Some assms(2,3) vpn by auto
    moreover have "pt_entry (mem ?s) q (vpn ! 0) = (if q = t \<and> vpn ! 0 = v0 then e else pt_entry (mem s) q (vpn ! 0))"
      using E [of q "vpn ! 0"] tree_okD(2) [OF assms(1) _ _ Some] vpn by simp
    ultimately show ?thesis using Some w unfolding pte_of_def by (auto simp del: walk.simps)
  qed
qed

section \<open>Mapping and translating\<close>

lemma map_loop_ok:
  assumes "tree_ok s root" "path [v0, v1, v2]" "cpage_room (n + 2) s" "map_loop [v0, v1, v2] 2 s root = (s', t)"
  shows "tree_ok s' root \<and> cpage_room n s' \<and> walk (mem s') [v2, v1] root = Some t
    \<and> (\<forall>vpn. path [vpn ! 2, vpn ! 1, vpn ! 0] \<longrightarrow> pte_of (mem s') root vpn = pte_of (mem s) root vpn)"
proof -
  obtain s1 t1 where a: "map_step s root v2 = (s1, t1)" by fastforce
  then have b: "map_step s1 t1 v1 = (s', t)" using assms(4) by (simp add: numeral_2_eq_2 split: prod.splits)
  have "tree_ok s1 root" "cpage_room (Suc n) s1" "walk (mem s1) [v2] root = Some t1"
    "\<forall>vpn. path [vpn ! 2, vpn ! 1, vpn ! 0] \<longrightarrow> pte_of (mem s1) root vpn = pte_of (mem s) root vpn"
    using map_step_ok [OF assms(1) _ _ _ _ a, of "[]" "Suc n"] assms(2,3) by (simp_all add: numeral_2_eq_2)
  with map_step_ok [OF this(1,3) _ _ _ b, of n] assms(2) show ?thesis by simp
qed

lemma vpns_eq: "vpns va = [vpns va ! 0, vpns va ! 1, vpns va ! 2]"
  by (simp add: vpns_def)

lemma mmu_map_ok:
  assumes "tree_ok (hw st) root" "kernel_mmu_lock st = MUTEX_UNLOCKED" "cpage_room (n + 2) (hw st)" "unat bits < 2 ^ 10"
  shows "\<exists>st'. mmu_map st root vaddr paddr bits = Some (st', True) \<and> cpage_room n (hw st')
    \<and> kernel_mmu_lock st' = MUTEX_UNLOCKED \<and> tree_ok (hw st') root
    \<and> (\<forall>vpn. length vpn = 3 \<and> path vpn \<longrightarrow> pte_of (mem (hw st')) root vpn =
         (if vpn = vpns vaddr then leaf_entry paddr bits else pte_of (mem (hw st)) root vpn))"
proof -
  let ?v0 = "vpns vaddr ! 0" and ?v1 = "vpns vaddr ! 1" and ?v2 = "vpns vaddr ! 2"
  have v: "path [?v0, ?v1, ?v2]" "path [?v2, ?v1, ?v0]" using path_vpns [of _ vaddr] by auto
  obtain s' t where l: "map_loop [?v0, ?v1, ?v2] 2 (hw st) root = (s', t)" by fastforce
  note ok = map_loop_ok [OF assms(1) v(1) assms(3) l]
  note leaf = leaf_store_ok [OF conjunct1 [OF ok] conjunct1 [OF conjunct2 [OF conjunct2 [OF ok]]] v(2), where e = "leaf_entry paddr bits"]
  let ?st = "st\<lparr>hw := set_pt_entry s' t ?v0 (leaf_entry paddr bits)\<rparr>"
  have "mmu_map st root vaddr paddr bits = Some (?st, True)"
    using l vpns_eq [of vaddr] assms(2) by (cases st) (simp add: mmu_map_def Let_def)
  moreover have "pte_of (mem (hw ?st)) root vpn =
      (if vpn = vpns vaddr then leaf_entry paddr bits else pte_of (mem (hw st)) root vpn)"
    if "length vpn = 3" "path vpn" for vpn
  proof -
    have e: "vpn = [vpn ! 0, vpn ! 1, vpn ! 2]" using that(1) by (auto simp: numeral_3_eq_3 numeral_2_eq_2 length_Suc_conv)
    have p: "path [vpn ! 2, vpn ! 1, vpn ! 0]" using that(2) by (subst (asm) e) simp
    have "([vpn ! 0, vpn ! 1, vpn ! 2] = [?v0, ?v1, ?v2]) = (vpn = vpns vaddr)"
      using e vpns_eq [of vaddr] by metis
    then show ?thesis using leaf(2) [OF p] ok p leaf_valid(1) [OF assms(4)] by simp
  qed
  moreover have "cpage_room n (hw ?st)"
  proof -
    have "t \<in> cpage_live s'" using tree_okD(2) [of s' root "[?v2, ?v1]" t] ok v by simp
    then show ?thesis
      using cz.store_own(3) [OF tree_okD(1), of s' root t ?v0 n "leaf_entry paddr bits"] ok v
      by (simp add: set_pt_entry_def)
  qed
  ultimately show ?thesis using leaf(1) assms(2) by auto
qed

lemma mmu_translate_eq:
  assumes "tree_ok s root"
  shows "mmu_translate (mem s) root vaddr =
    (let e = pte_of (mem s) root (vpns vaddr)
     in if bit e 0 \<and> e AND 0xE \<noteq> 0 then leaf_address 0 e vaddr else minus1UL)"
proof -
  let ?v = "\<lambda>i. vpns vaddr ! i"
  have v: "unat (?v i) < 512" if "i < 3" for i using path_vpns [OF that] .
  have b2: "pt_entry (mem s) root (?v 2) AND 0xE = 0" if "bit (pt_entry (mem s) root (?v 2)) 0"
    using tree_okD(4) [OF assms, of "[]" "?v 2" root] v that by simp
  have b1: "pt_entry (mem s) t (?v 1) AND 0xE = 0"
    if "walk (mem s) [?v 2] root = Some t" "bit (pt_entry (mem s) t (?v 1)) 0" for t
    using tree_okD(4) [OF assms, of "[?v 2]" "?v 1" t] v that by simp
  have "mmu_translate (mem s) root vaddr = (case walk (mem s) [?v 2] root of None \<Rightarrow> minus1UL
      | Some t \<Rightarrow> translate_loop (mem s) vaddr 2 t)"
    using b2 by (simp add: mmu_translate_def numeral_3_eq_3 numeral_2_eq_2 Let_def)
  also have "\<dots> = (case walk (mem s) [?v 2, ?v 1] root of None \<Rightarrow> minus1UL
      | Some t \<Rightarrow> translate_loop (mem s) vaddr 1 t)"
    using b1 b2 by (auto simp: numeral_2_eq_2 Let_def)
  finally show ?thesis
    by (auto simp: pte_of_def Let_def simp del: walk.simps split: option.splits)
qed

text \<open>A run of pages: the loop of \<open>mmu_map_multiple\<close> from page \<open>k\<close> to page \<open>n\<close>.\<close>

lemma translate_after_map:
  assumes "tree_ok (hw st) root" "kernel_mmu_lock st = MUTEX_UNLOCKED" "cpage_room (n + 2) (hw st)"
    and "unat bits < 2 ^ 10" "bits AND 0xE \<noteq> 0" "mmu_map st root vaddr paddr bits = Some (st', r)"
  shows "mmu_translate (mem (hw st')) root va =
    (if vpns va = vpns vaddr then page_frame paddr OR (va AND 0xFFF)
     else mmu_translate (mem (hw st)) root va)"
proof -
  have p: "length (vpns va) = 3 \<and> path (vpns va)"
    using path_vpns [of _ va] vpns_eq [of va] by (metis (no_types, lifting) One_nat_def length_Cons list.size(3)
        numeral_3_eq_3 path_simps(1,2) less_Suc_eq numeral_2_eq_2 zero_less_Suc)
  have ok: "tree_ok (hw st') root" "pte_of (mem (hw st')) root (vpns va) =
      (if vpns va = vpns vaddr then leaf_entry paddr bits else pte_of (mem (hw st)) root (vpns va))"
    using mmu_map_ok [OF assms(1-4), of vaddr paddr] assms(6) p by auto
  show ?thesis
    using ok(2) assms(5) leaf_valid [OF assms(4), of paddr] leaf_address_leaf [OF assms(4), of paddr va]
    by (simp add: mmu_translate_eq [OF ok(1)] mmu_translate_eq [OF assms(1)] Let_def)
qed

lemma vpns_page:
  assumes "unat a < 2 ^ 39" "unat b < 2 ^ 39"
  shows "vpns a = vpns b \<longleftrightarrow> unat a div 4096 = unat b div 4096"
proof
  assume eq: "vpns a = vpns b"
  have "drop_bit 12 a = drop_bit 12 b"
  proof (rule bit_word_eqI)
    fix n :: nat
    have f: "bit (take_bit 9 (drop_bit k a)) j = bit (take_bit 9 (drop_bit k b)) j" if "k \<in> {12, 21, 30}" for k j
      using eq that by (auto simp: vpns_def and_masks)
    consider "n < 9" | j where "n = j + 9" "j < 9" | j where "n = j + 18" "j < 9" | "27 \<le> n"
      using that by (cases "n < 18"; cases "n < 9"; cases "n < 27") (auto dest: le_Suc_ex simp: not_less add.commute)
    then show "bit (drop_bit 12 a) n = bit (drop_bit 12 b) n"
    proof cases
      case 1
      then show ?thesis using f [of 12 n] by (simp add: bit_take_bit_iff)
    next
      case 2
      then show ?thesis using f [of 21 j] by (simp add: bit_take_bit_iff bit_drop)
    next
      case 3
      then show ?thesis using f [of 30 j] by (simp add: bit_take_bit_iff bit_drop)
    next
      case 4
      then show ?thesis
        using small_bit [OF assms(1), of "12 + n"] small_bit [OF assms(2), of "12 + n"] by (simp add: bit_drop)
    qed
  qed
  then have "unat (drop_bit 12 a) = unat (drop_bit 12 b)" by simp
  then show "unat a div 4096 = unat b div 4096" by (simp only: unat_drop_bit_eq) (simp add: drop_bit_eq_div)
next
  assume "unat a div 4096 = unat b div 4096"
  then have "unat (drop_bit 12 a) = unat (drop_bit 12 b)" by (simp only: unat_drop_bit_eq) (simp add: drop_bit_eq_div)
  then have "drop_bit 12 a = drop_bit 12 b" by (simp only: word_unat_eq_iff)
  moreover have "drop_bit 21 x = drop_bit 9 (drop_bit 12 x)" "drop_bit 30 x = drop_bit 18 (drop_bit 12 x)" for x :: u64
    by (simp_all only: drop_bit_drop_bit) simp_all
  ultimately show "vpns a = vpns b" unfolding vpns_def by (simp only:)
qed

lemma page_frame_id:
  assumes "aligned 12 x" "unat x < 2 ^ 56"
  shows "page_frame x = x"
proof (rule bit_word_eqI)
  fix n
  assume n: "n < LENGTH(64)"
  consider "n < 12" | k where "n = k + 12" by (metis add.commute le_Suc_ex not_le)
  then show "bit (page_frame x) n = bit x n"
  proof cases
    case 1
    then show ?thesis using aligned_bit [OF assms(1), of n] by (simp add: page_frame_def bit_push_bit_iff)
  next
    case 2
    then show ?thesis
      using small_bit [OF assms(2), of n] n
      by (cases "k < 44") (auto simp: page_frame_def bit_push_bit_iff bit_take_bit_iff bit_drop add.commute)
  qed
qed

lemma page_address:
  assumes "aligned 12 v" "aligned 12 p" "unat p + 4096 * n \<le> 2 ^ 56" "j < n" "unat v + 4096 * n \<le> 2 ^ 39"
    and "unat a div 4096 = unat (v + 4096 * of_nat j) div 4096"
  shows "page_frame (p + 4096 * of_nat j) OR (a AND 0xFFF) = p + (a - v)"
proof -
  have j: "unat (4096 * of_nat j :: u64) = 4096 * j" using assms(4,5) by (simp add: unat_word_ariths unat_of_nat)
  have pj: "unat (p + 4096 * of_nat j) = unat p + 4096 * j" and vj: "unat (v + 4096 * of_nat j) = unat v + 4096 * j"
    using j assms(3-5) by (simp_all add: unat_word_ariths)
  have al: "aligned 12 (p + 4096 * of_nat j)" using assms(2) pj by (simp add: aligned_iff_dvd)
  have off: "unat (a AND 0xFFF) = unat a mod 4096"
    unfolding and_masks by (simp only: unsigned_take_bit_eq) (simp add: take_bit_eq_mod)
  have A: "page_frame (p + 4096 * of_nat j) OR (a AND 0xFFF) = p + 4096 * of_nat j + (a AND 0xFFF)"
    using page_frame_id [OF al] pj assms(3,4) aligned_add_or [OF al, of "a AND 0xFFF"] off by simp
  have B: "a AND 0xFFF = a - (v + 4096 * of_nat j)"
  proof -
    have dv: "4096 dvd unat v" using assms(1) by (simp add: aligned_iff_dvd)
    then have "unat a div 4096 * 4096 = unat v + 4096 * j" using assms(6) vj by auto
    then have "unat a = unat v + 4096 * j + unat a mod 4096" using div_mult_mod_eq [of "unat a" 4096] by linarith
    then have "unat (a - (v + 4096 * of_nat j)) = unat a mod 4096"
      using vj by (simp add: unat_sub word_le_nat_alt)
    then show ?thesis using off by (simp add: word_unat_eq_iff)
  qed
  have "p + 4096 * of_nat j + (a AND 0xFFF) = p + (a - v)" unfolding B by simp
  with A show ?thesis by simp
qed

lemma map_multiple_ok:
  assumes "tree_ok (hw st) root" "kernel_mmu_lock st = MUTEX_UNLOCKED" "cpage_room (2 * (n - k)) (hw st)" "k \<le> n"
    and "aligned 12 v" "aligned 12 p" "unat v + 4096 * n \<le> 2 ^ 39" "unat p + 4096 * n \<le> 2 ^ 56"
    and "unat bits < 2 ^ 10" "bits AND 0xE \<noteq> 0"
  shows "\<exists>st'. map_multiple_from st root v p (4096 * of_nat n) bits (4096 * of_nat k) = Some st'
    \<and> kernel_mmu_lock st' = MUTEX_UNLOCKED \<and> tree_ok (hw st') root
    \<and> (\<forall>a. unat a < 2 ^ 39 \<longrightarrow> mmu_translate (mem (hw st')) root a =
         (if unat v + 4096 * k \<le> unat a \<and> unat a < unat v + 4096 * n then p + (a - v)
          else mmu_translate (mem (hw st)) root a))"
  using assms(1-4)
proof (induction "n - k" arbitrary: k st)
  case 0
  then have "k = n" by simp
  then show ?case using 0 by (auto simp: map_multiple_from.simps [of st])
next
  case (Suc d)
  have kn: "k < n" using Suc by simp
  have u: "unat (4096 * of_nat i :: u64) = 4096 * i" if "i \<le> n" for i
    using that assms(7) by (simp add: unat_word_ariths unat_of_nat)
  have lt: "(4096 * of_nat k :: u64) < 4096 * of_nat n" using u [of k] u [of n] kn by (simp add: word_less_nat_alt)
  have nxt: "(4096 * of_nat k :: u64) + 4096 = 4096 * of_nat (Suc k)" by (simp add: algebra_simps)
  let ?v = "v + 4096 * of_nat k" and ?p = "p + 4096 * of_nat k"
  have room: "2 * (n - k) = 2 * (n - Suc k) + 2" using kn by simp
  obtain st1 where st1: "mmu_map st root ?v ?p bits = Some (st1, True)" "cpage_room (2 * (n - Suc k)) (hw st1)"
    "kernel_mmu_lock st1 = MUTEX_UNLOCKED" "tree_ok (hw st1) root"
    using mmu_map_ok [OF Suc.prems(1,2) Suc.prems(3) [unfolded room] assms(9)] by metis
  have d: "d = n - Suc k" "Suc k \<le> n" using Suc.hyps(2) kn by simp_all
  obtain st' where st': "map_multiple_from st1 root v p (4096 * of_nat n) bits (4096 * of_nat (Suc k)) = Some st'"
    "kernel_mmu_lock st' = MUTEX_UNLOCKED" "tree_ok (hw st') root"
    "\<forall>a. unat a < 2 ^ 39 \<longrightarrow> mmu_translate (mem (hw st')) root a =
         (if unat v + 4096 * Suc k \<le> unat a \<and> unat a < unat v + 4096 * n then p + (a - v)
          else mmu_translate (mem (hw st1)) root a)"
    using Suc.hyps(1) [OF d(1) st1(4,3,2) d(2)] by blast
  have "map_multiple_from st root v p (4096 * of_nat n) bits (4096 * of_nat k) = Some st'"
    using lt st1(1) st'(1) nxt by (simp add: map_multiple_from.simps [of st] add.commute)
  moreover have "mmu_translate (mem (hw st1)) root a =
      (if unat v + 4096 * k \<le> unat a \<and> unat a < unat v + 4096 * Suc k then p + (a - v)
       else mmu_translate (mem (hw st)) root a)" if a: "unat a < 2 ^ 39" for a
  proof -
    have vk: "unat ?v = unat v + 4096 * k" using u [of k] kn assms(7) by (simp add: unat_word_ariths)
    have "vpns a = vpns ?v \<longleftrightarrow> unat a div 4096 = unat ?v div 4096"
      by (rule vpns_page) (use a vk kn assms(7) in auto)
    moreover have "4096 dvd unat ?v" using vk assms(5) by (simp add: aligned_iff_dvd)
    then have "unat a div 4096 = unat ?v div 4096 \<longleftrightarrow> unat ?v \<le> unat a \<and> unat a < unat ?v + 4096"
      by (auto elim!: dvdE)
    ultimately show ?thesis
      using translate_after_map [OF Suc.prems(1,2) Suc.prems(3) [unfolded room] assms(9,10) st1(1), of a]
        page_address [OF assms(5,6,8) kn assms(7), of a] vk by auto
  qed
  moreover have "4096 * Suc k \<le> 4096 * n" using kn by simp
  ultimately show ?case using st' by auto
qed

section \<open>Properties\<close>

text \<open>A heap of 24 pages with the root table in page 0 for the witnesses.\<close>

definition demo_mmu :: mmu_state where
  "demo_mmu = \<lparr>hw = \<lparr>mem = (\<lambda>a. if a = 0x10000 then 3 else 0), heap_start = 0x10000, heap_end = 0x28000\<rparr>,
     kernel_mmu_lock = 0\<rparr>"

lemma demo_mmu_layout: "bk_bytes (hw demo_mmu) = 24" "heap_ok (hw demo_mmu)" "page_addr (hw demo_mmu) 0 = 0x11000"
proof -
  show bk: "bk_bytes (hw demo_mmu) = 24" by (simp add: bk_bytes_def demo_mmu_def)
  show "heap_ok (hw demo_mmu)" by (simp add: heap_ok_def bk) (simp add: demo_mmu_def aligned_def)
  show "page_addr (hw demo_mmu) 0 = 0x11000" by (simp add: page_addr_def bk) (simp add: demo_mmu_def)
qed

lemma demo_mmu_bits:
  assumes "j < 24"
  shows "taken (hw demo_mmu) j \<longleftrightarrow> j = 0" "is_last (hw demo_mmu) j \<longleftrightarrow> j = 0"
proof -
  have "(of_nat j :: u64) = 0 \<longleftrightarrow> j = 0" using assms by (simp add: word_unat_eq_iff unat_of_nat)
  then have "cur_byte (hw demo_mmu) j = (if j = 0 then 3 else 0)" by (simp add: cur_byte_def demo_mmu_def)
  moreover have "bit (3 :: u8) 0" "bit (3 :: u8) 1" by simp_all
  ultimately show "taken (hw demo_mmu) j \<longleftrightarrow> j = 0" "is_last (hw demo_mmu) j \<longleftrightarrow> j = 0"
    by (simp_all add: taken_def is_last_def taken_bit_def last_bit_def)
qed

lemma demo_mmu_ok: "tree_ok (hw demo_mmu) 0x11000" "kernel_mmu_lock demo_mmu = MUTEX_UNLOCKED"
  "cpage_room 4 (hw demo_mmu)"
proof -
  have "holds_extents (hw demo_mmu) {(0, 1)}"
    using demo_mmu_bits by (simp add: holds_extents_def demo_mmu_layout pages_of_def)
  then have inv: "cpage_inv (hw demo_mmu)" using demo_mmu_layout by (auto simp: cpage_inv_def)
  have "page_addr (hw demo_mmu) 0 \<in> cpage_live (hw demo_mmu)"
    using demo_mmu_bits [of 0] demo_mmu_layout by (auto simp: cpage_live_def)
  then have live: "0x11000 \<in> cpage_live (hw demo_mmu)" by (simp add: demo_mmu_layout)
  have "pt_entry (mem (hw demo_mmu)) 0x11000 v = pt_entry (\<lambda>_. 0) 0x11000 v" if "unat v < 512" for v
    by (rule pt_entry_cong) (use that in \<open>auto simp: demo_mmu_def within_def\<close>)
  then have zero: "pt_entry (mem (hw demo_mmu)) 0x11000 v = 0" if "unat v < 512" for v
    using that by (simp add: pt_entry_def load64_def)
  have w: "vs = [] \<and> t = 0x11000" if "walk (mem (hw demo_mmu)) vs 0x11000 = Some t" "path vs" for vs t
    using that zero by (cases vs) (auto split: if_splits)
  show "tree_ok (hw demo_mmu) 0x11000"
    unfolding tree_ok_def
  proof (intro conjI allI impI)
    fix vs t v
    assume "path (vs @ [v]) \<and> length vs \<le> 1 \<and> walk (mem (hw demo_mmu)) vs 0x11000 = Some t
      \<and> bit (pt_entry (mem (hw demo_mmu)) t v) 0"
    then show "pt_entry (mem (hw demo_mmu)) t v AND 0xE = 0" using w [of vs t] zero [of v] by simp
  qed (use inv live w in blast)+
  show "kernel_mmu_lock demo_mmu = MUTEX_UNLOCKED" by (simp add: demo_mmu_def)
  show "cpage_room 4 (hw demo_mmu)"
    unfolding cpage_room_def
    by (rule exI [of _ "[1, 3, 5, 7]"]) (simp add: free_pair_def demo_mmu_layout demo_mmu_bits)
qed

lemma demo_mmu_room: "cpage_room 2 (hw demo_mmu)" "cpage_room (0 + 2) (hw demo_mmu)"
  using demo_mmu_ok(3) cz.room_mono [of 2 "hw demo_mmu"] cz.room_mono [of 3 "hw demo_mmu"]
  by (simp_all add: eval_nat_numeral)

text \<open>
  C4. Mapping refines a function update: on a sound table tree with two pages to spare
  \<open>mmu_map\<close> returns true, releases the lock, keeps the tree sound, and changes exactly the
  leaf entry of the mapped page among all entries the tree has for page numbers.\<close>

theorem mmu_map_refines_update:
  assumes "tree_ok (hw st) root" "kernel_mmu_lock st = MUTEX_UNLOCKED" "cpage_room 2 (hw st)" "unat bits < 2 ^ 10"
  shows "\<exists>st'. mmu_map st root vaddr paddr bits = Some (st', True)
    \<and> kernel_mmu_lock st' = MUTEX_UNLOCKED \<and> tree_ok (hw st') root
    \<and> (\<forall>vpn. length vpn = 3 \<and> path vpn \<longrightarrow> pte_of (mem (hw st')) root vpn =
         (if vpn = vpns vaddr then leaf_entry paddr bits else pte_of (mem (hw st)) root vpn))"
proof -
  have "cpage_room (0 + 2) (hw st)" using assms(3) by (simp add: numeral_2_eq_2)
  from mmu_map_ok [OF assms(1,2) this assms(4)] show ?thesis by metis
qed

lemma mmu_map_refines_update_witness:
  "\<exists>st'. mmu_map demo_mmu 0x11000 0x400000 0x80000000 6 = Some (st', True)
     \<and> pte_of (mem (hw st')) 0x11000 [0, 2, 0] = leaf_entry 0x80000000 6"
proof -
  have "vpns 0x400000 = [0, 2, 0]" by (simp add: vpns_def)
  moreover have "path [0, 2, 0]" by simp
  ultimately show ?thesis
    using mmu_map_refines_update [OF demo_mmu_ok(1,2) demo_mmu_room(1), where bits = 6 and vaddr = "0x400000" and paddr = "0x80000000"] by auto
qed


text \<open>
  C3. Translating after mapping: every address of the mapped page translates to its place in
  the physical frame, and every address of another page translates as before.\<close>

theorem mmu_translate_after_map:
  assumes "tree_ok (hw st) root" "kernel_mmu_lock st = MUTEX_UNLOCKED" "cpage_room 2 (hw st)"
    and "unat bits < 2 ^ 10" "bits AND 0xE \<noteq> 0" "mmu_map st root vaddr paddr bits = Some (st', r)"
  shows "mmu_translate (mem (hw st')) root va =
    (if vpns va = vpns vaddr then page_frame paddr OR (va AND 0xFFF)
     else mmu_translate (mem (hw st)) root va)"
proof -
  have "cpage_room (0 + 2) (hw st)" using assms(3) by (simp add: numeral_2_eq_2)
  from translate_after_map [OF assms(1,2) this assms(4-6)] show ?thesis .
qed

lemma mmu_translate_after_map_witness:
  "\<exists>st'. mmu_map demo_mmu 0x11000 0x400000 0x80000000 6 = Some (st', True)
     \<and> mmu_translate (mem (hw st')) 0x11000 0x400123 = 0x80000123"
proof -
  obtain st' where st': "mmu_map demo_mmu 0x11000 0x400000 0x80000000 6 = Some (st', True)"
    using mmu_map_ok [OF demo_mmu_ok(1,2) demo_mmu_room(2), of 6 "0x400000" "0x80000000"] by auto
  have "vpns 0x400123 = vpns 0x400000" "page_frame 0x80000000 OR (0x400123 AND 0xFFF) = 0x80000123"
    by (simp_all add: vpns_def page_frame_def)
  then show ?thesis
    using mmu_translate_after_map [OF demo_mmu_ok(1,2) demo_mmu_room(1) _ _ st', of "0x400123"] st' by simp
qed


text \<open>
  C22. Mapping a range: with two pages to spare for every page mapped, \<open>mmu_map_multiple\<close>
  returns, and afterwards exactly the addresses of the range translate to the physical range
  at the same offset; all other addresses translate as before.\<close>

theorem mmu_map_multiple_range:
  assumes "tree_ok (hw st) root" "kernel_mmu_lock st = MUTEX_UNLOCKED" "cpage_room (2 * n) (hw st)"
    and "aligned 12 v" "aligned 12 p" "unat v + 4096 * n \<le> 2 ^ 39" "unat p + 4096 * n \<le> 2 ^ 56"
    and "unat bits < 2 ^ 10" "bits AND 0xE \<noteq> 0"
  shows "\<exists>st'. mmu_map_multiple st root v p (4096 * of_nat n) bits = Some st'
    \<and> kernel_mmu_lock st' = MUTEX_UNLOCKED
    \<and> (\<forall>a. unat a < 2 ^ 39 \<longrightarrow> mmu_translate (mem (hw st')) root a =
         (if unat v \<le> unat a \<and> unat a < unat v + 4096 * n then p + (a - v)
          else mmu_translate (mem (hw st)) root a))"
  using map_multiple_ok [OF assms(1,2) _ _ assms(4-9), of 0] assms(3) by (auto simp: mmu_map_multiple_def)

lemma mmu_map_multiple_range_witness:
  "\<exists>st'. mmu_map_multiple demo_mmu 0x11000 0x400000 0x80000000 8192 6 = Some st'
     \<and> mmu_translate (mem (hw st')) 0x11000 0x401123 = 0x80001123"
proof -
  obtain st' where st': "mmu_map_multiple demo_mmu 0x11000 0x400000 0x80000000 8192 6 = Some st'"
    and t: "\<forall>a. unat a < 2 ^ 39 \<longrightarrow> mmu_translate (mem (hw st')) 0x11000 a =
         (if unat (0x400000 :: u64) \<le> unat a \<and> unat a < unat (0x400000 :: u64) + 4096 * 2 then 0x80000000 + (a - 0x400000)
          else mmu_translate (mem (hw demo_mmu)) 0x11000 a)"
    using mmu_map_multiple_range [OF demo_mmu_ok(1,2), of 2 "0x400000" "0x80000000" 6] demo_mmu_ok(3)
    by (auto simp: aligned_def)
  from t [rule_format, of "0x401123"] have "mmu_translate (mem (hw st')) 0x11000 0x401123 = 0x80001123" by simp
  with st' show ?thesis by blast
qed


text \<open>Running out of pages is not noticed: with no free pair of pages and a table missing,
  \<open>mmu_map\<close> links a valid entry to a table at NULL, goes on writing there and returns true.\<close>

theorem mmu_map_unchecked_null:
  assumes "\<And>k. \<not> free_pair (hw st) k" "kernel_mmu_lock st = MUTEX_UNLOCKED"
    and "\<not> bit (pt_entry (mem (hw st)) root (vpns vaddr ! 2)) 0"
  shows "map_step (hw st) root (vpns vaddr ! 2) = (set_pt_entry (hw st) root (vpns vaddr ! 2) PB_VALID, NULL)
    \<and> (\<exists>st'. mmu_map st root vaddr paddr bits = Some (st', True))"
proof -
  have "next_table 1 = 0" using next_table_link [of 0] by simp
  then show ?thesis
    using assms cpage_znalloc_fail [of 1 "hw st"]
    by (auto simp: map_step_def Let_def mmu_map_def split: prod.splits)
qed

lemma mmu_map_unchecked_null_witness:
  "\<exists>st'. mmu_map \<lparr>hw = \<lparr>mem = (\<lambda>_. 0), heap_start = 0x10000, heap_end = 0x10000\<rparr>, kernel_mmu_lock = 0\<rparr>
     0x11000 0x400000 0x80000000 6 = Some (st', True)"
proof -
  let ?st = "\<lparr>hw = \<lparr>mem = (\<lambda>_. 0), heap_start = 0x10000, heap_end = 0x10000\<rparr>, kernel_mmu_lock = 0\<rparr>"
  have "\<not> free_pair (hw ?st) k" for k by (simp add: free_pair_def bk_bytes_def)
  moreover have "\<not> bit (pt_entry (mem (hw ?st)) 0x11000 (vpns 0x400000 ! 2)) 0"
    by (simp add: pt_entry_def load64_def)
  ultimately show ?thesis using mmu_map_unchecked_null [of ?st "0x11000" "0x400000"] by auto
qed

end
