(* ===== verification/RbTree.thy ===== *)
theory RbTree
  imports Pages "HOL-Library.Monad_Syntax"
begin

text \<open>
  The left-leaning red-black tree of src/src/rbtree.c, the scheduler's run queue. A tree is a
  value: the nodes the C code links are owned by one parent, so its in-place updates are
  functions on the tree. \<open>None\<close> is a dereference of NULL. The lemmas say what each
  operation does to the list of the tree's entries in order, and that insertion keeps the
  tree balanced.
\<close>

section \<open>State and operations\<close>

datatype color = Black | Red

datatype rbnode = NULLNODE | RBNode (col: color) (left: rbnode) (nkey: u64) (nvalue: u64) (right: rbnode)

fun is_red :: "rbnode \<Rightarrow> bool" where
  "is_red (RBNode c l k v r) = (c = Red)"
| "is_red NULLNODE = False"

definition key_compare :: "u64 \<Rightarrow> u64 \<Rightarrow> int" where
  "key_compare key1 key2 = (if key1 > key2 then 1 else if key1 < key2 then - 1 else 0)"

fun flip :: "color \<Rightarrow> color" where
  "flip Black = Red"
| "flip Red = Black"

fun recolor :: "rbnode \<Rightarrow> rbnode" where
  "recolor (RBNode c l k v r) = RBNode (flip c) l k v r"
| "recolor NULLNODE = NULLNODE"

fun flip_color :: "rbnode \<Rightarrow> rbnode option" where
  "flip_color (RBNode c l k v r) =
     (if l = NULLNODE \<or> r = NULLNODE then None else Some (RBNode (flip c) (recolor l) k v (recolor r)))"
| "flip_color NULLNODE = None"

fun rotate_left :: "rbnode \<Rightarrow> rbnode option" where
  "rotate_left NULLNODE = Some NULLNODE"
| "rotate_left (RBNode c l k v (RBNode c' l' k' v' r')) = Some (RBNode c (RBNode Red l k v l') k' v' r')"
| "rotate_left (RBNode c l k v NULLNODE) = None"

fun rotate_right :: "rbnode \<Rightarrow> rbnode option" where
  "rotate_right NULLNODE = Some NULLNODE"
| "rotate_right (RBNode c (RBNode c' l' k' v' r') k v r) = Some (RBNode c l' k' v' (RBNode Red r' k v r))"
| "rotate_right (RBNode c NULLNODE k v r) = None"

text \<open>\<open>is_red(node->left->left)\<close> where \<open>node->left\<close> is dereferenced.\<close>

fun red_left_left :: "rbnode \<Rightarrow> bool option" where
  "red_left_left (RBNode c (RBNode c' ll k' v' lr) k v r) = Some (is_red ll)"
| "red_left_left _ = None"

text \<open>\<open>create_node\<close> answers NULL when the page it asks for is not available (\<open>page\<close>).\<close>

definition create_node :: "bool \<Rightarrow> u64 \<Rightarrow> u64 \<Rightarrow> rbnode" where
  "create_node page key value = (if page then RBNode Red NULLNODE key value NULLNODE else NULLNODE)"

text \<open>The three repair steps, each a test and a rotation or a colour flip.\<close>

definition lean_left :: "rbnode \<Rightarrow> rbnode option" where
  "lean_left node = (if is_red (right node) \<and> \<not> is_red (left node) then rotate_left node else Some node)"

definition fix_left_left :: "rbnode \<Rightarrow> rbnode option" where
  "fix_left_left node =
     (if is_red (left node) then
        do { ll \<leftarrow> red_left_left node; if ll then rotate_right node else Some node }
      else Some node)"

definition split_four :: "rbnode \<Rightarrow> rbnode option" where
  "split_four node = (if is_red (left node) \<and> is_red (right node) then flip_color node else Some node)"

fun insert_this :: "bool \<Rightarrow> rbnode \<Rightarrow> u64 \<Rightarrow> u64 \<Rightarrow> rbnode option" where
  "insert_this page NULLNODE key value = Some (create_node page key value)"
| "insert_this page (RBNode c l k v r) key value =
     do {
       node \<leftarrow> (if key_compare key k = 0 then Some (RBNode c l k value r)
                else if key_compare key k < 0
                then do { l' \<leftarrow> insert_this page l key value; Some (RBNode c l' k v r) }
                else do { r' \<leftarrow> insert_this page r key value; Some (RBNode c l k v r') });
       node \<leftarrow> lean_left node;
       node \<leftarrow> fix_left_left node;
       split_four node }"

fun min_node :: "rbnode \<Rightarrow> rbnode" where
  "min_node (RBNode c l k v r) = (if l = NULLNODE then RBNode c l k v r else min_node l)"
| "min_node NULLNODE = NULLNODE"

definition rb_balance :: "rbnode \<Rightarrow> rbnode option" where
  "rb_balance node =
     do {
       node \<leftarrow> (if is_red (right node) then rotate_left node else Some node);
       node \<leftarrow> fix_left_left node;
       split_four node }"

text \<open>\<open>node->right = rotate_right(node->right)\<close>.\<close>

fun rotate_right_child :: "rbnode \<Rightarrow> rbnode option" where
  "rotate_right_child (RBNode c l k v r) = do { r \<leftarrow> rotate_right r; Some (RBNode c l k v r) }"
| "rotate_right_child NULLNODE = None"

definition move_red_to_left :: "rbnode \<Rightarrow> rbnode option" where
  "move_red_to_left node =
     do {
       node \<leftarrow> flip_color node;
       if right node \<noteq> NULLNODE \<and> is_red (left (right node))
       then do {
         node \<leftarrow> rotate_right_child node;
         node \<leftarrow> rotate_left node;
         flip_color node }
       else Some node }"

definition move_red_to_right :: "rbnode \<Rightarrow> rbnode option" where
  "move_red_to_right node =
     do {
       node \<leftarrow> flip_color node;
       if left node \<noteq> NULLNODE \<and> is_red (left (left node))
       then do {
         node \<leftarrow> rotate_right node;
         flip_color node }
       else Some node }"

section \<open>Entries in order\<close>

fun entries :: "rbnode \<Rightarrow> (u64 \<times> u64) list" where
  "entries NULLNODE = []"
| "entries (RBNode c l k v r) = entries l @ (k, v) # entries r"

named_theorems entry_simps \<open>what the repair steps do to the entries\<close>

lemma entries_recolor [simp]: "entries (recolor t) = entries t" "recolor t = NULLNODE \<longleftrightarrow> t = NULLNODE"
  by (cases t; simp)+

lemma entries_flip [entry_simps]: "flip_color t = Some t' \<Longrightarrow> entries t' = entries t"
  by (cases t) (auto split: if_splits)

lemma entries_rotate_left [entry_simps]: "rotate_left t = Some t' \<Longrightarrow> entries t' = entries t"
  by (cases t rule: rotate_left.cases) auto

lemma entries_rotate_right [entry_simps]: "rotate_right t = Some t' \<Longrightarrow> entries t' = entries t"
  by (cases t rule: rotate_right.cases) auto

lemma entries_rotate_right_child [entry_simps]: "rotate_right_child t = Some t' \<Longrightarrow> entries t' = entries t"
  by (cases t) (auto simp: entry_simps split: bind_splits)

lemma entries_lean_left [entry_simps]: "lean_left t = Some t' \<Longrightarrow> entries t' = entries t"
  by (auto simp: lean_left_def entry_simps split: if_splits)

lemma entries_fix_left_left [entry_simps]: "fix_left_left t = Some t' \<Longrightarrow> entries t' = entries t"
  by (auto simp: fix_left_left_def entry_simps split: if_splits bind_splits)

lemma entries_split_four [entry_simps]: "split_four t = Some t' \<Longrightarrow> entries t' = entries t"
  by (auto simp: split_four_def entry_simps split: if_splits)

lemma entries_rb_balance [entry_simps]: "rb_balance t = Some t' \<Longrightarrow> entries t' = entries t"
  by (auto simp: rb_balance_def entry_simps split: if_splits bind_splits)

lemma entries_move_left [entry_simps]: "move_red_to_left t = Some t' \<Longrightarrow> entries t' = entries t"
  by (auto simp: move_red_to_left_def entry_simps split: if_splits bind_splits)

lemma entries_move_right [entry_simps]: "move_red_to_right t = Some t' \<Longrightarrow> entries t' = entries t"
  by (auto simp: move_red_to_right_def entry_simps split: if_splits bind_splits)

lemma length_entries: "length (entries t) = size t"
  by (induction t) auto

lemma entries_empty [simp]: "entries t = [] \<longleftrightarrow> t = NULLNODE"
  by (cases t) auto

lemma size_left_right: "t \<noteq> NULLNODE \<Longrightarrow> size (left t) < size t" "t \<noteq> NULLNODE \<Longrightarrow> size (right t) < size t"
  by (cases t; simp)+

section \<open>Removal\<close>

text \<open>\<open>node->left = f(node->left)\<close> and \<open>node->right = f(node->right)\<close>.\<close>

fun set_left :: "rbnode \<Rightarrow> rbnode \<Rightarrow> rbnode" where
  "set_left (RBNode c l k v r) l' = RBNode c l' k v r"
| "set_left NULLNODE l' = NULLNODE"

fun set_right :: "rbnode \<Rightarrow> rbnode \<Rightarrow> rbnode" where
  "set_right (RBNode c l k v r) r' = RBNode c l k v r'"
| "set_right NULLNODE r' = NULLNODE"

fun blacken :: "rbnode \<Rightarrow> rbnode" where
  "blacken (RBNode c l k v r) = RBNode Black l k v r"
| "blacken NULLNODE = NULLNODE"

lemma entries_size: "entries t' = entries t \<Longrightarrow> size t' = size t \<and> (t' = NULLNODE \<longleftrightarrow> t = NULLNODE)"
  by (metis entries.simps(1) length_entries list.size(3) size_left_right(1) not_less_zero)

lemma rearranged:
  "(if P then move_red_to_left t else Some t) = Some t' \<Longrightarrow> size t' = size t \<and> (t' = NULLNODE \<longleftrightarrow> t = NULLNODE)"
  "(if P then move_red_to_right t else Some t) = Some t' \<Longrightarrow> size t' = size t \<and> (t' = NULLNODE \<longleftrightarrow> t = NULLNODE)"
  "(if P then rotate_right t else Some t) = Some t' \<Longrightarrow> size t' = size t \<and> (t' = NULLNODE \<longleftrightarrow> t = NULLNODE)"
  using entries_size entries_move_left entries_move_right entries_rotate_right
  by (metis option.inject)+

function remove_min :: "rbnode \<Rightarrow> rbnode option" where
  "remove_min node =
     (if node = NULLNODE then Some NULLNODE
      else if left node = NULLNODE then Some NULLNODE
      else do {
        node \<leftarrow> (if \<not> is_red (left node) \<and> \<not> is_red (left (left node))
                 then move_red_to_left node else Some node);
        l \<leftarrow> remove_min (left node);
        rb_balance (set_left node l) })"
  by pat_completeness auto
termination
proof (relation "measure size", goal_cases)
  case (2 node node')
  then show ?case using rearranged(1) [OF 2(3)] size_left_right(1) [of node'] by simp
qed simp

declare remove_min.simps [simp del]

text \<open>\<open>remove_it\<close> with the blackening \<open>rb_remove_key_node\<close> puts around the recursive calls.\<close>

function remove_it :: "rbnode \<Rightarrow> u64 \<Rightarrow> rbnode option" where
  "remove_it node key =
     (if node = NULLNODE then Some NULLNODE
      else if key_compare key (nkey node) = - 1 then
        (if left node \<noteq> NULLNODE then
           do {
             node \<leftarrow> (if \<not> is_red (left node) \<and> \<not> is_red (left (left node))
                      then move_red_to_left node else Some node);
             l \<leftarrow> remove_it (left node) key;
             rb_balance (set_left node (blacken l)) }
         else rb_balance node)
      else
        do {
          node \<leftarrow> (if is_red (left node) then rotate_right node else Some node);
          if key_compare key (nkey node) = 0 \<and> right node = NULLNODE then Some NULLNODE
          else if right node \<noteq> NULLNODE then
            do {
              node \<leftarrow> (if \<not> is_red (right node) \<and> \<not> is_red (left (right node))
                       then move_red_to_right node else Some node);
              node \<leftarrow> (if key_compare key (nkey node) = 0
                then (case min_node (right node) of
                        NULLNODE \<Rightarrow> None
                      | RBNode c l k v r \<Rightarrow> do {
                          r' \<leftarrow> remove_min (right node);
                          Some (RBNode (col node) (left node) k v r') })
                else do {
                  r' \<leftarrow> remove_it (right node) key;
                  Some (set_right node (blacken r')) });
              rb_balance node }
          else rb_balance node })"
  by pat_completeness auto
termination
proof (relation "measure (size \<circ> fst)", goal_cases)
  case (2 node key node')
  then show ?case using rearranged(1) [OF 2(4)] size_left_right(1) [of node'] by simp
next
  case (3 node key x xa)
  then show ?case
    using rearranged(2) [OF 3(6)] rearranged(3) [OF 3(3)] size_left_right(2) [of xa] by simp
qed simp

declare remove_it.simps [simp del]

definition rb_remove_key_node :: "rbnode \<Rightarrow> u64 \<Rightarrow> rbnode option" where
  "rb_remove_key_node node key = map_option blacken (remove_it node key)"

text \<open>The keys of the nodes \<open>rb_erase_node\<close> frees, in the order of the \<open>kfree\<close> calls.\<close>

fun rb_erase_node :: "rbnode \<Rightarrow> u64 list" where
  "rb_erase_node (RBNode c l k v r) = rb_erase_node l @ rb_erase_node r @ [k]"
| "rb_erase_node NULLNODE = []"

section \<open>The operations of the tree\<close>

text \<open>
  A \<open>RBTree\<close> is its root; the argument \<open>NULL\<close> is \<open>None\<close> of the outer option. \<open>rb_new\<close> takes
  its (zeroed) page run from \<open>cpage_znalloc(100)\<close>.
\<close>

definition rb_new :: "machine \<Rightarrow> machine \<times> rbnode option" where
  "rb_new s = (let (s, p) = cpage_znalloc s 100 in (s, if p = NULL then None else Some NULLNODE))"

definition rb_insert :: "bool \<Rightarrow> rbnode option \<Rightarrow> u64 \<Rightarrow> u64 \<Rightarrow> rbnode option option" where
  "rb_insert page tree key value =
     (case tree of
        None \<Rightarrow> Some None
      | Some root \<Rightarrow> map_option (\<lambda>r. Some (blacken r)) (insert_this page root key value))"

fun find_from :: "rbnode \<Rightarrow> u64 \<Rightarrow> u64 option" where
  "find_from (RBNode c l k v r) key =
     (let cmp = key_compare key k in
      if cmp = 0 then Some v else if cmp < 0 then find_from l key else find_from r key)"
| "find_from NULLNODE key = None"

definition rb_find :: "rbnode option \<Rightarrow> u64 \<Rightarrow> u64 option" where
  "rb_find tree key = (case tree of None \<Rightarrow> None | Some root \<Rightarrow> find_from root key)"

definition rb_delete :: "rbnode option \<Rightarrow> u64 \<Rightarrow> rbnode option option" where
  "rb_delete tree key =
     (case tree of None \<Rightarrow> Some None | Some root \<Rightarrow> map_option Some (rb_remove_key_node root key))"

definition rb_free :: "rbnode option \<Rightarrow> u64 list \<times> rbnode option" where
  "rb_free tree = (case tree of None \<Rightarrow> ([], None) | Some root \<Rightarrow> (rb_erase_node root, Some NULLNODE))"

section \<open>Search trees\<close>

fun ordered :: "rbnode \<Rightarrow> bool" where
  "ordered NULLNODE = True"
| "ordered (RBNode c l k v r) \<longleftrightarrow> ordered l \<and> ordered r
     \<and> (\<forall>e \<in> set (entries l). fst e < k) \<and> (\<forall>e \<in> set (entries r). k < fst e)"

lemma ordered_iff: "ordered t \<longleftrightarrow> sorted_wrt (\<lambda>a b. fst a < fst b) (entries t)"
  by (induction t) (fastforce simp: sorted_wrt_append)+

lemma key_compare_simps [simp]:
  "key_compare a b = 0 \<longleftrightarrow> a = b" "key_compare a b < 0 \<longleftrightarrow> a < b" "key_compare a b = - 1 \<longleftrightarrow> a < b"
  by (auto simp: key_compare_def)

text \<open>Insertion and removal on the list of entries.\<close>

definition put_entry :: "u64 \<Rightarrow> u64 \<Rightarrow> (u64 \<times> u64) list \<Rightarrow> (u64 \<times> u64) list" where
  "put_entry k v es = filter (\<lambda>e. fst e < k) es @ (k, v) # filter (\<lambda>e. k < fst e) es"

definition drop_entry :: "u64 \<Rightarrow> (u64 \<times> u64) list \<Rightarrow> (u64 \<times> u64) list" where
  "drop_entry k es = filter (\<lambda>e. fst e \<noteq> k) es"

lemma filter_all: "(\<And>x. x \<in> set xs \<Longrightarrow> P x) \<Longrightarrow> filter P xs = xs"
  by (simp add: filter_id_conv)

lemma filter_none: "(\<And>x. x \<in> set xs \<Longrightarrow> \<not> P x) \<Longrightarrow> filter P xs = []"
  by (simp add: filter_empty_conv)

lemma find_from_entries: "ordered t \<Longrightarrow> find_from t k = map_of (entries t) k"
proof (induction t)
  case (RBNode c l k' v r)
  have r: "map_of (entries r) k = None" if "k \<le> k'"
    using RBNode.prems that by (auto simp: map_of_eq_None_iff leD)
  have l: "map_of (entries l) k = None" if "k' \<le> k"
    using RBNode.prems that by (auto simp: map_of_eq_None_iff leD)
  show ?case
    using RBNode l r by (cases k k' rule: linorder_cases) (auto simp: Let_def map_add_def split: option.split)
qed simp

lemma filter_split:
  assumes "\<forall>e \<in> set xs. fst e < (k' :: u64)" "\<forall>e \<in> set ys. k' < fst e"
  shows "k \<le> k' \<Longrightarrow> filter (\<lambda>e. fst e < k) ys = []" "k \<le> k' \<Longrightarrow> filter (\<lambda>e. k < fst e) ys = ys"
    and "k' \<le> k \<Longrightarrow> filter (\<lambda>e. fst e < k) xs = xs" "k' \<le> k \<Longrightarrow> filter (\<lambda>e. k < fst e) xs = []"
    and "k \<le> k' \<Longrightarrow> filter (\<lambda>e. fst e \<noteq> k) ys = ys" "k' \<le> k \<Longrightarrow> filter (\<lambda>e. fst e \<noteq> k) xs = xs"
  using assms by (force simp: filter_id_conv filter_empty_conv)+

lemma put_entry_split:
  assumes "\<forall>e \<in> set xs. fst e < k'" "\<forall>e \<in> set ys. k' < fst e"
  shows "k < k' \<Longrightarrow> put_entry k v (xs @ (k', v') # ys) = put_entry k v xs @ (k', v') # ys"
    and "k' < k \<Longrightarrow> put_entry k v (xs @ (k', v') # ys) = xs @ (k', v') # put_entry k v ys"
    and "put_entry k' v (xs @ (k', v') # ys) = xs @ (k', v) # ys"
  using filter_split [OF assms] by (auto simp: put_entry_def)

lemma drop_entry_split:
  assumes "\<forall>e \<in> set xs. fst e < k'" "\<forall>e \<in> set ys. k' < fst e"
  shows "k < k' \<Longrightarrow> drop_entry k (xs @ (k', v') # ys) = drop_entry k xs @ (k', v') # ys"
    and "k' < k \<Longrightarrow> drop_entry k (xs @ (k', v') # ys) = xs @ (k', v') # drop_entry k ys"
    and "drop_entry k' (xs @ (k', v') # ys) = xs @ ys"
  using filter_split [OF assms] by (auto simp: drop_entry_def)

lemma map_of_put: "sorted_wrt (\<lambda>a b. fst a < fst b) es \<Longrightarrow> map_of (put_entry k v es) = (map_of es)(k \<mapsto> v)"
proof (induction es)
  case (Cons e es)
  obtain a b where e: "e = (a, b)" by fastforce
  have "\<forall>e \<in> set []. fst e < a" "\<forall>e \<in> set es. a < fst e" using Cons.prems e by auto
  note p = put_entry_split [OF this, where v' = b]
  have IH: "map_of (put_entry k v es) = (map_of es)(k \<mapsto> v)" by (rule Cons.IH) (use Cons.prems in simp)
  show ?case
    using p IH by (cases k a rule: linorder_cases) (auto simp: e put_entry_def [of _ _ "[]"])
qed (simp add: put_entry_def)

lemma map_of_drop: "map_of (drop_entry k es) = (map_of es)(k := None)"
  by (induction es) (auto simp: drop_entry_def)

lemma ordered_cong: "entries t' = entries t \<Longrightarrow> ordered t' = ordered t"
  by (simp add: ordered_iff)

section \<open>Balance\<close>

text \<open>Black height along the left spine, the invariant, and what one red parent may break.\<close>

fun bheight :: "rbnode \<Rightarrow> nat" where
  "bheight NULLNODE = 0"
| "bheight (RBNode c l k v r) = bheight l + (if c = Black then 1 else 0)"

fun llrb :: "rbnode \<Rightarrow> bool" where
  "llrb NULLNODE = True"
| "llrb (RBNode c l k v r) \<longleftrightarrow> llrb l \<and> llrb r \<and> bheight l = bheight r \<and> \<not> is_red r \<and> (c = Red \<longrightarrow> \<not> is_red l)"

fun llrb_weak :: "rbnode \<Rightarrow> bool" where
  "llrb_weak NULLNODE = True"
| "llrb_weak (RBNode c l k v r) \<longleftrightarrow> llrb l \<and> llrb r \<and> bheight l = bheight r \<and> \<not> is_red r"

lemma llrb_imp_weak: "llrb t \<Longrightarrow> llrb_weak t"
  by (cases t) auto

definition repair :: "rbnode \<Rightarrow> rbnode option" where
  "repair node = do { node \<leftarrow> lean_left node; node \<leftarrow> fix_left_left node; split_four node }"

lemmas repair_defs = repair_def lean_left_def fix_left_left_def split_four_def

lemma repair_left:
  assumes "llrb_weak l" "llrb r" "bheight l = bheight r" "\<not> is_red r" "c = Red \<Longrightarrow> llrb l"
  shows "\<exists>t'. repair (RBNode c l k v r) = Some t' \<and> bheight t' = bheight (RBNode c l k v r)
    \<and> llrb_weak t' \<and> (c = Black \<longrightarrow> llrb t')"
proof (cases "is_red l \<and> is_red (left l)")
  case True
  then obtain ll lk lv lr where l: "l = RBNode Red ll lk lv lr" "is_red ll" by (cases l) auto
  then have "c = Black" using assms(1,5) by (cases c) auto
  moreover obtain lll llk llv llr where ll: "ll = RBNode Red lll llk llv llr" using l(2) by (cases ll) auto
  ultimately show ?thesis using assms l by (cases r) (auto simp: repair_defs)
next
  case False
  then show ?thesis
    using assms by (cases l) (auto simp: repair_defs split: if_splits)
qed

lemma repair_right:
  assumes "llrb l" "llrb r" "bheight l = bheight r" "c = Red \<Longrightarrow> \<not> is_red l"
  shows "\<exists>t'. repair (RBNode c l k v r) = Some t' \<and> bheight t' = bheight (RBNode c l k v r)
    \<and> llrb_weak t' \<and> (c = Black \<longrightarrow> llrb t')"
  using assms by (cases r; cases l; cases c) (auto simp: repair_defs split: if_splits)

lemma insert_this_cases:
  "insert_this page (RBNode c l k v r) k value = repair (RBNode c l k value r)"
  "key < k \<Longrightarrow> insert_this page (RBNode c l k v r) key value =
     Option.bind (insert_this page l key value) (\<lambda>l'. repair (RBNode c l' k v r))"
  "k < key \<Longrightarrow> insert_this page (RBNode c l k v r) key value =
     Option.bind (insert_this page r key value) (\<lambda>r'. repair (RBNode c l k v r'))"
  by (auto simp: repair_def Option.bind_assoc)

lemma insert_this_ok:
  assumes "llrb t"
  shows "\<exists>t'. insert_this page t key value = Some t' \<and> bheight t' = bheight t \<and> llrb_weak t'
    \<and> (\<not> is_red t \<longrightarrow> llrb t')"
  using assms
proof (induction t)
  case NULLNODE
  then show ?case by (simp add: create_node_def)
next
  case (RBNode c l k v r)
  have lr: "llrb l" "llrb r" "bheight l = bheight r" "\<not> is_red r" "c = Red \<Longrightarrow> \<not> is_red l"
    using RBNode.prems by auto
  have c: "\<not> is_red (RBNode c l k v r) \<longleftrightarrow> c = Black" by (cases c) auto
  consider "key = k" | "key < k" | "k < key" by (rule linorder_cases)
  then show ?case
  proof cases
    case 1
    then show ?thesis
      using repair_left [OF llrb_imp_weak [OF lr(1)] lr(2-4), of c k "value"] lr(1) c
      by (auto simp: insert_this_cases simp del: insert_this.simps is_red.simps)
  next
    case 2
    then obtain l' where l': "insert_this page l key value = Some l'" "bheight l' = bheight l" "llrb_weak l'"
      "\<not> is_red l \<longrightarrow> llrb l'" using RBNode.IH(1) lr(1) by blast
    then show ?thesis
      using repair_left [OF l'(3) lr(2) _ lr(4), of c k v] lr c 2
      by (auto simp: insert_this_cases simp del: insert_this.simps is_red.simps)
  next
    case 3
    then obtain r' where r': "insert_this page r key value = Some r'" "bheight r' = bheight r" "llrb r'"
      using RBNode.IH(2) lr(2,4) by blast
    then show ?thesis
      using repair_right [OF lr(1) r'(3), of c k v] lr(3,5) c 3
      by (auto simp: insert_this_cases simp del: insert_this.simps is_red.simps)
  qed
qed

text \<open>What an insertion does to the entries.\<close>

lemma entries_repair [entry_simps]: "repair t = Some t' \<Longrightarrow> entries t' = entries t"
  by (auto simp: repair_def entry_simps split: bind_splits)

lemma insert_this_entries:
  assumes "ordered t" "insert_this page t key value = Some t'"
  shows "entries t' = (if page \<or> key \<in> fst ` set (entries t) then put_entry key value (entries t) else entries t)"
  using assms
proof (induction t arbitrary: t')
  case NULLNODE
  then show ?case by (auto simp: create_node_def put_entry_def)
next
  case (RBNode c l k v r)
  have o: "\<forall>e \<in> set (entries l). fst e < k" "\<forall>e \<in> set (entries r). k < fst e" "ordered l" "ordered r"
    using RBNode.prems(1) by auto
  consider "key = k" | "key < k" | "k < key" by (rule linorder_cases)
  then show ?case
  proof cases
    case 1
    then show ?thesis
      using RBNode.prems(2) put_entry_split(3) [OF o(1,2)]
      by (auto simp: insert_this_cases entry_simps simp del: insert_this.simps)
  next
    case 2
    then have "key \<notin> fst ` set (entries r)" using o(2) by force
    moreover obtain l' where l': "insert_this page l key value = Some l'" "repair (RBNode c l' k v r) = Some t'"
      using RBNode.prems(2) 2 by (auto simp: insert_this_cases simp del: insert_this.simps split: bind_splits)
    have "entries t' = entries l' @ (k, v) # entries r" using entries_repair [OF l'(2)] by simp
    moreover have "key \<noteq> k" using 2 by simp
    ultimately show ?thesis
      using RBNode.IH(1) [OF o(3) l'(1)] put_entry_split(1) [OF o(1,2) 2] by (auto simp: image_Un)
  next
    case 3
    then have "key \<notin> fst ` set (entries l)" using o(1) by force
    moreover obtain r' where r': "insert_this page r key value = Some r'" "repair (RBNode c l k v r') = Some t'"
      using RBNode.prems(2) 3 by (auto simp: insert_this_cases simp del: insert_this.simps split: bind_splits)
    have "entries t' = entries l @ (k, v) # entries r'" using entries_repair [OF r'(2)] by simp
    moreover have "key \<noteq> k" using 3 by simp
    ultimately show ?thesis
      using RBNode.IH(2) [OF o(4) r'(1)] put_entry_split(2) [OF o(1,2) 3] by (auto simp: image_Un)
  qed
qed

section \<open>Removal from a balanced tree\<close>

lemma fix_split_total:
  assumes "t \<noteq> NULLNODE"
  shows "\<exists>t'. Option.bind (fix_left_left t) split_four = Some t'"
proof (cases "is_red (left t)")
  case True
  then show ?thesis
    using assms by (cases t; cases "left t"; cases "left (left t)")
      (auto simp: fix_left_left_def split_four_def split: if_splits option.splits elim: is_red.elims)
qed (simp add: fix_left_left_def split_four_def)

lemma rb_balance_total: "t \<noteq> NULLNODE \<Longrightarrow> \<exists>t'. rb_balance t = Some t'"
proof -
  assume "t \<noteq> NULLNODE"
  then obtain t1 where "(if is_red (right t) then rotate_left t else Some t) = Some t1" "t1 \<noteq> NULLNODE"
    by (cases t; cases "right t"; cases "is_red (right t)") auto
  then show ?thesis using fix_split_total [of t1] by (simp add: rb_balance_def)
qed

lemma min_node_entries:
  "t \<noteq> NULLNODE \<Longrightarrow> min_node t \<noteq> NULLNODE \<and> hd (entries t) = (nkey (min_node t), nvalue (min_node t))"
proof (induction t)
  case (RBNode c l k v r)
  then show ?case by (cases "l = NULLNODE") (auto simp: hd_append)
qed simp

lemma bheight_0: "llrb t \<Longrightarrow> bheight t = 0 \<Longrightarrow> \<not> is_red t \<Longrightarrow> t = NULLNODE"
  by (cases t) (auto split: if_splits, metis color.exhaust)

lemma move_left_ok:
  assumes "llrb t" "left t \<noteq> NULLNODE" "\<not> is_red (left t)" "\<not> is_red (left (left t))" "t \<noteq> NULLNODE"
  shows "\<exists>t'. move_red_to_left t = Some t' \<and> llrb (left t') \<and> left t' \<noteq> NULLNODE
    \<and> (nkey t' = nkey t \<or> nkey t' \<in> fst ` set (entries (right t)))"
proof -
  obtain c l k v r where t: "t = RBNode c l k v r" using assms(5) by (cases t) auto
  obtain ll lk lv lr where l: "l = RBNode Black ll lk lv lr"
    using assms(2,3) t by (cases l) (auto, metis color.exhaust)
  then have "bheight r \<noteq> 0" using assms(1) t by simp
  then obtain c' rl rk rv rr where r: "r = RBNode c' rl rk rv rr" by (cases r) auto
  have "c' = Black" using assms(1) t r by (cases c') auto
  show ?thesis
  proof (cases rl)
    case NULLNODE
    then show ?thesis using assms t l r \<open>c' = Black\<close> by (auto simp: move_red_to_left_def)
  next
    case (RBNode d a b e f)
    then show ?thesis using assms t l r \<open>c' = Black\<close> by (cases d) (auto simp: move_red_to_left_def)
  qed
qed

lemma descend_left:
  assumes "llrb t" "t \<noteq> NULLNODE" "left t \<noteq> NULLNODE"
  obtains t1 where "(if \<not> is_red (left t) \<and> \<not> is_red (left (left t)) then move_red_to_left t else Some t) = Some t1"
    "llrb (left t1)" "left t1 \<noteq> NULLNODE" "entries t1 = entries t" "t1 \<noteq> NULLNODE" "size (left t1) < size t"
    "nkey t1 = nkey t \<or> nkey t1 \<in> fst ` set (entries (right t))"
proof (cases "\<not> is_red (left t) \<and> \<not> is_red (left (left t))")
  case True
  then obtain t1 where t1: "move_red_to_left t = Some t1" "llrb (left t1)" "left t1 \<noteq> NULLNODE"
    "nkey t1 = nkey t \<or> nkey t1 \<in> fst ` set (entries (right t))"
    using move_left_ok [OF assms(1,3) _ _ assms(2)] by blast
  note e = entries_move_left [OF t1(1)]
  show ?thesis
    using that [of t1] True t1 e entries_size [OF e] size_left_right(1) [of t1] assms(2) by simp
next
  case False
  have "llrb (left t)" using assms(1,2) by (cases t) auto
  then show ?thesis using that [of t] False assms(2,3) size_left_right(1) [OF assms(2)] by auto
qed

lemma remove_min_ok: "llrb t \<Longrightarrow> \<exists>t'. remove_min t = Some t' \<and> entries t' = tl (entries t)"
proof (induction t rule: measure_induct_rule [of size])
  case (less t)
  show ?case
  proof (cases "t = NULLNODE \<or> left t = NULLNODE")
    case True
    then have "remove_min t = Some NULLNODE" by (subst remove_min.simps) auto
    moreover have "tl (entries t) = []"
      using True less.prems bheight_0 [of "right t"] by (cases t) auto
    ultimately show ?thesis by simp
  next
    case False
    obtain t1 where t1: "(if \<not> is_red (left t) \<and> \<not> is_red (left (left t)) then move_red_to_left t else Some t) = Some t1"
      "llrb (left t1)" "left t1 \<noteq> NULLNODE" "entries t1 = entries t" "t1 \<noteq> NULLNODE" "size (left t1) < size t"
      using descend_left [OF less.prems] False by metis
    obtain l' where l': "remove_min (left t1) = Some l'" "entries l' = tl (entries (left t1))"
      using less.IH [OF t1(6,2)] by auto
    obtain c l k v r where n: "t1 = RBNode c l k v r" using t1(5) by (cases t1) auto
    obtain t' where t': "rb_balance (set_left t1 l') = Some t'" using rb_balance_total [of "set_left t1 l'"] n by auto
    have "remove_min t = Some t'"
      using False t1(1) l'(1) t' by (subst remove_min.simps) simp
    moreover have "entries t' = tl (entries t)"
      using entries_rb_balance [OF t'] l'(2) n t1(3) tl_append2 [of "entries l"] by (simp flip: t1(4))
    ultimately show ?thesis by simp
  qed
qed

lemma move_right_ok:
  assumes "llrb t" "right t \<noteq> NULLNODE" "\<not> is_red (left t)" "\<not> is_red (left (right t))" "t \<noteq> NULLNODE"
  obtains t1 where "move_red_to_right t = Some t1" "llrb (right t1)" "nkey t1 = nkey t" "t1 \<noteq> NULLNODE"
    | t1 l r where "move_red_to_right t = Some t1" "t1 \<noteq> NULLNODE" "right t1 = RBNode Black l (nkey t) (nvalue t) r"
      "llrb l" "llrb r" "bheight l = bheight r" "\<not> is_red l" "is_red r" "nkey t1 \<in> fst ` set (entries (left t))"
proof -
  obtain c l k v r where t: "t = RBNode c l k v r" using assms(5) by (cases t) auto
  obtain c' rl rk rv rr where r: "r = RBNode c' rl rk rv rr" using assms(2) t by (cases r) auto
  have c': "c' = Black" using assms(1) t r by (cases c') auto
  then have "bheight l \<noteq> 0" using assms(1) t r by simp
  then obtain d ll lk lv lr where l: "l = RBNode d ll lk lv lr" by (cases l) auto
  have d: "d = Black" using assms(3) t l by (cases d) auto
  show ?thesis
  proof (cases "is_red ll")
    case False
    then show ?thesis
      using that(1) [of "RBNode (flip c) (recolor l) k v (recolor r)"] assms t l r c' d by (auto simp: move_red_to_right_def)
  next
    case True
    then obtain a b e f where ll: "ll = RBNode Red a b e f" by (cases ll) auto
    then show ?thesis
      using that(2) [of "RBNode (flip (flip c)) (recolor ll) lk lv (RBNode Black lr k v (recolor r))" lr "recolor r"]
        assms t l r c' d by (auto simp: move_red_to_right_def)
  qed
qed

text \<open>
  The trees a removal of \<open>key\<close> descends into: balanced ones, and those with a red right child
  that \<open>move_red_to_right\<close> leaves, where the key is not to the left.
\<close>

definition descend :: "u64 \<Rightarrow> rbnode \<Rightarrow> bool" where
  "descend key t \<longleftrightarrow> llrb t \<or> (\<exists>l k v r. t = RBNode Black l k v r \<and> llrb l \<and> llrb r \<and> bheight l = bheight r
     \<and> \<not> is_red l \<and> is_red r \<and> k \<le> key)"

lemma remove_it_less:
  assumes "ordered t" "llrb t" "t \<noteq> NULLNODE" "key < nkey t"
    and IH: "\<And>u. size u < size t \<Longrightarrow> ordered u \<Longrightarrow> descend key u \<Longrightarrow>
      \<exists>u'. remove_it u key = Some u' \<and> entries u' = drop_entry key (entries u)"
  shows "\<exists>t'. remove_it t key = Some t' \<and> entries t' = drop_entry key (entries t)"
proof (cases "left t = NULLNODE")
  case True
  obtain t' where t': "rb_balance t = Some t'" using rb_balance_total [OF assms(3)] by blast
  then have "remove_it t key = Some t'" using True assms(3,4) by (subst remove_it.simps) simp
  moreover have "drop_entry key (entries t) = entries t"
    using assms(1,4) True by (cases t) (auto simp: drop_entry_def intro!: filter_all)
  ultimately show ?thesis using entries_rb_balance [OF t'] by simp
next
  case False
  obtain t1 where t1: "(if \<not> is_red (left t) \<and> \<not> is_red (left (left t)) then move_red_to_left t else Some t) = Some t1"
    "llrb (left t1)" "entries t1 = entries t" "t1 \<noteq> NULLNODE" "size (left t1) < size t"
    "nkey t1 = nkey t \<or> nkey t1 \<in> fst ` set (entries (right t))"
    using descend_left [OF assms(2,3) False] by metis
  obtain c l k v r where n: "t1 = RBNode c l k v r" using t1(4) by (cases t1) auto
  have o: "ordered t1" using ordered_cong [OF t1(3)] assms(1) by simp
  have key: "key < k" using t1(6) assms(1,3,4) n by (cases t) (auto intro: less_trans)
  obtain l' where l': "remove_it l key = Some l'" "entries l' = drop_entry key (entries l)"
    using IH [of l] t1(2,5) o n by (auto simp: descend_def)
  obtain t' where t': "rb_balance (set_left t1 (blacken l')) = Some t'"
    using rb_balance_total [of "set_left t1 (blacken l')"] n by auto
  have "remove_it t key = Some t'" using False t1(1) l'(1) t' n assms(3,4) by (subst remove_it.simps) simp
  moreover have "entries (blacken l') = entries l'" by (cases l') auto
  then have "entries t' = drop_entry key (entries t)"
    using entries_rb_balance [OF t'] l'(2) n o drop_entry_split(1) [of "entries l" k "entries r" key] key
    by (simp flip: t1(3))
  ultimately show ?thesis by simp
qed

text \<open>The part of \<open>remove_it\<close> after the test of the key against a node whose right child is not NULL.\<close>

definition remove_right :: "rbnode \<Rightarrow> u64 \<Rightarrow> rbnode option" where
  "remove_right node key = do {
     node \<leftarrow> (if key_compare key (nkey node) = 0
       then (case min_node (right node) of
               NULLNODE \<Rightarrow> None
             | RBNode c l k v r \<Rightarrow> do {
                 r' \<leftarrow> remove_min (right node);
                 Some (RBNode (col node) (left node) k v r') })
       else do {
         r' \<leftarrow> remove_it (right node) key;
         Some (set_right node (blacken r')) });
     rb_balance node }"

lemma remove_right_ok:
  assumes "ordered t" "t \<noteq> NULLNODE" "right t \<noteq> NULLNODE" "nkey t \<le> key" "nkey t = key \<Longrightarrow> llrb (right t)"
    and "nkey t \<noteq> key \<Longrightarrow> \<exists>u'. remove_it (right t) key = Some u' \<and> entries u' = drop_entry key (entries (right t))"
  shows "\<exists>t'. remove_right t key = Some t' \<and> entries t' = drop_entry key (entries t)"
proof -
  obtain c l k v r where t: "t = RBNode c l k v r" using assms(2) by (cases t) auto
  have o: "\<forall>e \<in> set (entries l). fst e < k" "\<forall>e \<in> set (entries r). k < fst e" using assms(1) t by auto
  show ?thesis
  proof (cases "k = key")
    case True
    obtain mc ml mk mv mr where m: "min_node r = RBNode mc ml mk mv mr" "hd (entries r) = (mk, mv)"
      using min_node_entries [of r] assms(3) t by (cases "min_node r") auto
    obtain r' where r': "remove_min r = Some r'" "entries r' = tl (entries r)"
      using remove_min_ok [of r] assms(5) t True by auto
    obtain t' where t': "rb_balance (RBNode c l mk mv r') = Some t'" using rb_balance_total by blast
    have "remove_right t key = Some t'" using t True m(1) r'(1) t' by (simp add: remove_right_def)
    moreover have "(mk, mv) # tl (entries r) = entries r" using m(2) assms(3) t by (cases "entries r") auto
    then have "entries t' = drop_entry key (entries t)"
      using entries_rb_balance [OF t'] r'(2) drop_entry_split(3) [OF o] t True by simp
    ultimately show ?thesis by simp
  next
    case False
    then obtain r' where r': "remove_it r key = Some r'" "entries r' = drop_entry key (entries r)"
      using assms(6) t by auto
    obtain t' where t': "rb_balance (RBNode c l k v (blacken r')) = Some t'" using rb_balance_total by blast
    have "remove_right t key = Some t'" using t False r'(1) t' by (simp add: remove_right_def)
    moreover have "entries (blacken r') = entries r'" by (cases r') auto
    then have "entries t' = drop_entry key (entries t)"
      using entries_rb_balance [OF t'] r'(2) drop_entry_split(2) [OF o, of key] t False assms(4) by simp
    ultimately show ?thesis by simp
  qed
qed

lemma remove_it_ge:
  assumes "t \<noteq> NULLNODE" "\<not> key < nkey t"
  shows "remove_it t key = do {
    node \<leftarrow> (if is_red (left t) then rotate_right t else Some t);
    if key = nkey node \<and> right node = NULLNODE then Some NULLNODE
    else if right node \<noteq> NULLNODE then do {
      node \<leftarrow> (if \<not> is_red (right node) \<and> \<not> is_red (left (right node)) then move_red_to_right node else Some node);
      remove_right node key }
    else rb_balance node }"
  using assms unfolding remove_right_def key_compare_simps
  by (subst remove_it.simps) (simp only: key_compare_simps if_False)

lemma remove_it_right:
  assumes "ordered t" "t \<noteq> NULLNODE" "right t \<noteq> NULLNODE" "nkey t \<le> key" "\<not> is_red (left t)"
    and "descend key t"
    and IH: "\<And>u. size u < size t \<Longrightarrow> ordered u \<Longrightarrow> descend key u \<Longrightarrow>
      \<exists>u'. remove_it u key = Some u' \<and> entries u' = drop_entry key (entries u)"
  shows "\<exists>t'. remove_it t key = Some t' \<and> entries t' = drop_entry key (entries t)"
proof -
  have unf: "remove_it t key = Option.bind
      (if \<not> is_red (right t) \<and> \<not> is_red (left (right t)) then move_red_to_right t else Some t)
      (\<lambda>node. remove_right node key)"
    using remove_it_ge [OF assms(2), of key] assms(3,4,5) by auto
  have goon: "\<exists>t'. remove_right t1 key = Some t' \<and> entries t' = drop_entry key (entries t)"
    if t1: "entries t1 = entries t" "t1 \<noteq> NULLNODE" "right t1 \<noteq> NULLNODE" "nkey t1 \<le> key" "descend key (right t1)"
      "nkey t1 = key \<Longrightarrow> llrb (right t1)" for t1
  proof -
    have o: "ordered t1" using ordered_cong [OF t1(1)] assms(1) by simp
    then have "ordered (right t1)" using t1(2) by (cases t1) auto
    moreover have "size (right t1) < size t"
      using size_left_right(2) [OF t1(2)] entries_size [OF t1(1)] by simp
    ultimately show ?thesis
      using remove_right_ok [OF o t1(2-4) t1(6)] IH [of "right t1"] t1(1,5) by simp
  qed
  show ?thesis
  proof (cases "\<not> is_red (right t) \<and> \<not> is_red (left (right t))")
    case False
    have "llrb (right t)" using assms(2,6) by (cases t) (auto simp: descend_def)
    then show ?thesis using goon [of t] unf False assms(2-4) by (simp add: descend_def)
  next
    case True
    then have ll: "llrb t" using assms(6) by (auto simp: descend_def)
    show ?thesis
    proof (rule move_right_ok [OF ll assms(3,5) _ assms(2)])
      show "\<not> is_red (left (right t))" using True by simp
    next
      fix t1
      assume t1: "move_red_to_right t = Some t1" "llrb (right t1)" "nkey t1 = nkey t" "t1 \<noteq> NULLNODE"
      have e: "entries t1 = entries t" using entries_move_right [OF t1(1)] .
      have "right t1 \<noteq> NULLNODE"
      proof
        assume "right t1 = NULLNODE"
        then have "entries t1 = entries (left t1) @ [(nkey t1, nvalue t1)]" using t1(4) by (cases t1) auto
        then have "last (entries t) = (nkey t, nvalue t1)" using e t1(3) by simp
        moreover have "last (entries t) \<in> set (entries (right t))" using assms(2,3) by (cases t) auto
        ultimately show False using assms(1,2) by (cases t) auto
      qed
      then show ?thesis using goon [OF e t1(4)] t1 unf True assms(4) by (simp add: descend_def)
    next
      fix t1 l r
      assume t1: "move_red_to_right t = Some t1" "t1 \<noteq> NULLNODE" "right t1 = RBNode Black l (nkey t) (nvalue t) r"
        "llrb l" "llrb r" "bheight l = bheight r" "\<not> is_red l" "is_red r" "nkey t1 \<in> fst ` set (entries (left t))"
      have "nkey t1 < nkey t" using t1(9) assms(1,2) by (cases t) auto
      then show ?thesis
        using goon [OF entries_move_right [OF t1(1)] t1(2)] t1 unf True assms(4) by (auto simp: descend_def)
    qed
  qed
qed

lemma remove_it_ok:
  "ordered t \<Longrightarrow> descend key t \<Longrightarrow> \<exists>t'. remove_it t key = Some t' \<and> entries t' = drop_entry key (entries t)"
proof (induction t rule: measure_induct_rule [of size])
  case (less t)
  show ?case
  proof (cases "t = NULLNODE")
    case True
    then show ?thesis by (simp add: remove_it.simps [of NULLNODE] drop_entry_def)
  next
    case nn: False
    then obtain c l k v r where t: "t = RBNode c l k v r" by (cases t) auto
    consider "key < k" | "k \<le> key" "is_red l" | "k \<le> key" "\<not> is_red l" "r = NULLNODE" | "k \<le> key" "\<not> is_red l" "r \<noteq> NULLNODE"
      by force
    then show ?thesis
    proof cases
      case 1
      then have "llrb t" using less.prems(2) t by (auto simp: descend_def)
      then show ?thesis using remove_it_less [OF less.prems(1) _ nn, of key] 1 t less.IH by simp
    next
      case 2
      then obtain ll lk lv lr where l: "l = RBNode Red ll lk lv lr" by (cases l) auto
      let ?t = "RBNode c ll lk lv (RBNode Red lr k v r)"
      have o: "ordered ?t" using less.prems(1) t l ordered_cong [of ?t t] by simp
      have ll: "llrb (RBNode Red lr k v r)" using less.prems(2) t l by (auto simp: descend_def)
      have "lk < key" using less.prems(1) t l 2(1) by auto
      moreover from this have "lk \<le> key" by simp
      moreover have "size (RBNode Red lr k v r) < size t" using t l by simp
      ultimately obtain t' where t': "remove_right ?t key = Some t'" "entries t' = drop_entry key (entries ?t)"
        using remove_right_ok [OF o, of key] less.IH [of "RBNode Red lr k v r"] o ll by (auto simp: descend_def)
      have "remove_it t key = Some t'"
        using remove_it_ge [OF nn, of key] t l 2(1) t'(1) \<open>lk < key\<close> by auto
      then show ?thesis using t'(2) t l by simp
    next
      case 3
      then have "l = NULLNODE" using less.prems(2) t bheight_0 [of l] by (auto simp: descend_def)
      obtain t' where t': "rb_balance t = Some t'" using rb_balance_total [OF nn] by blast
      show ?thesis
        using remove_it_ge [OF nn, of key] t t' 3 \<open>l = NULLNODE\<close> entries_rb_balance [OF t'] by (auto simp: drop_entry_def)
    next
      case 4
      then show ?thesis using remove_it_right [OF less.prems(1) nn, of key] t less.prems(2) less.IH by simp
    qed
  qed
qed

section \<open>Depth\<close>

fun height :: "rbnode \<Rightarrow> nat" where
  "height NULLNODE = 0"
| "height (RBNode c l k v r) = Suc (max (height l) (height r))"

lemma llrb_height: "llrb t \<Longrightarrow> height t \<le> 2 * bheight t + (if is_red t then 1 else 0)"
proof (induction t)
  case (RBNode c l k v r)
  then show ?case by (cases c) (auto split: if_splits)
qed simp

lemma llrb_size: "llrb t \<Longrightarrow> 2 ^ bheight t \<le> Suc (length (entries t))"
proof (induction t)
  case (RBNode c l k v r)
  then show ?case by (cases c) auto
qed simp

lemma llrb_blacken: "llrb_weak t \<Longrightarrow> llrb (blacken t)"
  by (cases t) auto

lemma blacken_simps [simp]: "entries (blacken t) = entries t" "\<not> is_red (blacken t)"
  by (cases t; simp)+

text \<open>The trees the run queue keeps: balanced, ordered, with a black root.\<close>

definition rb_ok :: "rbnode \<Rightarrow> bool" where
  "rb_ok t \<longleftrightarrow> llrb t \<and> ordered t \<and> \<not> is_red t"

lemma rb_insert_eq:
  assumes "rb_ok t"
  shows "\<exists>t'. rb_insert True (Some t) key val = Some (Some t') \<and> rb_ok t' \<and> entries t' = put_entry key val (entries t)"
proof -
  obtain t1 where t1: "insert_this True t key val = Some t1" "llrb_weak t1"
    using insert_this_ok [of t True key val] assms by (auto simp: rb_ok_def)
  have e: "entries t1 = put_entry key val (entries t)"
    using insert_this_entries [OF _ t1(1)] assms by (simp add: rb_ok_def)
  have "ordered t1"
    using assms unfolding ordered_iff rb_ok_def e put_entry_def
    by (auto simp: sorted_wrt_append sorted_wrt_filter intro: less_trans)
  then show ?thesis
    using t1 e ordered_cong [of "blacken t1" t1] by (auto simp: rb_insert_def rb_ok_def llrb_blacken)
qed

lemma rb_find_entries: "ordered t \<Longrightarrow> rb_find (Some t) key = map_of (entries t) key"
  by (simp add: rb_find_def find_from_entries)

section \<open>Properties\<close>

text \<open>
  C5. Insertion: on a balanced, ordered tree \<open>rb_insert\<close> never dereferences NULL, keeps the
  tree balanced and ordered, and afterwards \<open>rb_find\<close> gives the new value for the key and
  what it gave before for every other key.\<close>

theorem rb_insert_correct:
  assumes "rb_ok t"
  shows "\<exists>t'. rb_insert True (Some t) key val = Some (Some t') \<and> rb_ok t'
    \<and> (\<forall>x. rb_find (Some t') x = (if x = key then Some val else rb_find (Some t) x))"
proof -
  obtain t' where t': "rb_insert True (Some t) key val = Some (Some t')" "rb_ok t'"
    "entries t' = put_entry key val (entries t)" using rb_insert_eq [OF assms] by blast
  then show ?thesis
    using rb_find_entries map_of_put [of "entries t" key val] assms
    by (auto simp: rb_ok_def ordered_iff)
qed

lemma rb_insert_correct_witness:
  "\<exists>t'. rb_insert True (Some NULLNODE) 7 8 = Some (Some t') \<and> rb_find (Some t') 7 = Some 8"
  using rb_insert_correct [of NULLNODE 7 8] by (auto simp: rb_ok_def)

text \<open>A sequence of insertions.\<close>

fun rb_inserts :: "(u64 \<times> u64) list \<Rightarrow> rbnode option \<Rightarrow> rbnode option option" where
  "rb_inserts [] tree = Some tree"
| "rb_inserts ((k, v) # es) tree = Option.bind (rb_insert True tree k v) (rb_inserts es)"

lemma rb_inserts_ok:
  "rb_ok t \<Longrightarrow> \<exists>t'. rb_inserts es (Some t) = Some (Some t') \<and> rb_ok t'
     \<and> map_of (entries t') = map_of (entries t) ++ map_of (rev es)"
proof (induction es arbitrary: t)
  case (Cons e es)
  obtain k v where e: "e = (k, v)" by fastforce
  obtain t1 where t1: "rb_insert True (Some t) k v = Some (Some t1)" "rb_ok t1"
    "entries t1 = put_entry k v (entries t)" using rb_insert_eq [OF Cons.prems] by blast
  have "map_of (entries t1) = (map_of (entries t))(k \<mapsto> v)"
    using map_of_put Cons.prems t1(3) by (simp add: rb_ok_def ordered_iff)
  then have m: "map_of (entries t) ++ map_of (rev (e # es)) = map_of (entries t1) ++ map_of (rev es)"
    by (intro ext) (auto simp: e map_add_def split: option.splits)
  obtain t' where "rb_inserts es (Some t1) = Some (Some t')" "rb_ok t'"
    "map_of (entries t') = map_of (entries t1) ++ map_of (rev es)" using Cons.IH [OF t1(2)] by blast
  then show ?case using t1(1) unfolding m by (simp add: e)
qed auto




text \<open>
  Removal does not keep the tree balanced, and later removals break: after inserting the
  keys 0 to 5, removing 3 and then 0 succeeds, and removing the key 1, which is in the tree,
  dereferences NULL.\<close>

theorem rb_delete_breaks:
  "\<exists>t t1 t2. rb_inserts [(0, 0), (1, 1), (2, 2), (3, 3), (4, 4), (5, 5)] (Some NULLNODE) = Some t
     \<and> rb_delete t 3 = Some t1 \<and> rb_delete t1 0 = Some t2 \<and> rb_find t2 1 = Some 1 \<and> rb_delete t2 1 = None"
proof -
  have "(case rb_inserts [(0, 0), (1, 1), (2, 2), (3, 3), (4, 4), (5, 5)] (Some NULLNODE) of None \<Rightarrow> False
    | Some t \<Rightarrow> (case rb_delete t 3 of None \<Rightarrow> False
    | Some t1 \<Rightarrow> (case rb_delete t1 0 of None \<Rightarrow> False
    | Some t2 \<Rightarrow> rb_find t2 1 = Some 1 \<and> rb_delete t2 1 = None)))"
    by code_simp
  then show ?thesis by (auto split: option.splits)
qed

end
