(* ===== verification/Strings.thy ===== *)
theory Strings
  imports Memory "HOL-Library.Signed_Division" "HOL-Library.List_Lexorder"
begin

text \<open>
  The C string helpers of the kernel (src/src/strhelp.c) and of the user library
  (user/libc/string.c), on zero-terminated strings in byte memory. \<open>None\<close> is a loop that
  never ends or an int that overflows. The lemmas relate each loop to the list of bytes of
  the string, and the word-wise and unrolled routines to byte-wise ones.
\<close>

section \<open>strhelp.c\<close>

definition is_digit :: "u8 \<Rightarrow> bool" where
  "is_digit c \<longleftrightarrow> 48 \<le> c \<and> c \<le> 57"

text \<open>\<open>atoi\<close>: the first loop counts the digits, the second adds them up from the last one.\<close>

partial_function (option) atoi_length :: "mem \<Rightarrow> u64 \<Rightarrow> nat \<Rightarrow> nat option" where
  "atoi_length m st l =
     (if is_digit (m (st + of_nat l))
      then (if l + 1 = 2 ^ 31 then None else atoi_length m st (l + 1))
      else Some l)"

fun atoi_sum :: "mem \<Rightarrow> u64 \<Rightarrow> nat \<Rightarrow> u32 \<Rightarrow> u32 \<Rightarrow> u32" where
  "atoi_sum m st 0 r p = r"
| "atoi_sum m st (Suc i) r p = atoi_sum m st i (r + p * (ucast (m (st + of_nat i)) - 48)) (p * 10)"

definition atoi :: "mem \<Rightarrow> u64 \<Rightarrow> u32 option" where
  "atoi m st =
     (let (st, n) = (if m st = 45 then (st + 1, True) else (st, False))
      in map_option (\<lambda>l. let r = atoi_sum m st l 0 1 in if n then - r else r) (atoi_length m st 0))"

partial_function (option) strcmp :: "mem \<Rightarrow> u64 \<Rightarrow> u64 \<Rightarrow> u32 option" where
  "strcmp m l r =
     (let c1 = ucast (m l); c2 = ucast (m r)
      in if c1 = 0 then Some (c1 - c2)
         else if c1 = c2 then strcmp m (l + 1) (r + 1)
         else Some (c1 - c2))"

text \<open>
  \<open>strncmp\<close>: the unrolled loop runs \<open>n4\<close> times four characters; both loops carry the last
  two characters read, and \<open>Inl\<close> is a return from inside.
\<close>

definition cmp_char :: "mem \<Rightarrow> u64 \<Rightarrow> u64 \<Rightarrow> u32 + u64 \<times> u64 \<times> u32 \<times> u32" where
  "cmp_char m left right =
     (let c1 = ucast (m left); c2 = ucast (m right)
      in if c1 = 0 \<or> c1 \<noteq> c2 then Inl (c1 - c2) else Inr (left + 1, right + 1, c1, c2))"

fun cmp_quads :: "mem \<Rightarrow> nat \<Rightarrow> u64 \<Rightarrow> u64 \<Rightarrow> u32 \<Rightarrow> u32 \<Rightarrow> u32 + u64 \<times> u64 \<times> u32 \<times> u32" where
  "cmp_quads m 0 left right c1 c2 = Inr (left, right, c1, c2)"
| "cmp_quads m (Suc n4) left right c1 c2 =
     (case cmp_char m left right of Inl x \<Rightarrow> Inl x | Inr (left, right, c1, c2) \<Rightarrow>
     (case cmp_char m left right of Inl x \<Rightarrow> Inl x | Inr (left, right, c1, c2) \<Rightarrow>
     (case cmp_char m left right of Inl x \<Rightarrow> Inl x | Inr (left, right, c1, c2) \<Rightarrow>
     (case cmp_char m left right of Inl x \<Rightarrow> Inl x | Inr (left, right, c1, c2) \<Rightarrow>
        cmp_quads m n4 left right c1 c2))))"

fun cmp_rest :: "mem \<Rightarrow> nat \<Rightarrow> u64 \<Rightarrow> u64 \<Rightarrow> u32 \<Rightarrow> u32 \<Rightarrow> u32" where
  "cmp_rest m 0 left right c1 c2 = c1 - c2"
| "cmp_rest m (Suc n) left right c1 c2 =
     (case cmp_char m left right of Inl x \<Rightarrow> x
      | Inr (left, right, c1, c2) \<Rightarrow> cmp_rest m n left right c1 c2)"

definition strncmp :: "mem \<Rightarrow> u64 \<Rightarrow> u64 \<Rightarrow> int \<Rightarrow> u32" where
  "strncmp m left right n =
     (if 4 \<le> n then
        (case cmp_quads m (nat (n div 4)) left right 0 0 of Inl x \<Rightarrow> x
         | Inr (left, right, c1, c2) \<Rightarrow> cmp_rest m (nat (n mod 4)) left right c1 c2)
      else cmp_rest m (nat n) left right 0 0)"

partial_function (option) strfindchr_from :: "mem \<Rightarrow> u64 \<Rightarrow> u8 \<Rightarrow> nat \<Rightarrow> int option" where
  "strfindchr_from m r t i =
     (if m (r + of_nat i) \<noteq> t then
        (if m (r + of_nat i) = 0 then Some (- 1)
         else if i + 1 = 2 ^ 31 then None else strfindchr_from m r t (i + 1))
      else Some (int i))"

definition strfindchr :: "mem \<Rightarrow> u64 \<Rightarrow> u8 \<Rightarrow> int option" where
  "strfindchr m r t = strfindchr_from m r t 0"

partial_function (option) strlen_from :: "mem \<Rightarrow> u64 \<Rightarrow> nat \<Rightarrow> nat option" where
  "strlen_from m s len =
     (if m (s + of_nat len) \<noteq> 0
      then (if len + 1 = 2 ^ 31 then None else strlen_from m s (len + 1))
      else Some len)"

definition strlen :: "mem \<Rightarrow> u64 \<Rightarrow> nat option" where
  "strlen m s = strlen_from m s 0"

text \<open>\<open>strcpy\<close> and \<open>strchr\<close>; the first gives the memory (it returns its argument).\<close>

partial_function (option) strcpy :: "mem \<Rightarrow> u64 \<Rightarrow> u64 \<Rightarrow> mem option" where
  "strcpy m dest s =
     (if m s \<noteq> 0 then strcpy (m(dest := m s)) (dest + 1) (s + 1) else Some (m(dest := 0)))"

partial_function (option) strchr :: "mem \<Rightarrow> u64 \<Rightarrow> u32 \<Rightarrow> u64 option" where
  "strchr m s c =
     (if m s \<noteq> ucast c then (if m s = 0 then Some NULL else strchr m (s + 1) c) else Some s)"

section \<open>user/libc/string.c\<close>

text \<open>The word-wise \<open>memset\<close> and \<open>memcpy\<close>: \<open>size / 8\<close> doublewords, then \<open>size % 8\<close> bytes.\<close>

definition bytes8 :: "u8 \<Rightarrow> u64" where
  "bytes8 data = load64 (\<lambda>_. data) 0"

fun set_longs :: "mem \<Rightarrow> nat \<Rightarrow> u64 \<Rightarrow> u64 \<Rightarrow> mem \<times> u64" where
  "set_longs m 0 ldst l = (m, ldst)"
| "set_longs m (Suc n) ldst l = set_longs (store64 m ldst l) n (ldst + 8) l"

fun set_chars :: "mem \<Rightarrow> nat \<Rightarrow> u64 \<Rightarrow> u8 \<Rightarrow> mem" where
  "set_chars m 0 cdst c = m"
| "set_chars m (Suc n) cdst c = set_chars (m(cdst := c)) n (cdst + 1) c"

definition user_memset :: "mem \<Rightarrow> u64 \<Rightarrow> u8 \<Rightarrow> int \<Rightarrow> mem" where
  "user_memset m dst data sz =
     (let (m, cdst) = set_longs m (nat (sz sdiv 8)) dst (bytes8 data)
      in set_chars m (nat (sz smod 8)) cdst data)"

fun copy_longs :: "mem \<Rightarrow> nat \<Rightarrow> u64 \<Rightarrow> u64 \<Rightarrow> mem \<times> u64 \<times> u64" where
  "copy_longs m 0 ldst lsrc = (m, ldst, lsrc)"
| "copy_longs m (Suc n) ldst lsrc = copy_longs (store64 m ldst (load64 m lsrc)) n (ldst + 8) (lsrc + 8)"

fun copy_chars :: "mem \<Rightarrow> nat \<Rightarrow> u64 \<Rightarrow> u64 \<Rightarrow> mem" where
  "copy_chars m 0 cdst csrc = m"
| "copy_chars m (Suc n) cdst csrc = copy_chars (m(cdst := m csrc)) n (cdst + 1) (csrc + 1)"

definition user_memcpy :: "mem \<Rightarrow> u64 \<Rightarrow> u64 \<Rightarrow> int \<Rightarrow> mem" where
  "user_memcpy m dst src sz =
     (let (m, cdst, csrc) = copy_longs m (nat (sz sdiv 8)) dst src
      in copy_chars m (nat (sz smod 8)) cdst csrc)"

text \<open>The other routines have the text of the kernel's.\<close>

fun user_memcmp_from :: "nat \<Rightarrow> mem \<Rightarrow> u64 \<Rightarrow> u64 \<Rightarrow> u64 \<Rightarrow> bool" where
  "user_memcmp_from 0 m hay need i = True"
| "user_memcmp_from (Suc n) m hay need i =
     (if m (hay + i) \<noteq> m (need + i) then False else user_memcmp_from n m hay need (i + 1))"

definition user_memcmp :: "mem \<Rightarrow> u64 \<Rightarrow> u64 \<Rightarrow> int \<Rightarrow> bool" where
  "user_memcmp m haystack needle sz = user_memcmp_from (nat sz) m haystack needle 0"

partial_function (option) user_atoi_length :: "mem \<Rightarrow> u64 \<Rightarrow> nat \<Rightarrow> nat option" where
  "user_atoi_length m st l =
     (if is_digit (m (st + of_nat l))
      then (if l + 1 = 2 ^ 31 then None else user_atoi_length m st (l + 1))
      else Some l)"

fun user_atoi_sum :: "mem \<Rightarrow> u64 \<Rightarrow> nat \<Rightarrow> u32 \<Rightarrow> u32 \<Rightarrow> u32" where
  "user_atoi_sum m st 0 r p = r"
| "user_atoi_sum m st (Suc i) r p = user_atoi_sum m st i (r + p * (ucast (m (st + of_nat i)) - 48)) (p * 10)"

definition user_atoi :: "mem \<Rightarrow> u64 \<Rightarrow> u32 option" where
  "user_atoi m st =
     (let (st, n) = (if m st = 45 then (st + 1, True) else (st, False))
      in map_option (\<lambda>l. let r = user_atoi_sum m st l 0 1 in if n then - r else r) (user_atoi_length m st 0))"

partial_function (option) user_strcmp :: "mem \<Rightarrow> u64 \<Rightarrow> u64 \<Rightarrow> u32 option" where
  "user_strcmp m l r =
     (let c1 = ucast (m l); c2 = ucast (m r)
      in if c1 = 0 then Some (c1 - c2)
         else if c1 = c2 then user_strcmp m (l + 1) (r + 1)
         else Some (c1 - c2))"

definition user_cmp_char :: "mem \<Rightarrow> u64 \<Rightarrow> u64 \<Rightarrow> u32 + u64 \<times> u64 \<times> u32 \<times> u32" where
  "user_cmp_char m left right =
     (let c1 = ucast (m left); c2 = ucast (m right)
      in if c1 = 0 \<or> c1 \<noteq> c2 then Inl (c1 - c2) else Inr (left + 1, right + 1, c1, c2))"

fun user_cmp_quads :: "mem \<Rightarrow> nat \<Rightarrow> u64 \<Rightarrow> u64 \<Rightarrow> u32 \<Rightarrow> u32 \<Rightarrow> u32 + u64 \<times> u64 \<times> u32 \<times> u32" where
  "user_cmp_quads m 0 left right c1 c2 = Inr (left, right, c1, c2)"
| "user_cmp_quads m (Suc n4) left right c1 c2 =
     (case user_cmp_char m left right of Inl x \<Rightarrow> Inl x | Inr (left, right, c1, c2) \<Rightarrow>
     (case user_cmp_char m left right of Inl x \<Rightarrow> Inl x | Inr (left, right, c1, c2) \<Rightarrow>
     (case user_cmp_char m left right of Inl x \<Rightarrow> Inl x | Inr (left, right, c1, c2) \<Rightarrow>
     (case user_cmp_char m left right of Inl x \<Rightarrow> Inl x | Inr (left, right, c1, c2) \<Rightarrow>
        user_cmp_quads m n4 left right c1 c2))))"

fun user_cmp_rest :: "mem \<Rightarrow> nat \<Rightarrow> u64 \<Rightarrow> u64 \<Rightarrow> u32 \<Rightarrow> u32 \<Rightarrow> u32" where
  "user_cmp_rest m 0 left right c1 c2 = c1 - c2"
| "user_cmp_rest m (Suc n) left right c1 c2 =
     (case user_cmp_char m left right of Inl x \<Rightarrow> x
      | Inr (left, right, c1, c2) \<Rightarrow> user_cmp_rest m n left right c1 c2)"

definition user_strncmp :: "mem \<Rightarrow> u64 \<Rightarrow> u64 \<Rightarrow> int \<Rightarrow> u32" where
  "user_strncmp m left right n =
     (if 4 \<le> n then
        (case user_cmp_quads m (nat (n div 4)) left right 0 0 of Inl x \<Rightarrow> x
         | Inr (left, right, c1, c2) \<Rightarrow> user_cmp_rest m (nat (n mod 4)) left right c1 c2)
      else user_cmp_rest m (nat n) left right 0 0)"

partial_function (option) user_strfindchr_from :: "mem \<Rightarrow> u64 \<Rightarrow> u8 \<Rightarrow> nat \<Rightarrow> int option" where
  "user_strfindchr_from m r t i =
     (if m (r + of_nat i) \<noteq> t then
        (if m (r + of_nat i) = 0 then Some (- 1)
         else if i + 1 = 2 ^ 31 then None else user_strfindchr_from m r t (i + 1))
      else Some (int i))"

definition user_strfindchr :: "mem \<Rightarrow> u64 \<Rightarrow> u8 \<Rightarrow> int option" where
  "user_strfindchr m r t = user_strfindchr_from m r t 0"

partial_function (option) user_strlen_from :: "mem \<Rightarrow> u64 \<Rightarrow> nat \<Rightarrow> nat option" where
  "user_strlen_from m s len =
     (if m (s + of_nat len) \<noteq> 0
      then (if len + 1 = 2 ^ 31 then None else user_strlen_from m s (len + 1))
      else Some len)"

definition user_strlen :: "mem \<Rightarrow> u64 \<Rightarrow> nat option" where
  "user_strlen m s = user_strlen_from m s 0"

section \<open>Strings as lists of bytes\<close>

fun cstring :: "mem \<Rightarrow> u64 \<Rightarrow> u8 list \<Rightarrow> bool" where
  "cstring m s [] \<longleftrightarrow> m s = 0"
| "cstring m s (x # xs) \<longleftrightarrow> m s = x \<and> x \<noteq> 0 \<and> cstring m (s + 1) xs"

lemma strlen_from_cstring:
  "cstring m (s + of_nat len) xs \<Longrightarrow> len + length xs < 2 ^ 31 \<Longrightarrow> strlen_from m s len = Some (len + length xs)"
proof (induction xs arbitrary: len)
  case (Cons x xs)
  then have "strlen_from m s (len + 1) = Some (len + 1 + length xs)" by (simp add: ac_simps)
  with Cons.prems show ?case by (simp add: strlen_from.simps [of m s len])
qed (simp add: strlen_from.simps)

lemma strlen_cstring: "cstring m s xs \<Longrightarrow> length xs < 2 ^ 31 \<Longrightarrow> strlen m s = Some (length xs)"
  using strlen_from_cstring [of m s 0 xs] by (simp add: strlen_def)

text \<open>The first place of a character, as \<open>strfindchr\<close> reports it.\<close>

fun index_of :: "u8 \<Rightarrow> u8 list \<Rightarrow> int" where
  "index_of t [] = (if t = 0 then 0 else - 1)"
| "index_of t (x # xs) = (if x = t then 0 else let i = index_of t xs in if i = - 1 then - 1 else i + 1)"

lemma index_of_ge: "- 1 \<le> index_of t xs"
  by (induction xs) (auto simp: Let_def)

lemma strfindchr_from_cstring:
  "cstring m (r + of_nat i) xs \<Longrightarrow> i + length xs < 2 ^ 31 \<Longrightarrow>
     strfindchr_from m r t i = Some (if index_of t xs = - 1 then - 1 else int i + index_of t xs)"
proof (induction xs arbitrary: i)
  case Nil
  then show ?case by (simp add: strfindchr_from.simps)
next
  case (Cons x xs)
  then have "strfindchr_from m r t (i + 1) = Some (if index_of t xs = - 1 then - 1 else int (i + 1) + index_of t xs)"
    by (simp add: ac_simps)
  with Cons.prems index_of_ge [of t xs] show ?case
    by (auto simp: strfindchr_from.simps [of m r t i] Let_def)
qed

lemma strfindchr_cstring:
  "cstring m r xs \<Longrightarrow> length xs < 2 ^ 31 \<Longrightarrow> strfindchr m r t = Some (index_of t xs)"
  using strfindchr_from_cstring [of m r 0 xs t] by (simp add: strfindchr_def)

text \<open>Comparison is lexicographic on the bytes.\<close>

lemma uint_ucast_32: "uint (ucast (x :: u8) :: u32) = uint x"
  by (simp add: unsigned_ucast_eq take_bit_int_eq_self order_less_le_trans [OF unsigned_less])

lemma sint_diff_bytes: "sint (ucast x - ucast y :: u32) = uint (x :: u8) - uint (y :: u8)"
proof -
  have b: "0 \<le> uint z \<and> uint z < 256" for z :: u8
  proof -
    have "uint z < 2 ^ LENGTH(8)" by (rule unsigned_less)
    then show ?thesis by simp
  qed
  have "(ucast x - ucast y :: u32) = word_of_int (uint x - uint y)"
    by (simp add: uint_ucast_32 flip: word_of_int_uint)
  moreover have "- 2147483648 \<le> uint x - uint y" "uint x - uint y < 2147483648"
    using b [of x] b [of y] by linarith+
  ultimately show ?thesis using sint_of_int32 [of "uint x - uint y"] by simp
qed

definition agrees :: "u32 \<Rightarrow> u8 list \<Rightarrow> u8 list \<Rightarrow> bool" where
  "agrees c xs ys \<longleftrightarrow> (sint c < 0 \<longleftrightarrow> xs < ys) \<and> (sint c = 0 \<longleftrightarrow> xs = ys)"

lemma less_byte: "(x::u8) < y \<longleftrightarrow> uint x < uint y"
  by (simp add: word_less_def)

lemma agrees_step: "(x::u8) \<noteq> y \<Longrightarrow> agrees (ucast x - ucast y) (x # xs) (y # ys)"
  by (auto simp: agrees_def sint_diff_bytes less_byte word_uint_eq_iff)

lemma ucast_0_iff: "(ucast (x :: u8) :: u32) = 0 \<longleftrightarrow> x = 0"
  using uint_ucast_32 [of x] by (metis uint_0_iff)

lemma ucast_eq_iff: "(ucast (x :: u8) :: u32) = ucast y \<longleftrightarrow> x = y"
  using uint_ucast_32 by (metis word_uint_eq_iff)

lemma strcmp_cstring:
  "cstring m l xs \<Longrightarrow> cstring m r ys \<Longrightarrow> \<exists>c. strcmp m l r = Some c \<and> agrees c xs ys"
proof (induction xs arbitrary: l r ys)
  case Nil
  have "0 < uint y" if "y \<noteq> 0" for y :: u8 using that by (metis uint_0_iff uint_ge_0 order_le_less)
  with Nil show ?case
    by (cases ys) (auto simp: strcmp.simps [of m l r] agrees_def sint_diff_bytes [of 0, simplified] Let_def uint_0_iff)
next
  case (Cons x xs)
  show ?case
  proof (cases ys)
    case Nil
    have "0 < uint x" using Cons.prems by (metis cstring.simps(2) uint_0_iff uint_ge_0 order_le_less)
    then show ?thesis
      using Cons.prems Nil sint_diff_bytes [of x 0]
      by (auto simp: strcmp.simps [of m l r] agrees_def Let_def ucast_0_iff)
  next
    case (Cons y zs)
    show ?thesis
    proof (cases "x = y")
      case True
      then obtain c where "strcmp m (l + 1) (r + 1) = Some c" "agrees c xs zs"
        using Cons.IH [of "l + 1" "r + 1" zs] Cons.prems Cons by auto
      then show ?thesis
        using Cons.prems Cons True by (auto simp: strcmp.simps [of m l r] agrees_def Let_def ucast_0_iff)
    next
      case False
      then show ?thesis
        using Cons.prems Cons agrees_step [OF False, of xs zs]
        by (auto simp: strcmp.simps [of m l r] Let_def ucast_0_iff ucast_eq_iff)
    qed
  qed
qed

text \<open>The unrolled comparison is the plain one.\<close>

lemma cmp_quads_rest:
  "(case cmp_quads m n4 left right c1 c2 of Inl x \<Rightarrow> x
    | Inr (left, right, c1, c2) \<Rightarrow> cmp_rest m k left right c1 c2) = cmp_rest m (4 * n4 + k) left right c1 c2"
proof (induction n4 arbitrary: left right c1 c2)
  case (Suc n4)
  have e: "4 * Suc n4 + k = Suc (Suc (Suc (Suc (4 * n4 + k))))" by simp
  show ?case unfolding e using Suc by (simp split: sum.split prod.split)
qed simp

lemma strncmp_eq: "strncmp m left right n = cmp_rest m (nat n) left right 0 0"
proof (cases "4 \<le> n")
  case True
  then have "4 * nat (n div 4) + nat (n mod 4) = nat n" by (simp add: nat_div_distrib nat_mod_distrib)
  then show ?thesis using True cmp_quads_rest [of m "nat (n mod 4)" "nat (n div 4)" left right 0 0]
    by (simp add: strncmp_def)
qed (simp add: strncmp_def)

section \<open>Doublewords as bytes\<close>

lemma within_8: "within a d 8 \<longleftrightarrow> (\<exists>k \<in> {0, 1, 2, 3, 4, 5, 6, 7}. a = d + k)"
proof
  assume w: "within a d 8"
  obtain n where n: "n = unat (a - d)" by blast
  then have "n \<in> {0, 1, 2, 3, 4, 5, 6, 7}" using w unfolding within_def by auto
  moreover have "a - d = of_nat n" using n by simp
  ultimately have "a - d \<in> {0, 1, 2, 3, 4, 5, 6, 7}" by auto
  then show "\<exists>k \<in> {0, 1, 2, 3, 4, 5, 6, 7}. a = d + k" by (intro bexI [of _ "a - d"]) simp_all
qed (auto simp: within_def)

lemma store64_apply:
  "store64 m d v a = (if within a d 8 then ucast (drop_bit (8 * unat (a - d)) v) else m a)"
proof (cases "within a d 8")
  case True
  then show ?thesis by (auto simp: within_8 store64_def fun_upd_apply)
next
  case False
  then have "store64 m d v a = m a" by (intro store64_other) (auto simp: within_def)
  with False show ?thesis by simp
qed

lemma load64_byte:
  assumes "k < 8"
  shows "(ucast (drop_bit (8 * k) (load64 m s)) :: u8) = m (s + of_nat k)"
proof -
  have "k \<in> {0, 1, 2, 3, 4, 5, 6, 7}" using assms by auto
  then show ?thesis
    by (elim insertE emptyE; simp only: mult_0_right)
      (rule bit_word_eqI, auto simp: load64_def bit_simps dest: bit_imp_le_length)+
qed

lemma within_add:
  assumes "j + n \<le> 2 ^ 64"
  shows "within a d (j + n) \<longleftrightarrow> within a d j \<or> within a (d + of_nat j) n"
proof (cases "unat (a - d) < j")
  case False
  show ?thesis
  proof (cases "j < 2 ^ 64")
    case True
    have "a - (d + of_nat j) = (a - d) - of_nat j" by (simp add: algebra_simps)
    moreover have j: "unat (of_nat j :: u64) = j" using True by (simp add: unat_of_nat)
    moreover have "unat ((a - d) - of_nat j) = unat (a - d) - j"
      using False j unat_sub [of "of_nat j" "a - d"] by (simp only: word_le_nat_alt)
    ultimately have "unat (a - (d + of_nat j)) = unat (a - d) - j" by (simp only:)
    then show ?thesis using False by (auto simp: within_def)
  next
    case False
    have "unat (a - d) < 2 ^ LENGTH(64)" by (rule unsigned_less)
    then show ?thesis using False assms by (auto simp: within_def)
  qed
qed (simp add: within_def)


text \<open>The loops of the kernel's routines, cut in two.\<close>

lemma memset_from_add:
  "memset_from (j + n) m d v i = memset_from n (memset_from j m d v i) d v (i + of_nat j)"
  by (induction j arbitrary: m i) (simp_all add: ac_simps)

lemma memcpy_from_add:
  "memcpy_from (j + n) m d s i = memcpy_from n (memcpy_from j m d s i) d s (i + of_nat j)"
  by (induction j arbitrary: m i) (simp_all add: ac_simps)

lemma set_chars_eq: "set_chars m n (d + i) v = memset_from n m d v i"
  by (induction n arbitrary: m i) (simp_all add: add.assoc)

lemma copy_chars_eq: "copy_chars m n (d + i) (s + i) = memcpy_from n m d s i"
  by (induction n arbitrary: m i) (simp_all add: add.assoc)

lemma store_bytes8: "store64 m (d + i) (bytes8 v) = memset_from 8 m d v i"
proof
  fix a
  have "(ucast (drop_bit (8 * unat (a - (d + i))) (bytes8 v)) :: u8) = v" if "within a (d + i) 8"
    using that load64_byte [of "unat (a - (d + i))" "\<lambda>_. v" 0] by (simp add: bytes8_def within_def)
  then show "store64 m (d + i) (bytes8 v) a = memset_from 8 m d v i a"
    by (simp add: store64_apply memset_from_apply)
qed

lemma set_longs_eq:
  "set_longs m n (d + i) (bytes8 v) = (memset_from (8 * n) m d v i, d + i + of_nat (8 * n))"
proof (induction n arbitrary: m i)
  case (Suc n)
  have "set_longs (store64 m (d + i) (bytes8 v)) n (d + i + 8) (bytes8 v) =
      (memset_from (8 * n) (memset_from 8 m d v i) d v (i + 8), d + (i + 8) + of_nat (8 * n))"
    using Suc [of _ "i + 8"] by (simp add: store_bytes8 add.assoc)
  then show ?case using memset_from_add [of 8 "8 * n" m d v i] by (simp add: ac_simps)
qed simp

lemma store_load64:
  assumes "\<And>k. k < 8 \<Longrightarrow> \<not> within (s + i + of_nat k) (d + i) 8"
  shows "store64 m (d + i) (load64 m (s + i)) = memcpy_from 8 m d s i"
proof
  fix a
  have "(ucast (drop_bit (8 * unat (a - (d + i))) (load64 m (s + i))) :: u8) = m (s + (a - d))"
    if "within a (d + i) 8"
    using that load64_byte [of "unat (a - (d + i))" m "s + i"] by (simp add: within_def algebra_simps)
  then show "store64 m (d + i) (load64 m (s + i)) a = memcpy_from 8 m d s i a"
    using assms by (simp add: store64_apply memcpy_from_apply)
qed

text \<open>\<open>disjoint s d n\<close>: no source byte is a destination byte.\<close>

definition disjoint :: "u64 \<Rightarrow> u64 \<Rightarrow> nat \<Rightarrow> bool" where
  "disjoint s d n \<longleftrightarrow> (\<forall>k<n. \<not> within (s + of_nat k) d n)"

lemma disjoint_part:
  assumes "disjoint s d N" "j + n \<le> N" "N \<le> 2 ^ 64" "k < n"
  shows "\<not> within (s + of_nat j + of_nat k) (d + of_nat j) n"
proof
  assume "within (s + of_nat j + of_nat k) (d + of_nat j) n"
  then have "within (s + of_nat (j + k)) d (j + n)"
    using assms by (subst within_add) (auto simp: add.assoc)
  then have "within (s + of_nat (j + k)) d N" using assms(2) by (auto simp: within_def)
  moreover have "j + k < N" using assms by simp
  ultimately show False using assms(1) unfolding disjoint_def by blast
qed

lemma copy_longs_eq:
  assumes "disjoint s d N" "N \<le> 2 ^ 64"
  shows "j + 8 * n \<le> N \<Longrightarrow> copy_longs m n (d + of_nat j) (s + of_nat j) =
    (memcpy_from (8 * n) m d s (of_nat j), d + of_nat (j + 8 * n), s + of_nat (j + 8 * n))"
proof (induction n arbitrary: m j)
  case (Suc n)
  have st: "store64 m (d + of_nat j) (load64 m (s + of_nat j)) = memcpy_from 8 m d s (of_nat j)"
    by (rule store_load64) (rule disjoint_part [OF assms(1) _ assms(2)], use Suc.prems in simp_all)
  have "copy_longs (memcpy_from 8 m d s (of_nat j)) n (d + of_nat (j + 8)) (s + of_nat (j + 8)) =
      (memcpy_from (8 * n) (memcpy_from 8 m d s (of_nat j)) d s (of_nat (j + 8)),
       d + of_nat (j + 8 + 8 * n), s + of_nat (j + 8 + 8 * n))"
    using Suc.prems by (intro Suc.IH) simp
  then show ?case
    using memcpy_from_add [of 8 "8 * n" m d s "of_nat j"] st by (simp add: ac_simps)
qed simp

lemma quot_rem_8:
  assumes "0 \<le> (sz::int)"
  shows "8 * nat (sz sdiv 8) + nat (sz smod 8) = nat sz"
proof -
  have "sz sdiv 8 = sz div 8" "sz smod 8 = sz mod 8"
    using assms by (cases "sz = 0"; simp add: signed_divide_int_def signed_modulo_int_def)+
  then show ?thesis using assms by (simp add: nat_div_distrib nat_mod_distrib)
qed

lemma quot_rem_8_neg: "(sz::int) < 0 \<Longrightarrow> nat (sz sdiv 8) = 0 \<and> nat (sz smod 8) = 0"
  by (auto simp: signed_divide_int_def signed_modulo_int_def sgn_if)

section \<open>Decimal numbers\<close>

fun decimal :: "u8 list \<Rightarrow> u32" where
  "decimal [] = 0"
| "decimal (x # xs) = (ucast x - 48) * 10 ^ length xs + decimal xs"

lemma decimal_snoc: "decimal (xs @ [x]) = decimal xs * 10 + (ucast x - 48)"
  by (induction xs) (simp_all add: algebra_simps)

text \<open>The bytes \<open>xs\<close> stand at \<open>s\<close>.\<close>

fun stored :: "mem \<Rightarrow> u64 \<Rightarrow> u8 list \<Rightarrow> bool" where
  "stored m s [] \<longleftrightarrow> True"
| "stored m s (x # xs) \<longleftrightarrow> m s = x \<and> stored m (s + 1) xs"

lemma stored_snoc:
  "stored m s (xs @ [x]) \<longleftrightarrow> stored m s xs \<and> m (s + of_nat (length xs)) = x"
  by (induction xs arbitrary: s) (auto simp: ac_simps)

lemma atoi_sum_stored:
  "stored m s xs \<Longrightarrow> atoi_sum m s (length xs) r p = r + p * decimal xs"
proof (induction xs arbitrary: r p rule: rev_induct)
  case (snoc x xs)
  then show ?case by (simp add: stored_snoc decimal_snoc algebra_simps)
qed simp

lemma atoi_length_stored:
  "stored m (s + of_nat l) xs \<Longrightarrow> list_all is_digit xs \<Longrightarrow>
     \<not> is_digit (m (s + of_nat (l + length xs))) \<Longrightarrow> l + length xs < 2 ^ 31 \<Longrightarrow>
     atoi_length m s l = Some (l + length xs)"
proof (induction xs arbitrary: l)
  case (Cons x xs)
  then have "atoi_length m s (l + 1) = Some (l + 1 + length xs)"
    by (intro Cons.IH) (simp_all add: ac_simps)
  with Cons.prems show ?case by (simp add: atoi_length.simps [of m s l])
qed (simp add: atoi_length.simps)

lemma atoi_number:
  assumes "stored m s xs" "list_all is_digit xs" "\<not> is_digit (m (s + of_nat (length xs)))" "length xs < 2 ^ 31"
  shows "map_option (\<lambda>l. let r = atoi_sum m s l 0 1 in if n then - r else r) (atoi_length m s 0) =
    Some (if n then - decimal xs else decimal xs)"
  using atoi_length_stored [of m s 0 xs] atoi_sum_stored [OF assms(1), of 0 1] assms by (simp add: Let_def)

section \<open>The two copies\<close>

lemma option_eqI:
  "(\<And>y. a = Some y \<Longrightarrow> b = Some y) \<Longrightarrow> (\<And>y. b = Some y \<Longrightarrow> a = Some y) \<Longrightarrow> a = b"
  by (cases a; cases b) auto

lemma user_atoi_length_eq: "user_atoi_length m s i = atoi_length m s i"
proof (rule option_eqI)
  show "atoi_length m s i = Some y" if "user_atoi_length m s i = Some y" for y
    by (rule user_atoi_length.raw_induct [OF _ that]) (subst atoi_length.simps, auto simp: Let_def split: if_splits)
  show "user_atoi_length m s i = Some y" if "atoi_length m s i = Some y" for y
    by (rule atoi_length.raw_induct [OF _ that]) (subst user_atoi_length.simps, auto simp: Let_def split: if_splits)
qed

lemma user_strcmp_eq: "user_strcmp m l r = strcmp m l r"
proof (rule option_eqI)
  show "strcmp m l r = Some y" if "user_strcmp m l r = Some y" for y
    by (rule user_strcmp.raw_induct [OF _ that]) (subst strcmp.simps, auto simp: Let_def split: if_splits)
  show "user_strcmp m l r = Some y" if "strcmp m l r = Some y" for y
    by (rule strcmp.raw_induct [OF _ that]) (subst user_strcmp.simps, auto simp: Let_def split: if_splits)
qed

lemma user_strfindchr_from_eq: "user_strfindchr_from m s t i = strfindchr_from m s t i"
proof (rule option_eqI)
  show "strfindchr_from m s t i = Some y" if "user_strfindchr_from m s t i = Some y" for y
    by (rule user_strfindchr_from.raw_induct [OF _ that]) (subst strfindchr_from.simps, auto simp: Let_def split: if_splits)
  show "user_strfindchr_from m s t i = Some y" if "strfindchr_from m s t i = Some y" for y
    by (rule strfindchr_from.raw_induct [OF _ that]) (subst user_strfindchr_from.simps, auto simp: Let_def split: if_splits)
qed

lemma user_strlen_from_eq: "user_strlen_from m s i = strlen_from m s i"
proof (rule option_eqI)
  show "strlen_from m s i = Some y" if "user_strlen_from m s i = Some y" for y
    by (rule user_strlen_from.raw_induct [OF _ that]) (subst strlen_from.simps, auto simp: Let_def split: if_splits)
  show "user_strlen_from m s i = Some y" if "strlen_from m s i = Some y" for y
    by (rule strlen_from.raw_induct [OF _ that]) (subst user_strlen_from.simps, auto simp: Let_def split: if_splits)
qed

lemma user_atoi_sum_eq: "user_atoi_sum m s i r p = atoi_sum m s i r p"
  by (induction i arbitrary: r p) simp_all

lemma user_cmp_char_eq: "user_cmp_char = cmp_char"
  unfolding user_cmp_char_def cmp_char_def ..

lemma user_cmp_quads_eq: "user_cmp_quads m n l r c d = cmp_quads m n l r c d"
  by (induction n arbitrary: l r c d) (simp_all add: user_cmp_char_eq cong: sum.case_cong prod.case_cong)

lemma user_cmp_rest_eq: "user_cmp_rest m n l r c d = cmp_rest m n l r c d"
  by (induction n arbitrary: l r c d) (simp_all add: user_cmp_char_eq cong: sum.case_cong prod.case_cong)

lemma user_strncmp_eq: "user_strncmp m l r n = strncmp m l r n"
proof -
  have "user_cmp_quads = cmp_quads" "user_cmp_rest = cmp_rest"
    by (simp_all add: fun_eq_iff user_cmp_quads_eq user_cmp_rest_eq)
  then show ?thesis unfolding user_strncmp_def strncmp_def by (simp only:)
qed

lemma user_memcmp_from_eq: "user_memcmp_from n m h d i = memcmp_from n m h d i"
  by (induction n arbitrary: i) simp_all

lemmas user_eqs = user_atoi_length_eq user_atoi_sum_eq user_strncmp_eq user_memcmp_from_eq
  user_strcmp_eq user_strfindchr_from_eq user_strlen_from_eq

section \<open>Properties\<close>

text \<open>
  On two zero-terminated strings \<open>strcmp\<close> returns, and the sign of its result is the
  lexicographic order of the bytes: negative for less, zero for equal.
\<close>

theorem strcmp_lexicographic:
  assumes "cstring m l xs" "cstring m r ys"
  shows "\<exists>c. strcmp m l r = Some c \<and> (sint c < 0 \<longleftrightarrow> xs < ys) \<and> (sint c = 0 \<longleftrightarrow> xs = ys)"
  using strcmp_cstring [OF assms] by (simp add: agrees_def)

lemma strcmp_lexicographic_witness:
  "\<exists>c. strcmp ((\<lambda>_. 0)(8 := 97, 16 := 98)) 8 16 = Some c \<and>
     (sint c < 0 \<longleftrightarrow> [97 :: u8] < [98]) \<and> (sint c = 0 \<longleftrightarrow> [97 :: u8] = [98])"
  by (rule strcmp_lexicographic) simp_all

text \<open>
  \<open>strncmp\<close>, unrolled by four with a loop for the rest, is the comparison of one
  character at a time: it returns the difference of the first two characters that differ or
  end the left string, or after \<open>n\<close> characters the difference of the last two (0 when \<open>n\<close>
  is not positive).
\<close>

theorem strncmp_plain: "strncmp m left right n = cmp_rest m (nat n) left right 0 0"
  by (rule strncmp_eq)

text \<open>
  The word-wise \<open>memset\<close> of the user library writes what the byte-wise one of the kernel
  writes, for every int size.
\<close>

theorem user_memset_bytewise: "user_memset m dst data sz = memset m dst data sz"
proof (cases "0 \<le> sz")
  case True
  have "user_memset m dst data sz = memset_from (8 * nat (sz sdiv 8) + nat (sz smod 8)) m dst data 0"
    using set_longs_eq [of m "nat (sz sdiv 8)" dst 0 data]
      set_chars_eq [of _ "nat (sz smod 8)" dst "of_nat (8 * nat (sz sdiv 8))" data]
    unfolding user_memset_def memset_from_add by (simp del: of_nat_mult)
  then show ?thesis using quot_rem_8 [OF True] by (simp add: memset_def)
qed (use quot_rem_8_neg [of sz] in \<open>simp add: user_memset_def memset_def\<close>)

text \<open>
  The word-wise \<open>memcpy\<close> of the user library copies what the byte-wise one of the kernel
  copies, when no source byte is a destination byte.
\<close>

theorem user_memcpy_bytewise:
  assumes "sz < 2 ^ 31" "\<forall>k < nat sz. \<not> within (src + of_nat k) dst (nat sz)"
  shows "user_memcpy m dst src sz = memcpy m dst src sz"
proof (cases "0 \<le> sz")
  case True
  let ?q = "nat (sz sdiv 8)" and ?r = "nat (sz smod 8)"
  have N: "8 * ?q + ?r = nat sz" by (rule quot_rem_8 [OF True])
  have "nat sz \<le> 2 ^ 64" using assms(1) by simp
  then have "copy_longs m ?q (dst + of_nat 0) (src + of_nat 0) =
      (memcpy_from (8 * ?q) m dst src (of_nat 0), dst + of_nat (0 + 8 * ?q), src + of_nat (0 + 8 * ?q))"
    using assms(2) N by (intro copy_longs_eq [of src dst "nat sz"]) (auto simp: disjoint_def)
  then have "user_memcpy m dst src sz = memcpy_from (8 * ?q + ?r) m dst src 0"
    unfolding user_memcpy_def memcpy_from_add by (simp add: copy_chars_eq del: of_nat_mult)
  then show ?thesis unfolding N memcpy_def .
qed (use quot_rem_8_neg [of sz] in \<open>simp add: user_memcpy_def memcpy_def\<close>)

lemma user_memcpy_bytewise_witness:
  "user_memcpy (\<lambda>a. ucast a) 100 200 1 = memcpy (\<lambda>a. ucast a) 100 200 1"
  by (rule user_memcpy_bytewise) (simp_all add: within_def)

text \<open>
  \<open>atoi\<close> of digits gives their decimal value modulo 2^32, and its negation after a minus
  sign.
\<close>

theorem atoi_decimal:
  assumes "stored m s xs" "list_all is_digit xs" "\<not> is_digit (m (s + of_nat (length xs)))"
    and "length xs < 2 ^ 31" "m s \<noteq> 45" "m (s - 1) = 45"
  shows "atoi m s = Some (decimal xs) \<and> atoi m (s - 1) = Some (- decimal xs)"
  using atoi_number [OF assms(1-4), of True] atoi_number [OF assms(1-4), of False] assms(5-6)
  by (simp add: atoi_def)

lemma atoi_decimal_witness:
  "atoi ((\<lambda>_. 0)(7 := 45, 8 := 52, 9 := 50)) 8 = Some (decimal [52, 50]) \<and>
   atoi ((\<lambda>_. 0)(7 := 45, 8 := 52, 9 := 50)) (8 - 1) = Some (- decimal [52, 50])"
  by (rule atoi_decimal) (simp_all add: is_digit_def)

text \<open>On a string of less than 2^31 bytes \<open>strlen\<close> returns its length and \<open>strfindchr\<close> the
  first index of a character, -1 when there is none, and the length for the character 0.\<close>

theorem strlen_strfindchr:
  assumes "cstring m s xs" "length xs < 2 ^ 31"
  shows "strlen m s = Some (length xs) \<and> strfindchr m s t = Some (index_of t xs)"
  using strlen_cstring strfindchr_cstring assms by blast

lemma strlen_strfindchr_witness:
  "strlen ((\<lambda>_. 0)(8 := 52, 9 := 50)) 8 = Some (length [52 :: u8, 50]) \<and>
   strfindchr ((\<lambda>_. 0)(8 := 52, 9 := 50)) 8 50 = Some (index_of 50 [52, 50])"
  by (rule strlen_strfindchr) simp_all

text \<open>The copies in the user library behave as the kernel's routines.\<close>

theorem user_strings_agree:
  "user_atoi = atoi \<and> user_strcmp = strcmp \<and> user_strncmp = strncmp \<and> user_strfindchr = strfindchr
   \<and> user_strlen = strlen \<and> user_memcmp = memcmp"
  by (auto simp: fun_eq_iff user_atoi_def atoi_def user_memcmp_def memcmp_def
      user_strfindchr_def strfindchr_def user_strlen_def strlen_def user_eqs)

end
