(* ===== verification/Bus.thy ===== *)
theory Bus
  imports Prelude
begin

text \<open>
  Memory-mapped device registers. A device is a function of what happened on the bus before
  an access (newest event first), the width of the access in bytes and its address; it gives the
  value read. The state of a program that talks to devices has the history of the bus as its
  first field, so every register access the code makes, in order, is an element of it.
\<close>

datatype io = R nat u64 u64 | W nat u64 u64

type_synonym device = "io list \<Rightarrow> nat \<Rightarrow> u64 \<Rightarrow> u64"

record world =
  hist :: "io list"

definition emit :: "'a world_scheme \<Rightarrow> io \<Rightarrow> 'a world_scheme" where
  "emit s e = s\<lparr>hist := e # hist s\<rparr>"

definition rd :: "device \<Rightarrow> nat \<Rightarrow> 'a world_scheme \<Rightarrow> u64 \<Rightarrow> 'a world_scheme \<times> u64" where
  "rd dev n s a = (let v = take_bit (8 * n) (dev (hist s) n a) in (emit s (R n a v), v))"

definition wr :: "nat \<Rightarrow> 'a world_scheme \<Rightarrow> u64 \<Rightarrow> u64 \<Rightarrow> 'a world_scheme" where
  "wr n s a v = emit s (W n a (take_bit (8 * n) v))"

text \<open>
  How a C function ends: it returns a value, it leaves the C code with \<open>mret\<close> or \<open>sret\<close> for the
  address in \<open>mepc\<close> or \<open>sepc\<close>, it never returns, or it does what C leaves undefined.
\<close>

datatype ('s, 'a) outcome = Ret 's 'a | Jump 's | Hang | Undef

fun and_then :: "('s, 'a) outcome \<Rightarrow> ('s \<Rightarrow> 'a \<Rightarrow> ('s, 'b) outcome) \<Rightarrow> ('s, 'b) outcome" where
  "and_then (Ret s x) f = f s x"
| "and_then (Jump s) f = Jump s"
| "and_then Hang f = Hang"
| "and_then Undef f = Undef"

fun_cases and_then_RetE: "and_then r f = Ret s x"
fun_cases and_then_HangE: "and_then r f = Hang"

lemma and_then_Ret: "and_then r f = Ret s x \<longleftrightarrow> (\<exists>s' y. r = Ret s' y \<and> f s' y = Ret s x)"
  by (auto elim: and_then_RetE)

lemma and_then_Hang: "and_then r f = Hang \<longleftrightarrow> r = Hang \<or> (\<exists>s y. r = Ret s y \<and> f s y = Hang)"
  by (auto elim: and_then_HangE)

text \<open>A loop or lock as the option functions give them: \<open>None\<close> never returns.\<close>

fun or_hang :: "'s option \<Rightarrow> ('s, unit) outcome" where
  "or_hang (Some s) = Ret s ()"
| "or_hang None = Hang"

text \<open>The last value written to a register, and the registers that read back what was written.\<close>

fun last_write :: "io list \<Rightarrow> nat \<Rightarrow> u64 \<Rightarrow> u64 option" where
  "last_write [] n a = None"
| "last_write (R k b v # h) n a = last_write h n a"
| "last_write (W k b v # h) n a = (if k = n \<and> b = a then Some v else last_write h n a)"

definition reads_back :: "device \<Rightarrow> nat \<Rightarrow> u64 \<Rightarrow> bool" where
  "reads_back dev n a \<longleftrightarrow> (\<forall>h v. last_write h n a = Some v \<longrightarrow> dev h n a = v)"

text \<open>The events of an access, in the order they happened, since an earlier state.\<close>

definition since :: "'a world_scheme \<Rightarrow> 'b world_scheme \<Rightarrow> io list" where
  "since s s' = rev (take (length (hist s') - length (hist s)) (hist s'))"

text \<open>The writes alone, oldest first: what the devices were told.\<close>

fun is_write :: "io \<Rightarrow> bool" where
  "is_write (R n a v) = False"
| "is_write (W n a v) = True"

definition written :: "'a world_scheme \<Rightarrow> io list" where
  "written s = rev (filter is_write (hist s))"

lemma hist_emit [simp]: "hist (emit s e) = e # hist s"
  by (simp add: emit_def)

lemma more_emit [frame]: "world.more (emit s e) = world.more s"
  by (simp add: emit_def)

lemma rd_eq: "rd dev n s a = (emit s (R n a (take_bit (8 * n) (dev (hist s) n a))), take_bit (8 * n) (dev (hist s) n a))"
  by (simp add: rd_def Let_def)

lemma last_write_wr [simp]:
  "last_write (hist (wr n s a v)) k b = (if n = k \<and> a = b then Some (take_bit (8 * n) v) else last_write (hist s) k b)"
  by (simp add: wr_def)

lemma last_write_rd [simp]: "last_write (hist (fst (rd dev n s a))) k b = last_write (hist s) k b"
  by (simp add: rd_eq)

lemma more_rd [frame]: "world.more (fst (rd dev n s a)) = world.more s"
  by (simp add: rd_eq more_emit)

lemma more_wr [frame]: "world.more (wr n s a v) = world.more s"
  by (simp add: wr_def more_emit)

lemma hist_rd: "hist (fst (rd dev n s a)) = R n a (take_bit (8 * n) (dev (hist s) n a)) # hist s"
  by (simp add: rd_eq)

lemma hist_wr: "hist (wr n s a v) = W n a (take_bit (8 * n) v) # hist s"
  by (simp add: wr_def)

lemma written_wr [simp]: "written (wr n s a v) = written s @ [W n a (take_bit (8 * n) v)]"
  by (simp add: written_def wr_def)

lemma written_rd [simp]: "written (fst (rd dev n s a)) = written s"
  by (simp add: written_def rd_eq)

lemma rd_value: "snd (rd dev n s a) = take_bit (8 * n) (dev (hist s) n a)"
  by (simp add: rd_eq)

text \<open>A register that always gives the same value.\<close>

definition steady :: "device \<Rightarrow> nat \<Rightarrow> u64 \<Rightarrow> u64 \<Rightarrow> bool" where
  "steady dev n a v \<longleftrightarrow> (\<forall>h. take_bit (8 * n) (dev h n a) = v)"

lemma rd_steady: "steady dev n a v \<Longrightarrow> rd dev n s a = (fst (rd dev n s a), v)"
  by (simp add: rd_eq steady_def)

lemma steady_take: "steady dev n a v \<Longrightarrow> take_bit (8 * n) v = v"
  unfolding steady_def by (metis min.idem take_bit_take_bit)

lemma snd_rd_steady: "steady dev n a v \<Longrightarrow> snd (rd dev n s a) = v"
  by (simp add: rd_eq steady_def)

lemma rd_reads_back:
  assumes "reads_back dev n a" "last_write (hist s) n a = Some v" "take_bit (8 * n) v = v"
  shows "snd (rd dev n s a) = v"
  using assms by (simp add: rd_eq reads_back_def)

end
