(* ===== verification/SbiDevices.thy ===== *)
theory SbiDevices
  imports Bus RingBuffers "HOL-Library.Signed_Division"
begin

text \<open>
  The devices the firmware drives: the core-local interruptor (sbi/src/clint.c), the platform
  interrupt controller (sbi/src/plic.c), the serial port (sbi/src/uart.c) and the clock
  (sbi/src/rtc.c). The state is the bus history and the console ring; the theorem says that
  the interrupt handler moves what the port received into the ring, in order.
\<close>

unbundle bit_operations_syntax

record con_world = world +
  con :: console_ring

section \<open>clint.c\<close>

abbreviation (input) CLINT_BASE_ADDRESS :: u64 where "CLINT_BASE_ADDRESS \<equiv> 0x2000000"
abbreviation (input) CLINT_MTIMECMP_OFFSET :: u64 where "CLINT_MTIMECMP_OFFSET \<equiv> 0x4000"
abbreviation (input) CLINT_MTIMECMP_INFINITE :: u64 where "CLINT_MTIMECMP_INFINITE \<equiv> 0x7FFFFFFFFFFFFFFF"

definition msip_reg :: "u32 \<Rightarrow> u64" where
  "msip_reg hart = CLINT_BASE_ADDRESS + 4 * ucast hart"

definition clint_set_msip :: "'a world_scheme \<Rightarrow> u32 \<Rightarrow> 'a world_scheme" where
  "clint_set_msip s hart = (if 8 \<le> hart then s else wr 4 s (msip_reg hart) 1)"

definition clint_clear_msip :: "'a world_scheme \<Rightarrow> u32 \<Rightarrow> 'a world_scheme" where
  "clint_clear_msip s hart = (if 8 \<le> hart then s else wr 4 s (msip_reg hart) 0)"

definition clint_set_mtimecmp :: "'a world_scheme \<Rightarrow> u32 \<Rightarrow> u64 \<Rightarrow> 'a world_scheme" where
  "clint_set_mtimecmp s hart val =
     (if 8 \<le> hart then s
      else wr 8 s (CLINT_BASE_ADDRESS + CLINT_MTIMECMP_OFFSET + 8 * ucast hart) val)"

text \<open>The \<open>rdtime\<close> instruction reads the time register, which stands at 0xBFF8 of the CLINT.\<close>

definition clint_get_time :: "device \<Rightarrow> 'a world_scheme \<Rightarrow> 'a world_scheme \<times> u64" where
  "clint_get_time dev s = rd dev 8 s (CLINT_BASE_ADDRESS + 0xBFF8)"

definition clint_add_mtimecmp :: "device \<Rightarrow> 'a world_scheme \<Rightarrow> u32 \<Rightarrow> u64 \<Rightarrow> 'a world_scheme" where
  "clint_add_mtimecmp dev s hart val =
     (let (s, tm) = clint_get_time dev s in clint_set_mtimecmp s hart (tm + val))"

section \<open>plic.c\<close>

abbreviation (input) PLIC_BASE :: u64 where "PLIC_BASE \<equiv> 0x0c000000"
abbreviation (input) PLIC_MODE_MACHINE :: int where "PLIC_MODE_MACHINE \<equiv> 0"
abbreviation (input) PLIC_MODE_SUPERVISOR :: int where "PLIC_MODE_SUPERVISOR \<equiv> 1"

definition PLIC_PRIORITY :: "int \<Rightarrow> u64" where
  "PLIC_PRIORITY interrupt = PLIC_BASE + of_int (0x4 * interrupt)"

definition PLIC_THRESHOLD :: "int \<Rightarrow> int \<Rightarrow> u64" where
  "PLIC_THRESHOLD hart mode = PLIC_BASE + 0x200000 + of_int (0x1000 * (2 * hart + mode))"

definition PLIC_CLAIM :: "int \<Rightarrow> int \<Rightarrow> u64" where
  "PLIC_CLAIM hart mode = PLIC_THRESHOLD hart mode + 4"

definition PLIC_ENABLE :: "int \<Rightarrow> int \<Rightarrow> u64" where
  "PLIC_ENABLE hart mode = PLIC_BASE + 0x2000 + of_int (0x80 * (2 * hart + mode))"

definition sbi_plic_set_priority :: "'a world_scheme \<Rightarrow> int \<Rightarrow> u8 \<Rightarrow> 'a world_scheme" where
  "sbi_plic_set_priority s interrupt_id priority =
     wr 4 s (PLIC_PRIORITY interrupt_id) (ucast (priority AND 7))"

definition sbi_plic_set_threshold :: "'a world_scheme \<Rightarrow> int \<Rightarrow> u8 \<Rightarrow> 'a world_scheme" where
  "sbi_plic_set_threshold s hart priority =
     wr 4 s (PLIC_THRESHOLD hart PLIC_MODE_MACHINE) (ucast (priority AND 7))"

text \<open>The word and the bit of an interrupt in the enable array.\<close>

definition enable_word :: "u64 \<Rightarrow> int \<Rightarrow> u64" where
  "enable_word base interrupt_id = base + 4 * of_int (interrupt_id sdiv 32)"

definition enable_bit :: "int \<Rightarrow> u64" where
  "enable_bit interrupt_id = push_bit (nat (interrupt_id smod 32)) 1"

definition sbi_plic_enable :: "device \<Rightarrow> 'a world_scheme \<Rightarrow> int \<Rightarrow> int \<Rightarrow> 'a world_scheme" where
  "sbi_plic_enable dev s hart interrupt_id =
     (let a = enable_word (PLIC_ENABLE hart PLIC_MODE_MACHINE) interrupt_id; (s, v) = rd dev 4 s a
      in wr 4 s a (v OR enable_bit interrupt_id))"

definition sbi_plic_disable :: "device \<Rightarrow> 'a world_scheme \<Rightarrow> int \<Rightarrow> int \<Rightarrow> 'a world_scheme" where
  "sbi_plic_disable dev s hart interrupt_id =
     (let a = enable_word (PLIC_ENABLE hart PLIC_MODE_MACHINE) interrupt_id; (s, v) = rd dev 4 s a
      in wr 4 s a (v AND NOT (enable_bit interrupt_id)))"

definition sbi_plic_claim :: "device \<Rightarrow> 'a world_scheme \<Rightarrow> int \<Rightarrow> 'a world_scheme \<times> u32" where
  "sbi_plic_claim dev s hart =
     (let (s, v) = rd dev 4 s (PLIC_CLAIM hart PLIC_MODE_MACHINE) in (s, ucast v))"

definition sbi_plic_complete :: "'a world_scheme \<Rightarrow> int \<Rightarrow> u32 \<Rightarrow> 'a world_scheme" where
  "sbi_plic_complete s hart irq = wr 4 s (PLIC_CLAIM hart PLIC_MODE_MACHINE) (ucast irq)"

section \<open>uart.c\<close>

abbreviation (input) UART :: u64 where "UART \<equiv> 0x10000000"

definition uart_init :: "'a world_scheme \<Rightarrow> 'a world_scheme" where
  "uart_init s = wr 1 (wr 1 (wr 1 s (UART + 3) 3) (UART + 2) 1) (UART + 1) 1"

definition uart_get :: "device \<Rightarrow> 'a world_scheme \<Rightarrow> 'a world_scheme \<times> u8" where
  "uart_get dev s =
     (let (s, lsr) = rd dev 1 s (UART + 5)
      in if lsr AND 1 \<noteq> 0 then (let (s, c) = rd dev 1 s UART in (s, ucast c)) else (s, 255))"

partial_function (option) uart_wait :: "device \<Rightarrow> 'a world_scheme \<Rightarrow> 'a world_scheme option" where
  "uart_wait dev s =
     (let (s, lsr) = rd dev 1 s (UART + 5) in if lsr AND push_bit 6 1 = 0 then uart_wait dev s else Some s)"

definition uart_put :: "device \<Rightarrow> 'a world_scheme \<Rightarrow> u8 \<Rightarrow> 'a world_scheme option" where
  "uart_put dev s c = map_option (\<lambda>s. wr 1 s UART (ucast c)) (uart_wait dev s)"

partial_function (option) uart_handle_irq :: "device \<Rightarrow> 'a con_world_scheme \<Rightarrow> 'a con_world_scheme option" where
  "uart_handle_irq dev s =
     (let (s, c) = uart_get dev s
      in if c \<noteq> 0xff
         then (case ring_put (con s) c of None \<Rightarrow> None | Some r \<Rightarrow> uart_handle_irq dev (s\<lparr>con := r\<rparr>))
         else Some s)"

definition sbi_plic_handle_irq :: "device \<Rightarrow> 'a con_world_scheme \<Rightarrow> int \<Rightarrow> 'a con_world_scheme option" where
  "sbi_plic_handle_irq dev s hart =
     (let (s, irq) = sbi_plic_claim dev s hart
      in map_option (\<lambda>s. sbi_plic_complete s hart irq) (if irq = 10 then uart_handle_irq dev s else Some s))"

section \<open>rtc.c\<close>

definition rtc_get_time :: "device \<Rightarrow> 'a world_scheme \<Rightarrow> 'a world_scheme \<times> u64" where
  "rtc_get_time dev s =
     (let (s, low) = rd dev 4 s 0x101000; (s, high) = rd dev 4 s 0x101004
      in (s, push_bit 32 high OR low))"

section \<open>The registers written\<close>

lemma msip_reg_inj: "msip_reg h = msip_reg k \<longleftrightarrow> h = k"
proof
  assume "msip_reg h = msip_reg k"
  then have "unat (4 * ucast h :: u64) = unat (4 * ucast k :: u64)" by (simp add: msip_reg_def)
  moreover have "unat (4 * ucast x :: u64) = 4 * unat x" for x :: u32
  proof -
    have "unat x < 2 ^ LENGTH(32)" by (rule unsigned_less)
    then show ?thesis by (simp add: unat_word_ariths unsigned_ucast_eq take_bit_nat_eq_self)
  qed
  ultimately show "h = k" by (simp add: word_unat_eq_iff)
qed simp

text \<open>\<open>msip s h\<close>: the software interrupt of hart \<open>h\<close> is pending.\<close>

definition msip :: "'a world_scheme \<Rightarrow> u32 \<Rightarrow> bool" where
  "msip s h \<longleftrightarrow> last_write (hist s) 4 (msip_reg h) = Some 1"

lemma msip_set: "h < 8 \<Longrightarrow> msip (clint_set_msip s h) k \<longleftrightarrow> h = k \<or> msip s k"
  by (auto simp: msip_def clint_set_msip_def msip_reg_inj)

lemma msip_clear: "h < 8 \<Longrightarrow> msip (clint_clear_msip s h) k \<longleftrightarrow> h \<noteq> k \<and> msip s k"
  by (auto simp: msip_def clint_clear_msip_def msip_reg_inj)

lemma more_clint [frame]:
  "world.more (clint_set_msip s h) = world.more s" "world.more (clint_clear_msip s h) = world.more s"
  "world.more (clint_set_mtimecmp s h v) = world.more s"
  by (simp_all add: clint_set_msip_def clint_clear_msip_def clint_set_mtimecmp_def more_wr)

section \<open>The receiver of the serial port\<close>

text \<open>
  What the port documents of its receiver: bit 0 of the line status says that a byte waits, and
  each read of register 0 takes the next one. \<open>xs\<close> is everything that arrives.
\<close>

fun taken_bytes :: "io list \<Rightarrow> nat" where
  "taken_bytes [] = 0"
| "taken_bytes (R n a v # h) = (if n = 1 \<and> a = UART then Suc (taken_bytes h) else taken_bytes h)"
| "taken_bytes (W n a v # h) = taken_bytes h"

definition uart_receives :: "device \<Rightarrow> u8 list \<Rightarrow> bool" where
  "uart_receives dev xs \<longleftrightarrow> (\<forall>h. (dev h 1 (UART + 5) AND 1 \<noteq> 0 \<longleftrightarrow> taken_bytes h < length xs)
     \<and> (taken_bytes h < length xs \<longrightarrow> ucast (dev h 1 UART) = xs ! taken_bytes h))"

lemma ucast_take_bit_8: "(ucast (take_bit 8 (x :: u64)) :: u8) = ucast x"
  by (rule bit_word_eqI) (auto simp: bit_simps dest: bit_imp_le_length)

lemma and_1_take_bit: "take_bit 8 (x :: u64) AND 1 = x AND 1"
  by (rule bit_word_eqI) (auto simp: bit_simps)

lemma con_emit [simp]: "con (emit s e) = con s"
  by (simp add: emit_def)

lemma uart_get_receives:
  assumes "uart_receives dev xs"
  shows "\<exists>s'. uart_get dev s = (s', if taken_bytes (hist s) < length xs then xs ! taken_bytes (hist s) else 255)
    \<and> con s' = con s
    \<and> taken_bytes (hist s') = (if taken_bytes (hist s) < length xs then Suc (taken_bytes (hist s)) else taken_bytes (hist s))"
proof -
  define s1 where "s1 = fst (rd dev 1 s (UART + 5))"
  have t: "taken_bytes (hist s1) = taken_bytes (hist s)" by (simp add: s1_def hist_rd)
  have c: "con s1 = con s" by (simp add: s1_def rd_eq)
  have ready: "snd (rd dev 1 s (UART + 5)) AND 1 \<noteq> 0 \<longleftrightarrow> taken_bytes (hist s) < length xs"
    using assms by (simp add: rd_eq and_1_take_bit uart_receives_def)
  have get: "uart_get dev s = (if snd (rd dev 1 s (UART + 5)) AND 1 \<noteq> 0
      then (fst (rd dev 1 s1 UART), ucast (snd (rd dev 1 s1 UART))) else (s1, 255))"
    by (simp add: uart_get_def s1_def split_beta)
  show ?thesis
  proof (cases "taken_bytes (hist s) < length xs")
    case True
    then have "ucast (snd (rd dev 1 s1 UART)) = xs ! taken_bytes (hist s)"
      using assms t by (simp add: rd_eq ucast_take_bit_8 uart_receives_def)
    moreover have "con (fst (rd dev 1 s1 UART)) = con s"
      "taken_bytes (hist (fst (rd dev 1 s1 UART))) = Suc (taken_bytes (hist s))"
      using c t by (simp_all add: rd_eq)
    ultimately show ?thesis using get ready True by simp
  next
    case False
    then show ?thesis using get ready c t by simp
  qed
qed

lemma uart_handle_irq_drains:
  assumes "uart_receives dev xs" "con_ok (con s)"
  shows "\<exists>s'. uart_handle_irq dev s = Some s' \<and> con_ok (con s')
    \<and> con_elems (con s') = take 10 (con_elems (con s) @ takeWhile (\<lambda>c. c \<noteq> 0xff) (drop (taken_bytes (hist s)) xs))"
  using assms(2)
proof (induction "length xs - taken_bytes (hist s)" arbitrary: s rule: less_induct)
  case less
  let ?k = "taken_bytes (hist s)"
  obtain s1 where s1: "uart_get dev s = (s1, if ?k < length xs then xs ! ?k else 255)"
    "con s1 = con s" "taken_bytes (hist s1) = (if ?k < length xs then Suc ?k else ?k)"
    using uart_get_receives [OF assms(1)] by metis
  have le: "length (con_elems (con s)) \<le> 10" using less.prems by (auto simp: con_elems_def con_ok_def)
  show ?case
  proof (cases "?k < length xs \<and> xs ! ?k \<noteq> 255")
    case False
    then have "takeWhile (\<lambda>c. c \<noteq> 0xff) (drop ?k xs) = []"
      by (cases "?k < length xs") (auto simp flip: Cons_nth_drop_Suc)
    then show ?thesis
      using False s1 less.prems le by (auto simp: uart_handle_irq.simps [of dev s])
  next
    case True
    obtain r where r: "puts con_put (con s) [xs ! ?k] = Some r" "con_ok r" "con_elems r = take 10 (con_elems (con s) @ [xs ! ?k])"
      using console.puts_prefix [OF less.prems le, of "[xs ! ?k]"] by blast
    then have put: "ring_put (con s1) (xs ! ?k) = Some r" by (auto simp: con_put_def s1(2) split: option.splits)
    define s2 where "s2 = s1\<lparr>con := r\<rparr>"
    have s2: "taken_bytes (hist s2) = Suc ?k" "con s2 = r" using s1(3) True by (simp_all add: s2_def)
    have "length xs - taken_bytes (hist s2) < length xs - ?k" using True s2(1) by linarith
    then obtain s' where s': "uart_handle_irq dev s2 = Some s'" "con_ok (con s')"
      "con_elems (con s') = take 10 (con_elems (con s2) @ takeWhile (\<lambda>c. c \<noteq> 0xff) (drop (taken_bytes (hist s2)) xs))"
      using less.hyps [of s2] r(2) s2(2) by auto
    have "uart_handle_irq dev s = uart_handle_irq dev s2"
      using True s1(1) put by (simp add: uart_handle_irq.simps [of dev s] s2_def)
    moreover have "drop ?k xs = xs ! ?k # drop (Suc ?k) xs" using True by (simp add: Cons_nth_drop_Suc)
    ultimately show ?thesis
      using s' r(3) True unfolding s2 by (auto simp: take_Cons' min_def)
  qed
qed

text \<open>Emptying the port writes to no device.\<close>

lemma uart_get_written: "written (fst (uart_get dev s)) = written s"
  by (simp add: uart_get_def split_def Let_def written_rd)

lemma uart_handle_irq_written:
  assumes "uart_handle_irq dev s = Some s'"
  shows "written s' = written s"
proof (rule uart_handle_irq.raw_induct [where P = "\<lambda>dev s s'. written s' = written s", OF _ assms])
  fix f dev and s s' :: "'a con_world_scheme"
  assume IH: "\<And>dev s s'. f dev s = Some s' \<Longrightarrow> written s' = written s"
    and body: "(let (s, c) = uart_get dev s
      in if c \<noteq> 0xff
         then (case ring_put (con s) c of None \<Rightarrow> None | Some r \<Rightarrow> f dev (s\<lparr>con := r\<rparr>))
         else Some s) = Some s'"
  have w: "written (t\<lparr>con := r\<rparr>) = written t" for t :: "'a con_world_scheme" and r by (simp add: written_def)
  show "written s' = written s"
    using body uart_get_written [of dev s] by (auto simp: split_def Let_def w dest: IH split: if_splits option.splits)
qed

end
