(* ===== verification/SbiHarts.thy ===== *)
theory SbiHarts
  imports SbiDevices
begin

text \<open>
  The firmware's hart table and trap handling: sbi/src/hart.c, svccall.c, ctrap.c and main.c.
  A function runs on one hart; its CSRs and its register save area (what \<open>mscratch\<close> points at)
  are fields of the state beside the shared table, its locks and the devices. The last part
  is the life of several harts as a step relation.
\<close>

unbundle bit_operations_syntax

section \<open>State\<close>

datatype HartStatus = HS_INVALID | HS_STOPPED | HS_STARTING | HS_STARTED | HS_STOPPING

datatype HartPrivMode = HPM_USER | HPM_SUPERVISOR | HPM_HYPERVISOR | HPM_MACHINE

fun status_code :: "HartStatus \<Rightarrow> u64" where
  "status_code HS_INVALID = 0"
| "status_code HS_STOPPED = 1"
| "status_code HS_STARTING = 2"
| "status_code HS_STARTED = 3"
| "status_code HS_STOPPING = 4"

fun priv_code :: "HartPrivMode \<Rightarrow> u64" where
  "priv_code HPM_USER = 0"
| "priv_code HPM_SUPERVISOR = 1"
| "priv_code HPM_HYPERVISOR = 2"
| "priv_code HPM_MACHINE = 3"

text \<open>The enumeration is ordered by privilege, as the two bits of \<open>mstatus\<close> that hold it are.\<close>

lemma priv_code_inject [simp]: "priv_code x = priv_code y \<longleftrightarrow> x = y"
  by (cases x; cases y) simp_all

instantiation HartPrivMode :: linorder
begin

definition less_eq_HartPrivMode :: "HartPrivMode \<Rightarrow> HartPrivMode \<Rightarrow> bool" where
  "less_eq_HartPrivMode x y \<longleftrightarrow> priv_code x \<le> priv_code y"

definition less_HartPrivMode :: "HartPrivMode \<Rightarrow> HartPrivMode \<Rightarrow> bool" where
  "less_HartPrivMode x y \<longleftrightarrow> priv_code x < priv_code y"

instance
  by intro_classes (auto simp: less_eq_HartPrivMode_def less_HartPrivMode_def order_le_less not_less)

end

lemma priv_code_mono: "priv_code x \<le> priv_code y \<longleftrightarrow> x \<le> y"
  by (simp add: less_eq_HartPrivMode_def)

lemma machine_highest [simp]: "m \<le> HPM_MACHINE" "HPM_USER \<le> m"
  by (cases m; simp add: less_eq_HartPrivMode_def)+

record HartData =
  status :: HartStatus
  priv_mode :: HartPrivMode
  target_address :: u64
  scratch :: u64

datatype csr = mepc | mstatus | mie | mip | mideleg | medeleg | mscratch | sscratch | mtvec
  | pmpaddr0 | pmpcfg0 | mcause | mhartid

text \<open>\<open>park\<close>, \<open>sbi_trap_vector\<close> and \<open>SBI_GPREGS\<close> are addresses the linker chooses.\<close>

record sbi = con_world +
  hart_data :: "HartData list"
  hart_lock :: "u32 list"
  hart0lock :: u32
  csrs :: "csr \<Rightarrow> u64"
  frame_regs :: "nat \<Rightarrow> u64"
  messages :: "(string \<times> u64 list) list"
  park :: u64
  sbi_trap_vector :: u64
  SBI_GPREGS :: u64

definition CSR_WRITE :: "sbi \<Rightarrow> csr \<Rightarrow> u64 \<Rightarrow> sbi" where
  "CSR_WRITE s c v = s\<lparr>csrs := (csrs s)(c := v)\<rparr>"

definition printf :: "sbi \<Rightarrow> string \<Rightarrow> u64 list \<Rightarrow> sbi" where
  "printf s fmt args = s\<lparr>messages := (fmt, args) # messages s\<rparr>"

text \<open>csr.h.\<close>

abbreviation (input) MSTATUS_MPP_MACHINE :: u64 where "MSTATUS_MPP_MACHINE \<equiv> push_bit 11 3"
abbreviation (input) MSTATUS_MPP_SUPERVISOR :: u64 where "MSTATUS_MPP_SUPERVISOR \<equiv> push_bit 11 1"
abbreviation (input) MSTATUS_MPIE :: u64 where "MSTATUS_MPIE \<equiv> push_bit 7 1"
abbreviation (input) MSTATUS_FS_INITIAL :: u64 where "MSTATUS_FS_INITIAL \<equiv> push_bit 13 1"
abbreviation (input) MIE_MEIE :: u64 where "MIE_MEIE \<equiv> push_bit 11 1"
abbreviation (input) MIE_SEIE :: u64 where "MIE_SEIE \<equiv> push_bit 9 1"
abbreviation (input) MIE_MTIE :: u64 where "MIE_MTIE \<equiv> push_bit 7 1"
abbreviation (input) MIE_STIE :: u64 where "MIE_STIE \<equiv> push_bit 5 1"
abbreviation (input) MIE_MSIE :: u64 where "MIE_MSIE \<equiv> push_bit 3 1"
abbreviation (input) MIE_SSIE :: u64 where "MIE_SSIE \<equiv> push_bit 1 1"
abbreviation (input) MEDELEG_ALL :: u64 where "MEDELEG_ALL \<equiv> 0xB1F7"
abbreviation (input) OS_LOAD_ADDR :: u64 where "OS_LOAD_ADDR \<equiv> 0x80050000"
abbreviation (input) XREG_A0 :: nat where "XREG_A0 \<equiv> 10"
abbreviation (input) XREG_A1 :: nat where "XREG_A1 \<equiv> 11"
abbreviation (input) XREG_A2 :: nat where "XREG_A2 \<equiv> 12"
abbreviation (input) XREG_A7 :: nat where "XREG_A7 \<equiv> 17"

section \<open>hart.c\<close>

text \<open>The table and the locks have eight entries; another index is outside of them.\<close>

definition hart_of :: "sbi \<Rightarrow> u32 \<Rightarrow> HartData" where
  "hart_of s hart = hart_data s ! unat hart"

definition set_hart :: "sbi \<Rightarrow> u32 \<Rightarrow> HartData \<Rightarrow> sbi" where
  "set_hart s hart d = s\<lparr>hart_data := (hart_data s)[unat hart := d]\<rparr>"

definition set_lock :: "sbi \<Rightarrow> u32 \<Rightarrow> u32 \<Rightarrow> sbi" where
  "set_lock s hart l = s\<lparr>hart_lock := (hart_lock s)[unat hart := l]\<rparr>"

definition unlock :: "sbi \<Rightarrow> u32 \<Rightarrow> sbi" where
  "unlock s hart = set_lock s hart (sbi_mutex_unlock (hart_lock s ! unat hart))"

definition hart_get_status :: "sbi \<Rightarrow> u32 \<Rightarrow> HartStatus" where
  "hart_get_status s hart = (if 8 \<le> hart then HS_INVALID else status (hart_of s hart))"

definition hart_start :: "sbi \<Rightarrow> u32 \<Rightarrow> u64 \<Rightarrow> u64 \<Rightarrow> (sbi, bool) outcome" where
  "hart_start s hart target scr =
     (if 8 \<le> hart then Undef
      else
        let (l, got) = sbi_mutex_trylock (hart_lock s ! unat hart); s = set_lock s hart l
        in if \<not> got then Ret s False
           else
             let (s, ret) =
               (if status (hart_of s hart) \<noteq> HS_STOPPED then (s, False)
                else
                  let s = set_hart s hart ((hart_of s hart)\<lparr>status := HS_STARTING, target_address := target,
                            scratch := scr\<rparr>)
                  in (clint_set_msip s hart, True))
             in Ret (unlock s hart) ret)"

definition hart_stop :: "sbi \<Rightarrow> u32 \<Rightarrow> (sbi, bool) outcome" where
  "hart_stop s hart =
     (if 8 \<le> hart then Undef
      else
        let (l, got) = sbi_mutex_trylock (hart_lock s ! unat hart); s = set_lock s hart l
        in if \<not> got then Ret s False
           else if status (hart_of s hart) \<noteq> HS_STARTED then Ret s False
           else
             let s = set_hart s hart ((hart_of s hart)\<lparr>status := HS_STOPPED\<rparr>);
                 s = CSR_WRITE s mepc (park s);
                 s = CSR_WRITE s mstatus (MSTATUS_MPP_MACHINE OR MSTATUS_MPIE);
                 s = CSR_WRITE s mie MIE_MSIE
             in Jump (unlock s hart))"

definition hart_handle_msip :: "sbi \<Rightarrow> u32 \<Rightarrow> (sbi, unit) outcome" where
  "hart_handle_msip s hart =
     (if 8 \<le> hart then Undef
      else
        case sbi_mutex_spinlock (hart_lock s ! unat hart) of
          None \<Rightarrow> Hang
        | Some l \<Rightarrow>
            let s = clint_clear_msip (set_lock s hart l) hart;
                s = (if status (hart_of s hart) = HS_STARTING then
                       let s = CSR_WRITE s mepc (target_address (hart_of s hart));
                           s = CSR_WRITE s mstatus (push_bit 11 (priv_code (priv_mode (hart_of s hart)))
                                 OR MSTATUS_MPIE OR MSTATUS_FS_INITIAL);
                           s = CSR_WRITE s mie (MIE_SSIE OR MIE_STIE OR MIE_MTIE);
                           s = CSR_WRITE s mideleg (MIE_SEIE OR MIE_SSIE OR MIE_STIE);
                           s = CSR_WRITE s medeleg MEDELEG_ALL;
                           s = CSR_WRITE s sscratch (ucast hart)
                       in set_hart s hart ((hart_of s hart)\<lparr>status := HS_STARTED\<rparr>)
                     else s)
            in Jump (unlock s hart))"

section \<open>svccall.c\<close>

definition set_a0 :: "sbi \<Rightarrow> u64 \<Rightarrow> sbi" where
  "set_a0 s v = s\<lparr>frame_regs := (frame_regs s)(XREG_A0 := v)\<rparr>"

abbreviation (input) of_bool64 :: "bool \<Rightarrow> u64" where
  "of_bool64 b \<equiv> (if b then 1 else 0)"

text \<open>The case of the clock, which the case of the timer runs into.\<close>

definition svc_rtc_get_time :: "device \<Rightarrow> sbi \<Rightarrow> (sbi, unit) outcome" where
  "svc_rtc_get_time dev s = (let (s, t) = rtc_get_time dev s in Ret (set_a0 s t) ())"

definition svccall_handle :: "device \<Rightarrow> sbi \<Rightarrow> u32 \<Rightarrow> (sbi, unit) outcome" where
  "svccall_handle dev s hart =
     (let a0 = frame_regs s XREG_A0; a1 = frame_regs s XREG_A1; a2 = frame_regs s XREG_A2;
          a7 = frame_regs s XREG_A7
      in if a7 = 1 then Ret (set_a0 s (status_code (hart_get_status s (ucast a0)))) ()
         else if a7 = 2 then and_then (hart_start s (ucast a0) a1 a2) (\<lambda>s r. Ret (set_a0 s (of_bool64 r)) ())
         else if a7 = 3 then and_then (hart_stop s hart) (\<lambda>s r. Ret (set_a0 s (of_bool64 r)) ())
         else if a7 = 5 then (let (s, t) = clint_get_time dev s in Ret (set_a0 s t) ())
         else if a7 = 6 then Ret (clint_set_mtimecmp s (ucast a0) a1) ()
         else if a7 = 7 then Ret (clint_add_mtimecmp dev s (ucast a0) a1) ()
         else if a7 = 12 then svc_rtc_get_time dev (CSR_WRITE s mip (csrs s mip AND NOT MIE_STIE))
         else if a7 = 8 then svc_rtc_get_time dev s
         else if a7 = 10 then or_hang (uart_put dev s (ucast a0))
         else if a7 = 11 then
           (case ring_get (con s) of None \<Rightarrow> Hang
            | Some (r, c) \<Rightarrow> Ret (set_a0 (s\<lparr>con := r\<rparr>) (ucast c)) ())
         else if a7 = 9 then Ret (set_a0 s (scast hart)) ()
         else Ret (printf s ''Unknown system call %d on hart %d'' [a7, scast hart]) ())"

section \<open>ctrap.c\<close>

definition c_trap_handler :: "device \<Rightarrow> sbi \<Rightarrow> (sbi, unit) outcome" where
  "c_trap_handler dev s =
     (let hart = ucast (csrs s mhartid); pc = csrs s mepc;
          is_async = bit (csrs s mcause) 63; cause = csrs s mcause AND 0xff
      in if is_async then
           if cause = 3 then hart_handle_msip s hart
           else if cause = 7 then
             Ret (clint_set_mtimecmp (CSR_WRITE s mip (csrs s mip OR MIE_STIE)) hart CLINT_MTIMECMP_INFINITE) ()
           else if cause = 11 then or_hang (sbi_plic_handle_irq dev s (sint hart))
           else Ret (printf s ''Unhandled Asynchronous interrupt in SBI: %ld'' [cause]) ()
         else if cause = 9 then
           and_then (svccall_handle dev s hart) (\<lambda>s _. Ret (CSR_WRITE s mepc (pc + 4)) ())
         else Hang)"

section \<open>main.c\<close>

definition pmp_init :: "sbi \<Rightarrow> sbi" where
  "pmp_init s = CSR_WRITE (CSR_WRITE s pmpaddr0 (drop_bit 2 0xffffffff)) pmpcfg0 (push_bit 3 1 OR push_bit 2 1 OR push_bit 1 1 OR 1)"

definition plic_init :: "device \<Rightarrow> sbi \<Rightarrow> sbi" where
  "plic_init dev s =
     (let s = sbi_plic_enable dev s 0 10; s = sbi_plic_set_priority s 10 7
      in sbi_plic_set_threshold s 0 0)"

text \<open>\<open>clear_bss\<close> (sbi/asm/clearbss.S) zeroes the globals without an initial value.\<close>

definition zero_hart :: HartData where
  "zero_hart = \<lparr>status = HS_INVALID, priv_mode = HPM_USER, target_address = 0, scratch = 0\<rparr>"

definition clear_bss :: "sbi \<Rightarrow> sbi" where
  "clear_bss s = s\<lparr>hart_data := replicate 8 zero_hart, hart_lock := replicate 8 0,
     con := \<lparr>buf = replicate 10 0, fill = 0, start = 0, buf_mutex = 0\<rparr>, frame_regs := (\<lambda>_. 0)\<rparr>"

definition main_other :: "sbi \<Rightarrow> u32 \<Rightarrow> (sbi, unit) outcome" where
  "main_other s hart =
     (case sbi_mutex_spinlock (hart0lock s) of
        None \<Rightarrow> Hang
      | Some l \<Rightarrow>
          let s = s\<lparr>hart0lock := l\<rparr>;
              s = s\<lparr>hart0lock := sbi_mutex_unlock (hart0lock s)\<rparr>;
              s = pmp_init s;
              s = set_hart s hart ((hart_of s hart)\<lparr>status := HS_STOPPED, target_address := 0,
                    priv_mode := HPM_MACHINE\<rparr>);
              s = CSR_WRITE s mscratch (SBI_GPREGS s + 256 * ucast hart);
              s = CSR_WRITE s sscratch (ucast hart);
              s = CSR_WRITE s mepc (park s);
              s = CSR_WRITE s mideleg 0;
              s = CSR_WRITE s medeleg 0;
              s = CSR_WRITE s mie MIE_MSIE;
              s = CSR_WRITE s mstatus (MSTATUS_FS_INITIAL OR MSTATUS_MPP_MACHINE OR MSTATUS_MPIE);
              s = CSR_WRITE s mtvec (sbi_trap_vector s)
          in Jump s)"

definition main_first :: "device \<Rightarrow> sbi \<Rightarrow> (sbi, unit) outcome" where
  "main_first dev s =
     (let s = clear_bss s;
          s = uart_init s;
          s = s\<lparr>hart0lock := sbi_mutex_unlock (hart0lock s)\<rparr>;
          s = plic_init dev s;
          s = pmp_init s;
          s = set_hart s 0 ((hart_of s 0)\<lparr>status := HS_STARTED, target_address := 0,
                priv_mode := HPM_MACHINE\<rparr>);
          s = CSR_WRITE s mscratch (SBI_GPREGS s);
          s = CSR_WRITE s sscratch 0;
          s = CSR_WRITE s mepc OS_LOAD_ADDR;
          s = CSR_WRITE s mtvec (sbi_trap_vector s);
          s = CSR_WRITE s mie (MIE_MEIE OR MIE_SEIE OR MIE_MTIE OR MIE_STIE OR MIE_MSIE OR MIE_SSIE);
          s = CSR_WRITE s mideleg (MIE_SEIE OR MIE_STIE OR MIE_SSIE);
          s = CSR_WRITE s medeleg MEDELEG_ALL;
          s = CSR_WRITE s mstatus (MSTATUS_FS_INITIAL OR MSTATUS_MPP_SUPERVISOR OR MSTATUS_MPIE)
      in Jump s)"

definition sbi_main :: "device \<Rightarrow> sbi \<Rightarrow> u32 \<Rightarrow> (sbi, unit) outcome" where
  "sbi_main dev s hart =
     (if hart \<noteq> 0 then (if 8 \<le> hart then Undef else main_other s hart) else main_first dev s)"

section \<open>What the operations do\<close>

definition table_ok :: "sbi \<Rightarrow> bool" where
  "table_ok s \<longleftrightarrow> length (hart_data s) = 8 \<and> length (hart_lock s) = 8"

definition lock_free :: "sbi \<Rightarrow> u32 \<Rightarrow> bool" where
  "lock_free s h \<longleftrightarrow> hart_lock s ! unat h = MUTEX_UNLOCKED"

lemmas hart_defs = hart_of_def set_hart_def set_lock_def unlock_def lock_free_def table_ok_def

lemma small_hart: "(h :: u32) < 8 \<Longrightarrow> unat h < 8"
  by (simp add: word_less_nat_alt)

text \<open>Bus writes leave the table alone, table writes leave the bus alone.\<close>

lemma emit_fields [simp]:
  "hart_data (emit s e) = hart_data s" "hart_lock (emit s e) = hart_lock s" "csrs (emit s e) = csrs s"
  "frame_regs (emit s e) = frame_regs s" "park (emit s e) = park s" "hart0lock (emit s e) = hart0lock s"
  "messages (emit s e) = messages s" "sbi_trap_vector (emit s e) = sbi_trap_vector s" "SBI_GPREGS (emit s e) = SBI_GPREGS s"
  by (simp_all add: emit_def)

lemma clint_fields [simp]:
  "hart_data (clint_set_msip s h) = hart_data s" "hart_data (clint_clear_msip s h) = hart_data s"
  "hart_lock (clint_set_msip s h) = hart_lock s" "hart_lock (clint_clear_msip s h) = hart_lock s"
  "csrs (clint_set_msip s h) = csrs s" "csrs (clint_clear_msip s h) = csrs s"
  "park (clint_set_msip s h) = park s" "park (clint_clear_msip s h) = park s"
  by (simp_all add: clint_set_msip_def clint_clear_msip_def wr_def)

lemma msip_cong: "hist s = hist s' \<Longrightarrow> msip s h = msip s' h"
  by (simp add: msip_def)

lemma msip_set_hist: "h < 8 \<Longrightarrow> hist s = hist s0 \<Longrightarrow> msip (clint_set_msip s h) k \<longleftrightarrow> h = k \<or> msip s0 k"
  by (simp add: msip_set) (simp add: msip_def)

lemma msip_clear_hist: "h < 8 \<Longrightarrow> hist s = hist s0 \<Longrightarrow> msip (clint_clear_msip s h) k \<longleftrightarrow> h \<noteq> k \<and> msip s0 k"
  by (simp add: msip_clear) (simp add: msip_def)

text \<open>A hart that is stopped is started; any other one is left as it is.\<close>

lemma hart_start_stopped:
  assumes "table_ok s" "h < 8" "lock_free s h" "status (hart_of s h) = HS_STOPPED"
  shows "\<exists>s'. hart_start s h target scr = Ret s' True \<and> hart_lock s' = hart_lock s \<and> csrs s' = csrs s \<and> park s' = park s
    \<and> hart_data s' = (hart_data s)[unat h := (hart_of s h)\<lparr>status := HS_STARTING, target_address := target, scratch := scr\<rparr>]
    \<and> (\<forall>k. msip s' k \<longleftrightarrow> h = k \<or> msip s k)"
proof -
  have u: "unat h < 8" using assms(2) by (rule small_hart)
  let ?s = "set_hart (set_lock s h 1) h ((hart_of s h)\<lparr>status := HS_STARTING, target_address := target, scratch := scr\<rparr>)"
  have "hart_start s h target scr = Ret (unlock (clint_set_msip ?s h) h) True"
    using assms u by (simp add: hart_start_def hart_defs not_le Let_def)
  moreover have "msip (unlock (clint_set_msip ?s h) h) k \<longleftrightarrow> h = k \<or> msip s k" for k
    using msip_set_hist [OF assms(2), of ?s s k] by (simp add: hart_defs msip_def)
  moreover have "(hart_lock s)[unat h := 0] = hart_lock s"
    using assms(3) u by (metis list_update_id lock_free_def)
  ultimately show ?thesis using u by (simp add: hart_defs)
qed

lemma hart_start_other:
  assumes "table_ok s" "h < 8" "lock_free s h" "status (hart_of s h) \<noteq> HS_STOPPED"
  shows "hart_start s h target scr = Ret s False"
proof -
  have u: "unat h < 8" using assms(2) by (rule small_hart)
  have "(hart_lock s)[unat h := 0] = hart_lock s"
    using assms(3) u by (metis list_update_id lock_free_def)
  then show ?thesis
    using assms u by (cases s) (simp add: hart_start_def hart_defs not_le Let_def)
qed

lemma hart_stop_started:
  assumes "table_ok s" "h < 8" "lock_free s h" "status (hart_of s h) = HS_STARTED"
  shows "\<exists>s'. hart_stop s h = Jump s' \<and> hart_lock s' = hart_lock s \<and> park s' = park s \<and> csrs s' mepc = park s
    \<and> hart_data s' = (hart_data s)[unat h := (hart_of s h)\<lparr>status := HS_STOPPED\<rparr>] \<and> hist s' = hist s"
proof -
  have u: "unat h < 8" using assms(2) by (rule small_hart)
  have "(hart_lock s)[unat h := 0] = hart_lock s"
    using assms(3) u by (metis list_update_id lock_free_def)
  then show ?thesis
    using assms u by (simp add: hart_stop_def hart_defs not_le Let_def CSR_WRITE_def)
qed

lemma hart_handle_msip_starting:
  assumes "table_ok s" "h < 8" "lock_free s h" "status (hart_of s h) = HS_STARTING"
  shows "\<exists>s'. hart_handle_msip s h = Jump s' \<and> hart_lock s' = hart_lock s \<and> park s' = park s
    \<and> csrs s' mepc = target_address (hart_of s h) \<and> csrs s' sscratch = ucast h
    \<and> csrs s' mstatus = push_bit 11 (priv_code (priv_mode (hart_of s h))) OR MSTATUS_MPIE OR MSTATUS_FS_INITIAL
    \<and> hart_data s' = (hart_data s)[unat h := (hart_of s h)\<lparr>status := HS_STARTED\<rparr>]
    \<and> (\<forall>k. msip s' k \<longleftrightarrow> h \<noteq> k \<and> msip s k)"
proof -
  have u: "unat h < 8" using assms(2) by (rule small_hart)
  have l: "(hart_lock s)[unat h := 0] = hart_lock s"
    using assms(3) u by (metis list_update_id lock_free_def)
  let ?s = "clint_clear_msip (set_lock s h 1) h"
  have m: "msip ?s k \<longleftrightarrow> h \<noteq> k \<and> msip s k" for k
    using msip_clear_hist [OF assms(2), of "set_lock s h 1" s k] by (simp add: hart_defs)
  have st: "hart_of ?s h = hart_of s h" by (simp add: hart_defs)
  show ?thesis
    using assms u l m by (simp add: hart_handle_msip_def hart_defs not_le Let_def CSR_WRITE_def msip_def)
qed

section \<open>Several harts\<close>

text \<open>
  The shared table and devices, and for each hart its CSRs and where it runs: a hart whose
  \<open>pc\<close> is not \<open>park\<close> executes what it was sent to. Each call runs under the lock of the hart
  it is about, so it is one step. A call to \<open>hart_start\<close> comes from a hart that runs; the
  target is not the firmware's park loop. \<open>hart_stop\<close> is called for the hart itself.
\<close>

record sys =
  sh :: sbi
  cs :: "u32 \<Rightarrow> csr \<Rightarrow> u64"
  pc :: "u32 \<Rightarrow> u64"

definition on_hart :: "sys \<Rightarrow> u32 \<Rightarrow> sbi" where
  "on_hart y h = (sh y)\<lparr>csrs := (cs y h)(mepc := pc y h)\<rparr>"

definition jumped :: "sys \<Rightarrow> u32 \<Rightarrow> sbi \<Rightarrow> sys" where
  "jumped y h s = y\<lparr>sh := s, cs := (cs y)(h := csrs s), pc := (pc y)(h := csrs s mepc)\<rparr>"

inductive hart_step :: "sys \<Rightarrow> sys \<Rightarrow> bool" where
  start_call: "k < 8 \<Longrightarrow> pc y k \<noteq> park (sh y) \<Longrightarrow> h < 8 \<Longrightarrow> t \<noteq> park (sh y) \<Longrightarrow>
     hart_start (sh y) h t x = Ret s' r \<Longrightarrow> hart_step y (y\<lparr>sh := s'\<rparr>)"
| stop_done: "h < 8 \<Longrightarrow> pc y h \<noteq> park (sh y) \<Longrightarrow> hart_stop (on_hart y h) h = Jump s' \<Longrightarrow> hart_step y (jumped y h s')"
| stop_refused: "h < 8 \<Longrightarrow> pc y h \<noteq> park (sh y) \<Longrightarrow> hart_stop (on_hart y h) h = Ret s' r \<Longrightarrow>
     hart_step y (y\<lparr>sh := s'\<rparr>)"
| wake: "h < 8 \<Longrightarrow> msip (sh y) h \<Longrightarrow> hart_handle_msip (on_hart y h) h = Jump s' \<Longrightarrow> hart_step y (jumped y h s')"

inductive_cases hart_stepE: "hart_step y y'"

fun phase_ok :: "u64 \<Rightarrow> HartData \<Rightarrow> bool \<Rightarrow> u64 \<Rightarrow> bool" where
  "phase_ok pk d pending addr =
     (case status d of
        HS_STOPPED \<Rightarrow> \<not> pending \<and> addr = pk
      | HS_STARTING \<Rightarrow> pending \<and> addr = pk \<and> target_address d \<noteq> pk
      | HS_STARTED \<Rightarrow> \<not> pending \<and> addr \<noteq> pk
      | _ \<Rightarrow> False)"

lemma phase_update:
  "phase_ok pk (d\<lparr>status := HS_STOPPED\<rparr>) pending addr \<longleftrightarrow> \<not> pending \<and> addr = pk"
  "phase_ok pk (d\<lparr>status := HS_STARTED\<rparr>) pending addr \<longleftrightarrow> \<not> pending \<and> addr \<noteq> pk"
  "phase_ok pk (d\<lparr>status := HS_STARTING, target_address := t, scratch := x\<rparr>) pending addr
     \<longleftrightarrow> pending \<and> addr = pk \<and> t \<noteq> pk"
  by (cases d, simp)+

lemma phase_status:
  "status d = HS_STOPPED \<Longrightarrow> phase_ok pk d pending addr \<longleftrightarrow> \<not> pending \<and> addr = pk"
  "status d = HS_STARTED \<Longrightarrow> phase_ok pk d pending addr \<longleftrightarrow> \<not> pending \<and> addr \<noteq> pk"
  "status d = HS_STARTING \<Longrightarrow> phase_ok pk d pending addr \<longleftrightarrow> pending \<and> addr = pk \<and> target_address d \<noteq> pk"
  "phase_ok pk d pending addr \<Longrightarrow> addr \<noteq> pk \<Longrightarrow> status d = HS_STARTED"
  "phase_ok pk d pending addr \<Longrightarrow> pending \<Longrightarrow> status d = HS_STARTING"
  by (auto split: HartStatus.splits)

declare phase_ok.simps [simp del]

definition hart_inv :: "sys \<Rightarrow> bool" where
  "hart_inv y \<longleftrightarrow> table_ok (sh y) \<and> (\<forall>h<8. lock_free (sh y) h
     \<and> phase_ok (park (sh y)) (hart_of (sh y) h) (msip (sh y) h) (pc y h))"

lemma on_hart_simps [simp]:
  "table_ok (on_hart y h) = table_ok (sh y)" "lock_free (on_hart y h) k = lock_free (sh y) k"
  "hart_of (on_hart y h) k = hart_of (sh y) k" "msip (on_hart y h) k = msip (sh y) k"
  "park (on_hart y h) = park (sh y)" "hart_data (on_hart y h) = hart_data (sh y)"
  "hart_lock (on_hart y h) = hart_lock (sh y)" "hist (on_hart y h) = hist (sh y)"
  by (simp_all add: on_hart_def hart_defs msip_def)

lemma jumped_simps [simp]: "sh (jumped y h s) = s" "pc (jumped y h s) = (pc y)(h := csrs s mepc)"
  by (simp_all add: jumped_def)

text \<open>A step that changes one entry of the table and what is said of that hart.\<close>

lemma hart_inv_update:
  assumes "hart_inv y" "h < 8" "hart_data (sh y') = (hart_data (sh y))[unat h := d]" "hart_lock (sh y') = hart_lock (sh y)"
    and "park (sh y') = park (sh y)" "phase_ok (park (sh y)) d (msip (sh y') h) (pc y' h)"
    and "\<And>k. k \<noteq> h \<Longrightarrow> msip (sh y') k = msip (sh y) k \<and> pc y' k = pc y k"
  shows "hart_inv y'"
proof -
  have l: "length (hart_data (sh y)) = 8" using assms(1) by (simp add: hart_inv_def table_ok_def)
  have "hart_of (sh y') k = (if k = h then d else hart_of (sh y) k)" for k
    using assms(2,3) l small_hart by (auto simp: hart_of_def word_unat_eq_iff nth_list_update)
  then show ?thesis using assms unfolding hart_inv_def table_ok_def lock_free_def by auto
qed

lemma hart_inv_step:
  assumes "hart_inv y" "hart_step y y'"
  shows "hart_inv y'"
  using assms(2)
proof (cases rule: hart_step.cases)
  case (start_call k h t x s' r)
  have i: "table_ok (sh y)" "lock_free (sh y) h" "phase_ok (park (sh y)) (hart_of (sh y) h) (msip (sh y) h) (pc y h)"
    using assms(1) start_call(4) by (simp_all add: hart_inv_def)
  show ?thesis
  proof (cases "status (hart_of (sh y) h) = HS_STOPPED")
    case True
    obtain s1 where s1: "hart_start (sh y) h t x = Ret s1 True" "hart_lock s1 = hart_lock (sh y)" "park s1 = park (sh y)"
      "hart_data s1 = (hart_data (sh y))[unat h := (hart_of (sh y) h)\<lparr>status := HS_STARTING, target_address := t, scratch := x\<rparr>]"
      "\<And>k. msip s1 k \<longleftrightarrow> h = k \<or> msip (sh y) k"
      using hart_start_stopped [OF i(1) start_call(4) i(2) True] by blast
    have e: "y' = y\<lparr>sh := s1\<rparr>" using start_call(1,6) s1(1) by simp
    show ?thesis unfolding e
      by (rule hart_inv_update [OF assms(1) start_call(4),
            where d = "(hart_of (sh y) h)\<lparr>status := HS_STARTING, target_address := t, scratch := x\<rparr>"])
        (use start_call(5) i(3) in \<open>simp_all add: s1 phase_update phase_status(1) [OF True]\<close>)
  next
    case False
    then show ?thesis using hart_start_other [OF i(1) start_call(4) i(2) False, of t x] start_call assms(1) by simp
  qed
next
  case (stop_done h s')
  have i: "table_ok (sh y)" "lock_free (sh y) h" "phase_ok (park (sh y)) (hart_of (sh y) h) (msip (sh y) h) (pc y h)"
    using assms(1) stop_done(2) by (simp_all add: hart_inv_def)
  then have st: "status (hart_of (sh y) h) = HS_STARTED" using stop_done(3) by (intro phase_status(4))
  obtain s1 where s1: "hart_stop (on_hart y h) h = Jump s1" "hart_lock s1 = hart_lock (sh y)" "park s1 = park (sh y)"
    "csrs s1 mepc = park (sh y)" "hist s1 = hist (sh y)"
    "hart_data s1 = (hart_data (sh y))[unat h := (hart_of (sh y) h)\<lparr>status := HS_STOPPED\<rparr>]"
    using hart_stop_started [of "on_hart y h" h] i st stop_done(2) by auto
  have e: "y' = jumped y h s1" using stop_done(1,4) s1(1) by simp
  have m: "msip s1 k = msip (sh y) k" for k by (rule msip_cong [OF s1(5)])
  show ?thesis unfolding e
    by (rule hart_inv_update [OF assms(1) stop_done(2), where d = "(hart_of (sh y) h)\<lparr>status := HS_STOPPED\<rparr>"])
      (use i(3) in \<open>simp_all add: s1(2-4,6) m phase_update phase_status(2) [OF st]\<close>)
next
  case (stop_refused h s' r)
  have i: "table_ok (sh y)" "lock_free (sh y) h" "phase_ok (park (sh y)) (hart_of (sh y) h) (msip (sh y) h) (pc y h)"
    using assms(1) stop_refused(2) by (simp_all add: hart_inv_def)
  then have "status (hart_of (sh y) h) = HS_STARTED" using stop_refused(3) by (intro phase_status(4))
  then show ?thesis using hart_stop_started [of "on_hart y h" h] i stop_refused by auto
next
  case (wake h s')
  have i: "table_ok (sh y)" "lock_free (sh y) h" "phase_ok (park (sh y)) (hart_of (sh y) h) (msip (sh y) h) (pc y h)"
    using assms(1) wake(2) by (simp_all add: hart_inv_def)
  then have st: "status (hart_of (sh y) h) = HS_STARTING" using wake(3) by (intro phase_status(5))
  obtain s1 where s1: "hart_handle_msip (on_hart y h) h = Jump s1" "hart_lock s1 = hart_lock (sh y)" "park s1 = park (sh y)"
    "csrs s1 mepc = target_address (hart_of (sh y) h)" "\<And>k. msip s1 k \<longleftrightarrow> h \<noteq> k \<and> msip (sh y) k"
    "hart_data s1 = (hart_data (sh y))[unat h := (hart_of (sh y) h)\<lparr>status := HS_STARTED\<rparr>]"
    using hart_handle_msip_starting [of "on_hart y h" h] i st wake(2) by auto
  have e: "y' = jumped y h s1" using wake(1,4) s1(1) by simp
  show ?thesis unfolding e
    by (rule hart_inv_update [OF assms(1) wake(2), where d = "(hart_of (sh y) h)\<lparr>status := HS_STARTED\<rparr>"])
      (use i(3) in \<open>simp_all add: s1 phase_update phase_status(3) [OF st]\<close>)
qed

lemma hart_inv_steps: "hart_step\<^sup>*\<^sup>* y y' \<Longrightarrow> hart_inv y \<Longrightarrow> hart_inv y'"
  by (induction rule: rtranclp_induct) (auto intro: hart_inv_step)

text \<open>The state the boot leaves: hart 0 runs the OS, the others are parked.\<close>

definition booted :: "sys \<Rightarrow> bool" where
  "booted y \<longleftrightarrow> table_ok (sh y) \<and> (\<forall>h<8. lock_free (sh y) h \<and> \<not> msip (sh y) h
     \<and> (if h = 0 then status (hart_of (sh y) h) = HS_STARTED \<and> pc y h = OS_LOAD_ADDR
        else status (hart_of (sh y) h) = HS_STOPPED \<and> pc y h = park (sh y)))
     \<and> park (sh y) \<noteq> OS_LOAD_ADDR"

lemma booted_inv: "booted y \<Longrightarrow> hart_inv y"
  unfolding booted_def hart_inv_def using phase_status(1-3) by metis

lemma reachable_phase:
  assumes "booted y0" "hart_step\<^sup>*\<^sup>* y0 y" "h < 8"
  shows "table_ok (sh y)" "lock_free (sh y) h" "phase_ok (park (sh y)) (hart_of (sh y) h) (msip (sh y) h) (pc y h)"
  using hart_inv_steps [OF assms(2) booted_inv [OF assms(1)]] assms(3) by (auto simp: hart_inv_def)

text \<open>A firmware state with nothing pending, and the system just booted from it.\<close>

definition demo_sbi :: sbi where
  "demo_sbi = \<lparr>hist = [], con = \<lparr>buf = replicate 10 0, fill = 0, start = 0, buf_mutex = 0\<rparr>,
     hart_data = zero_hart\<lparr>status := HS_STARTED, priv_mode := HPM_MACHINE\<rparr>
       # replicate 7 (zero_hart\<lparr>status := HS_STOPPED, priv_mode := HPM_MACHINE\<rparr>),
     hart_lock = replicate 8 0, hart0lock = 0, csrs = (\<lambda>_. 0), frame_regs = (\<lambda>_. 0), messages = [],
     park = 0x80000100, sbi_trap_vector = 0x80000200, SBI_GPREGS = 0x80001000\<rparr>"

definition demo_sys :: sys where
  "demo_sys = \<lparr>sh = demo_sbi, cs = (\<lambda>_ _. 0), pc = (\<lambda>h. if h = 0 then OS_LOAD_ADDR else 0x80000100)\<rparr>"

lemma below_8: "(h :: u32) < 8 \<Longrightarrow> h \<in> {0, 1, 2, 3, 4, 5, 6, 7}"
proof -
  assume "h < 8"
  then have "unat h < 8" by (rule small_hart)
  then obtain n where n: "n = unat h" "n \<in> {0, 1, 2, 3, 4, 5, 6, 7}" by fastforce
  then have "h = of_nat n" by simp
  then show ?thesis using n(2) by auto
qed

lemma demo_hart:
  assumes "h < 8"
  shows "hart_of demo_sbi h = zero_hart\<lparr>status := (if h = 0 then HS_STARTED else HS_STOPPED), priv_mode := HPM_MACHINE\<rparr>"
    and "lock_free demo_sbi h"
  using below_8 [OF assms] by (auto simp: hart_defs demo_sbi_def)

lemma demo_table: "table_ok demo_sbi" "\<not> msip demo_sbi h" "park demo_sbi = 0x80000100"
  by (simp_all add: table_ok_def demo_sbi_def msip_def)

lemma demo_booted: "booted demo_sys"
  using demo_table demo_hart by (simp add: booted_def demo_sys_def)

section \<open>Properties\<close>

text \<open>
  C6. The life of a hart. From the boot on, whatever calls the harts make and in whatever order,
  no lock stays held, every hart is stopped, starting or started; its software interrupt is
  pending exactly while it is starting, and it runs outside the park loop exactly while it
  is started.
\<close>

theorem hart_protocol:
  assumes "booted y0" "hart_step\<^sup>*\<^sup>* y0 y" "h < 8"
  shows "lock_free (sh y) h \<and> status (hart_of (sh y) h) \<in> {HS_STOPPED, HS_STARTING, HS_STARTED}
    \<and> (msip (sh y) h \<longleftrightarrow> status (hart_of (sh y) h) = HS_STARTING)
    \<and> (pc y h \<noteq> park (sh y) \<longleftrightarrow> status (hart_of (sh y) h) = HS_STARTED)"
  using reachable_phase [OF assms]
  by (cases "status (hart_of (sh y) h)") (simp_all add: phase_ok.simps)

lemma hart_protocol_witness:
  "\<exists>y. hart_step\<^sup>*\<^sup>* demo_sys y \<and> msip (sh y) 3 \<and> status (hart_of (sh y) 3) = HS_STARTING"
proof -
  have s: "table_ok (sh demo_sys)" "lock_free (sh demo_sys) 3" "status (hart_of (sh demo_sys) 3) = HS_STOPPED"
    using reachable_phase [OF demo_booted rtranclp.rtrancl_refl, of 3] demo_hart [of 3]
    by (simp_all add: demo_sys_def)
  obtain s' where s': "hart_start (sh demo_sys) 3 0x80051000 0 = Ret s' True" "msip s' 3"
    using hart_start_stopped [OF s(1) _ s(2,3), of "0x80051000" 0] by auto
  have "hart_step demo_sys (demo_sys\<lparr>sh := s'\<rparr>)"
    by (rule start_call [where k = 0 and h = 3 and t = "0x80051000", OF _ _ _ _ s'(1)])
      (simp_all add: demo_sys_def demo_sbi_def)
  then have r: "hart_step\<^sup>*\<^sup>* demo_sys (demo_sys\<lparr>sh := s'\<rparr>)" by (rule r_into_rtranclp)
  show ?thesis using hart_protocol [OF demo_booted r, of 3] s'(2) r by auto
qed

text \<open>
  In every reachable state the calls come back: \<open>hart_start\<close> returns and succeeds exactly for
  a stopped hart, a running hart that stops itself reaches the park loop, and a pending wakeup
  takes the hart to the address it was started with.
\<close>

theorem hart_calls_return:
  assumes "booted y0" "hart_step\<^sup>*\<^sup>* y0 y" "h < 8"
  shows "(\<exists>s' r. hart_start (sh y) h t x = Ret s' r \<and> (r \<longleftrightarrow> status (hart_of (sh y) h) = HS_STOPPED))
    \<and> (pc y h \<noteq> park (sh y) \<longrightarrow> (\<exists>s'. hart_stop (on_hart y h) h = Jump s' \<and> csrs s' mepc = park (sh y)))
    \<and> (msip (sh y) h \<longrightarrow> (\<exists>s'. hart_handle_msip (on_hart y h) h = Jump s'
          \<and> csrs s' mepc = target_address (hart_of (sh y) h)))"
proof -
  note i = reachable_phase [OF assms]
  have "\<exists>s' r. hart_start (sh y) h t x = Ret s' r \<and> (r \<longleftrightarrow> status (hart_of (sh y) h) = HS_STOPPED)"
    using hart_start_stopped [OF i(1) assms(3) i(2), of t x] hart_start_other [OF i(1) assms(3) i(2), of t x] by blast
  moreover have "\<exists>s'. hart_stop (on_hart y h) h = Jump s' \<and> csrs s' mepc = park (sh y)" if "pc y h \<noteq> park (sh y)"
    using hart_stop_started [of "on_hart y h" h] i assms(3) phase_status(4) [OF i(3) that] by auto
  moreover have "\<exists>s'. hart_handle_msip (on_hart y h) h = Jump s' \<and> csrs s' mepc = target_address (hart_of (sh y) h)"
    if "msip (sh y) h"
    using hart_handle_msip_starting [of "on_hart y h" h] i assms(3) phase_status(5) [OF i(3) that] by auto
  ultimately show ?thesis by blast
qed

lemma hart_calls_return_witness:
  "\<exists>s'. hart_start (sh demo_sys) 5 0x80051000 0 = Ret s' True"
  using hart_calls_return [OF demo_booted rtranclp.rtrancl_refl, of 5 "0x80051000" 0] demo_hart [of 5]
  by (auto simp: demo_sys_def)

text \<open>
  \<open>hart_stop\<close> leaves with the lock held when the hart is not started: afterwards the hart can
  never be started, and its wakeup handler spins forever.
\<close>

theorem hart_stop_leaks_lock:
  assumes "table_ok s" "h < 8" "lock_free s h" "status (hart_of s h) \<noteq> HS_STARTED"
  shows "\<exists>s'. hart_stop s h = Ret s' False \<and> hart_start s' h t x = Ret s' False \<and> hart_handle_msip s' h = Hang"
proof -
  have u: "unat h < 8" using assms(2) by (rule small_hart)
  let ?s = "set_lock s h 1"
  have "hart_stop s h = Ret ?s False" using assms by (simp add: hart_stop_def hart_defs not_le Let_def)
  moreover have "hart_lock ?s ! unat h = 1" using assms(1) u by (simp add: hart_defs)
  moreover from this have "set_lock ?s h 1 = ?s" by (metis (mono_tags, lifting) set_lock_def list_update_id sbi.surjective sbi.update_convs(2))
  ultimately show ?thesis using assms(2) by (auto simp: hart_start_def hart_handle_msip_def not_le Let_def)
qed

lemma hart_stop_leaks_lock_witness:
  "\<exists>s'. hart_stop demo_sbi 2 = Ret s' False \<and> hart_handle_msip s' 2 = Hang"
  using hart_stop_leaks_lock [of demo_sbi 2 0 0] demo_hart [of 2] demo_table by auto

text \<open>
  What a started hart gets. A stopped hart with the privilege the boot gives it, once started
  and woken, runs at the target with its own number in \<open>sscratch\<close>, whatever \<open>scratch\<close> value the
  caller passed, and in machine mode; a call it makes from there (cause 11) hangs it.
\<close>

theorem started_hart_state:
  assumes "table_ok s" "h < 8" "lock_free s h" "status (hart_of s h) = HS_STOPPED" "priv_mode (hart_of s h) = HPM_MACHINE"
  shows "\<exists>s1 s2. hart_start s h t x = Ret s1 True \<and> hart_handle_msip s1 h = Jump s2
    \<and> csrs s2 mepc = t \<and> csrs s2 sscratch = ucast h \<and> drop_bit 11 (csrs s2 mstatus) AND 3 = 3
    \<and> hart_get_status s2 h = HS_STARTED \<and> lock_free s2 h \<and> \<not> msip s2 h
    \<and> c_trap_handler dev (CSR_WRITE s2 mcause 11) = Hang"
proof -
  have u: "unat h < 8" using assms(2) by (rule small_hart)
  let ?d = "(hart_of s h)\<lparr>status := HS_STARTING, target_address := t, scratch := x\<rparr>"
  obtain s1 where s1: "hart_start s h t x = Ret s1 True" "hart_lock s1 = hart_lock s" "hart_data s1 = (hart_data s)[unat h := ?d]"
    using hart_start_stopped [OF assms(1-4)] by blast
  have d: "hart_of s1 h = ?d" using s1(3) assms(1) u by (simp add: hart_defs)
  have ok: "table_ok s1" "lock_free s1 h" using s1 assms(1,3) by (simp_all add: hart_defs)
  obtain s2 where s2: "hart_handle_msip s1 h = Jump s2" "hart_lock s2 = hart_lock s1" "csrs s2 mepc = t" "csrs s2 sscratch = ucast h"
    "hart_data s2 = (hart_data s1)[unat h := ?d\<lparr>status := HS_STARTED\<rparr>]" "\<not> msip s2 h"
    "csrs s2 mstatus = push_bit 11 3 OR push_bit 7 1 OR push_bit 13 1"
    using hart_handle_msip_starting [OF ok(1) assms(2) ok(2)] d assms(5) by auto
  then have "drop_bit 11 (csrs s2 mstatus) AND 3 = 3" by simp
  moreover have "hart_get_status s2 h = HS_STARTED"
    using s2(5) s1(3) assms(1,2) u by (simp add: hart_get_status_def hart_defs not_le)
  moreover have "c_trap_handler dev (CSR_WRITE s2 mcause 11) = Hang"
    by (simp add: c_trap_handler_def CSR_WRITE_def Let_def)
  ultimately show ?thesis using s1(1) s2 ok by (auto simp: lock_free_def)
qed

lemma started_hart_state_witness:
  "\<exists>s1 s2. hart_start demo_sbi 4 0x80051000 0x80200000 = Ret s1 True \<and> hart_handle_msip s1 4 = Jump s2
     \<and> csrs s2 mepc = 0x80051000 \<and> csrs s2 sscratch = 4"
  using started_hart_state [of demo_sbi 4 "0x80051000" "0x80200000" "\<lambda>_ _ _. 0"] demo_hart [of 4] demo_table
  by auto

text \<open>
  Acknowledging the timer (call 12) clears the pending bit and then runs into the next case:
  the caller's a0 is overwritten with the clock. The call returns behind the \<open>ecall\<close>.
\<close>

theorem ack_timer_overwrites_a0:
  assumes "csrs s mcause = 9" "frame_regs s XREG_A7 = 12"
  shows "\<exists>s'. c_trap_handler dev s = Ret s' () \<and> \<not> bit (csrs s' mip) 5 \<and> csrs s' mepc = csrs s mepc + 4
    \<and> frame_regs s' XREG_A0 = snd (rtc_get_time dev s)"
proof -
  have "rtc_get_time dev (CSR_WRITE s c v) = (CSR_WRITE (fst (rtc_get_time dev s)) c v, snd (rtc_get_time dev s))" for c v
    by (simp add: rtc_get_time_def rd_eq CSR_WRITE_def emit_def Let_def)
  then have "c_trap_handler dev s = Ret (CSR_WRITE (set_a0 (CSR_WRITE (fst (rtc_get_time dev s)) mip
      (csrs s mip AND NOT (push_bit 5 1))) (snd (rtc_get_time dev s))) mepc (csrs s mepc + 4)) ()"
    using assms by (simp add: c_trap_handler_def svccall_handle_def svc_rtc_get_time_def Let_def)
  then show ?thesis by (simp add: CSR_WRITE_def set_a0_def bit_simps)
qed

lemma ack_timer_overwrites_a0_witness:
  "\<exists>s'. c_trap_handler (\<lambda>_ _ _. 7) (demo_sbi\<lparr>csrs := (\<lambda>_. 0)(mcause := 9), frame_regs := (\<lambda>_. 0)(17 := 12)\<rparr>) = Ret s' ()
     \<and> frame_regs s' 10 = 0x700000007"
  using ack_timer_overwrites_a0 [of "demo_sbi\<lparr>csrs := (\<lambda>_. 0)(mcause := 9), frame_regs := (\<lambda>_. 0)(17 := 12)\<rparr>" "\<lambda>_ _ _. 7"]
  by (auto simp: rtc_get_time_def rd_eq)

text \<open>The OS reads the console: a call 11 is one trap; the bytes a sequence of calls gives.\<close>

fun getchars :: "device \<Rightarrow> sbi \<Rightarrow> nat \<Rightarrow> u8 list option" where
  "getchars dev s 0 = Some []"
| "getchars dev s (Suc n) =
     (case c_trap_handler dev (s\<lparr>csrs := (csrs s)(mcause := 9), frame_regs := (frame_regs s)(XREG_A7 := 11)\<rparr>) of
        Ret s' _ \<Rightarrow> map_option (\<lambda>cs. ucast (frame_regs s' XREG_A0) # cs) (getchars dev s' n)
      | _ \<Rightarrow> None)"

lemma ucast_back: "(ucast (ucast (c :: u8) :: u64) :: u8) = c"
  by (rule bit_word_eqI) (auto simp: bit_simps dest: bit_imp_le_length)

lemma getchars_ring:
  "con_ok (con s) \<Longrightarrow> getchars dev s n = Some (take n (con_elems (con s) @ replicate n 0xff))"
proof (induction n arbitrary: s)
  case (Suc n)
  have one: "\<exists>s'. con s' = r \<and> getchars dev s (Suc n) = map_option ((#) c) (getchars dev s' n)"
    if "ring_get (con s) = Some (r, c)" for r c
  proof -
    let ?s = "CSR_WRITE (set_a0 (s\<lparr>csrs := (csrs s)(mcause := 9),
      frame_regs := (frame_regs s)(XREG_A7 := 11), con := r\<rparr>) (ucast c)) mepc (csrs s mepc + 4)"
    have "getchars dev s (Suc n) = map_option ((#) c) (getchars dev ?s n)"
      using that by (simp add: c_trap_handler_def svccall_handle_def Let_def)
        (simp add: CSR_WRITE_def set_a0_def ucast_back)
    moreover have "con ?s = r" by (simp add: CSR_WRITE_def set_a0_def)
    ultimately show ?thesis by blast
  qed
  show ?case
  proof (cases "con_elems (con s)")
    case Nil
    then have "ring_get (con s) = Some (con s, 0xff)"
      using ring_get_eq [OF Suc.prems] by (simp add: con_elems_def)
    from one [OF this] obtain s' where s': "con s' = con s" "getchars dev s (Suc n) = map_option ((#) 0xff) (getchars dev s' n)"
      by blast
    show ?thesis using s' Suc.IH [of s'] Suc.prems Nil by simp
  next
    case (Cons x xs)
    then obtain r where r: "con_get (con s) = Some (r, Some x)" "con_ok r" "con_elems r = xs"
      using console.get_first [OF Suc.prems] by blast
    then have "ring_get (con s) = Some (r, x)" by (auto simp: con_get_def split: if_splits)
    from one [OF this] obtain s' where s': "con s' = r" "getchars dev s (Suc n) = map_option ((#) x) (getchars dev s' n)"
      by blast
    have "take m (0xff # replicate n (0xff :: u8)) = replicate m 0xff" if "m \<le> n" for m
      using that by (cases m) (simp_all add: min_def)
    then show ?thesis using s' Suc.IH [of s'] r Cons by simp
  qed
qed simp

text \<open>The interrupt of the port fills the ring; the handler writes to the interrupt controller only.\<close>

lemma port_interrupt:
  assumes "csrs s mcause = push_bit 63 1 OR 11" "csrs s mhartid = 0" "con_ok (con s)"
    and "dev (hist s) 4 (PLIC_CLAIM 0 PLIC_MODE_MACHINE) = 10" "uart_receives dev xs"
  shows "\<exists>s'. c_trap_handler dev s = Ret s' () \<and> con_ok (con s')
    \<and> con_elems (con s') = take 10 (con_elems (con s) @ takeWhile (\<lambda>c. c \<noteq> 0xff) (drop (taken_bytes (hist s)) xs))
    \<and> written s' = written s @ [W 4 (PLIC_CLAIM 0 PLIC_MODE_MACHINE) 10]"
proof -
  obtain s0 where c: "sbi_plic_claim dev s 0 = (s0, 10)"
    and k: "con s0 = con s" "taken_bytes (hist s0) = taken_bytes (hist s)" "written s0 = written s"
    using assms(4) by (simp add: sbi_plic_claim_def rd_eq PLIC_CLAIM_def PLIC_THRESHOLD_def written_def)
  obtain s1 where s1: "uart_handle_irq dev s0 = Some s1" "con_ok (con s1)"
    "con_elems (con s1) = take 10 (con_elems (con s) @ takeWhile (\<lambda>c. c \<noteq> 0xff) (drop (taken_bytes (hist s)) xs))"
    using uart_handle_irq_drains [OF assms(5), of s0] assms(3) k by auto
  have "c_trap_handler dev s = Ret (sbi_plic_complete s1 0 10) ()"
    using assms(1,2) c s1(1) by (simp add: c_trap_handler_def Let_def sbi_plic_handle_irq_def)
  moreover have "con (sbi_plic_complete s1 0 10) = con s1" by (simp add: sbi_plic_complete_def wr_def)
  moreover have "written (sbi_plic_complete s1 0 10) = written s @ [W 4 (PLIC_CLAIM 0 PLIC_MODE_MACHINE) 10]"
    using uart_handle_irq_written [OF s1(1)] k(3) by (simp add: sbi_plic_complete_def written_wr)
  ultimately show ?thesis using s1(2,3) by simp
qed

text \<open>
  From the serial port to the OS. When the interrupt controller reports the port, the trap
  handler returns, and the following console calls of the OS give what the ring held and what the
  port received up to its first 0xff byte, in order and ten bytes at most, and then 0xff.
\<close>

theorem console_end_to_end:
  assumes "csrs s mcause = push_bit 63 1 OR 11" "csrs s mhartid = 0" "con_ok (con s)"
    and "dev (hist s) 4 (PLIC_CLAIM 0 PLIC_MODE_MACHINE) = 10" "uart_receives dev xs"
  shows "\<exists>s'. c_trap_handler dev s = Ret s' () \<and> (\<forall>n. getchars dev s' n =
    Some (take n (take 10 (con_elems (con s) @ takeWhile (\<lambda>c. c \<noteq> 0xff) (drop (taken_bytes (hist s)) xs)) @ replicate n 0xff)))"
  using port_interrupt [OF assms] getchars_ring by fastforce

text \<open>A port that receives \<open>xs\<close>, behind interrupt 10.\<close>

definition demo_port :: "u8 list \<Rightarrow> device" where
  "demo_port xs h n a =
     (if a = UART + 5 then (if taken_bytes h < length xs then 1 else 0)
      else if a = UART then ucast (xs ! taken_bytes h)
      else 10)"

lemma demo_port_receives: "uart_receives (demo_port xs) xs"
  by (simp add: uart_receives_def demo_port_def ucast_back)

lemma console_end_to_end_witness:
  "\<exists>s'. c_trap_handler (demo_port [104, 105]) (demo_sbi\<lparr>csrs := (\<lambda>_. 0)(mcause := push_bit 63 1 OR 11)\<rparr>) = Ret s' ()
     \<and> getchars (demo_port [104, 105]) s' 3 = Some [104, 105, 0xff]"
proof -
  let ?s = "demo_sbi\<lparr>csrs := (\<lambda>_. 0)(mcause := push_bit 63 1 OR 11)\<rparr>"
  have e: "con_ok (con ?s)" "con_elems (con ?s) = []" "hist ?s = []"
    by (simp_all add: demo_sbi_def con_ok_def con_elems_def)
  have "\<exists>s'. c_trap_handler (demo_port [104, 105]) ?s = Ret s' () \<and> (\<forall>n. getchars (demo_port [104, 105]) s' n =
    Some (take n (take 10 (con_elems (con ?s) @ takeWhile (\<lambda>c. c \<noteq> 0xff) (drop (taken_bytes (hist ?s)) [104, 105]))
      @ replicate n 0xff)))"
    by (rule console_end_to_end)
      (use e demo_port_receives in \<open>simp_all add: demo_port_def PLIC_CLAIM_def PLIC_THRESHOLD_def\<close>)
  then obtain s' where s': "c_trap_handler (demo_port [104, 105]) ?s = Ret s' ()"
    "getchars (demo_port [104, 105]) s' 3 = Some (take 3 (take 10 (con_elems (con ?s) @ takeWhile (\<lambda>c. c \<noteq> 0xff)
      (drop (taken_bytes (hist ?s)) [104, 105])) @ replicate 3 0xff))" by blast
  have "getchars (demo_port [104, 105]) s' 3 = Some [104, 105, 0xff]" unfolding s'(2) e by simp
  then show ?thesis using s'(1) by blast
qed

text \<open>The harts other than hart 0 boot one after another.\<close>

fun boot_others :: "device \<Rightarrow> sbi \<Rightarrow> u32 list \<Rightarrow> sbi option" where
  "boot_others dev s [] = Some s"
| "boot_others dev s (h # hs) = (case sbi_main dev s h of Jump s' \<Rightarrow> boot_others dev s' hs | _ \<Rightarrow> None)"

definition parked :: "sbi \<Rightarrow> u32 \<Rightarrow> bool" where
  "parked s h \<longleftrightarrow> status (hart_of s h) = HS_STOPPED \<and> priv_mode (hart_of s h) = HPM_MACHINE"

lemma main_other_result:
  assumes "table_ok s" "hart0lock s = 0" "h \<noteq> 0" "h < 8"
  shows "\<exists>s'. sbi_main dev s h = Jump s' \<and> table_ok s' \<and> hart0lock s' = 0 \<and> hart_lock s' = hart_lock s \<and> hist s' = hist s
    \<and> csrs s' mepc = park s \<and> park s' = park s
    \<and> hart_data s' = (hart_data s)[unat h := (hart_of s h)\<lparr>status := HS_STOPPED, target_address := 0, priv_mode := HPM_MACHINE\<rparr>]"
  using assms by (simp add: sbi_main_def main_other_def hart_defs Let_def CSR_WRITE_def pmp_init_def not_le)

lemma boot_others_result:
  "table_ok s \<Longrightarrow> hart0lock s = 0 \<Longrightarrow> set hs \<subseteq> {h. h \<noteq> 0 \<and> h < 8} \<Longrightarrow>
     \<exists>s'. boot_others dev s hs = Some s' \<and> table_ok s' \<and> hart_lock s' = hart_lock s \<and> hist s' = hist s \<and> park s' = park s
       \<and> (\<forall>k. parked s' k \<longleftrightarrow> k \<in> set hs \<or> parked s k) \<and> (\<forall>k. k \<notin> set hs \<longrightarrow> hart_of s' k = hart_of s k)"
proof (induction hs arbitrary: s)
  case (Cons h hs)
  obtain s1 where s1: "sbi_main dev s h = Jump s1" "table_ok s1" "hart0lock s1 = 0" "hart_lock s1 = hart_lock s" "hist s1 = hist s"
    "park s1 = park s"
    "hart_data s1 = (hart_data s)[unat h := (hart_of s h)\<lparr>status := HS_STOPPED, target_address := 0, priv_mode := HPM_MACHINE\<rparr>]"
    using main_other_result [OF Cons.prems(1,2), of h dev] Cons.prems(3) by auto
  have d: "hart_of s1 k = (if k = h then (hart_of s h)\<lparr>status := HS_STOPPED, target_address := 0, priv_mode := HPM_MACHINE\<rparr>
      else hart_of s k)" for k
    using s1(7) Cons.prems small_hart [of h] by (auto simp: hart_of_def table_ok_def word_unat_eq_iff)
  then have p: "parked s1 k \<longleftrightarrow> k = h \<or> parked s k" for k by (auto simp: parked_def)
  obtain s' where s': "boot_others dev s1 hs = Some s'" "table_ok s'" "hart_lock s' = hart_lock s1" "hist s' = hist s1"
    "park s' = park s1" "\<And>k. parked s' k \<longleftrightarrow> k \<in> set hs \<or> parked s1 k" "\<And>k. k \<notin> set hs \<Longrightarrow> hart_of s' k = hart_of s1 k"
    using Cons.IH [OF s1(2,3)] Cons.prems(3) by auto
  show ?case
    by (rule exI [of _ s']) (use s1(1,4-6) s' d p in auto)
qed simp

lemma plic_init_fields:
  "hart_data (plic_init dev s) = hart_data s" "hart_lock (plic_init dev s) = hart_lock s"
  "hart0lock (plic_init dev s) = hart0lock s" "csrs (plic_init dev s) = csrs s" "park (plic_init dev s) = park s"
  "h < 8 \<Longrightarrow> msip (plic_init dev s) h = msip s h"
proof -
  show "msip (plic_init dev s) h = msip s h" if "h < 8"
    using below_8 [OF that]
    by (auto simp: plic_init_def sbi_plic_enable_def sbi_plic_set_priority_def sbi_plic_set_threshold_def rd_eq Let_def
        msip_def msip_reg_def PLIC_ENABLE_def PLIC_PRIORITY_def PLIC_THRESHOLD_def enable_word_def)
qed (simp_all add: plic_init_def sbi_plic_enable_def sbi_plic_set_priority_def sbi_plic_set_threshold_def rd_eq wr_def Let_def)

lemma uart_init_fields:
  "hart_data (uart_init s) = hart_data s" "hart_lock (uart_init s) = hart_lock s" "msip (uart_init s) h = msip s h"
  by (simp_all add: uart_init_def wr_def msip_def)

lemma main_first_result:
  "\<exists>s1. sbi_main dev s 0 = Jump s1 \<and> csrs s1 mepc = OS_LOAD_ADDR \<and> drop_bit 11 (csrs s1 mstatus) AND 3 = 1
     \<and> table_ok s1 \<and> hart_lock s1 = replicate 8 0 \<and> hart0lock s1 = 0 \<and> status (hart_of s1 0) = HS_STARTED
     \<and> (\<forall>h<8. msip s1 h = msip s h)"
proof -
  let ?s = "plic_init dev ((uart_init (clear_bss s))\<lparr>hart0lock := 0\<rparr>)"
  have d: "hart_data ?s = replicate 8 zero_hart" "hart_lock ?s = replicate 8 0" "hart0lock ?s = 0"
    by (simp_all add: plic_init_fields uart_init_fields clear_bss_def)
  have m: "msip ?s h = msip s h" if "h < 8" for h
  proof -
    have "msip ?s h = msip ((uart_init (clear_bss s))\<lparr>hart0lock := 0\<rparr>) h" by (rule plic_init_fields(6) [OF that])
    also have "\<dots> = msip (uart_init (clear_bss s)) h" by (rule msip_cong) simp
    also have "\<dots> = msip (clear_bss s) h" by (rule uart_init_fields)
    also have "\<dots> = msip s h" by (rule msip_cong) (simp add: clear_bss_def)
    finally show ?thesis .
  qed
  show ?thesis
    using d m by (simp add: sbi_main_def main_first_def Let_def CSR_WRITE_def pmp_init_def hart_defs msip_def)
qed

text \<open>
  Boot. While hart 0 has not released the boot lock every other hart waits. Hart 0 leaves for
  the OS in supervisor mode, and the others, in any order after it, go to the park loop; the table
  then has hart 0 started and the others stopped, with every lock free and no interrupt pending.
\<close>

theorem boot_result:
  assumes "hart0lock s = MUTEX_LOCKED" "set hs = {h. h \<noteq> 0 \<and> h < 8}" "\<forall>h<8. \<not> msip s h"
  shows "(\<forall>h. h \<noteq> 0 \<and> h < 8 \<longrightarrow> sbi_main dev s h = Hang)
    \<and> (\<exists>s1 s2. sbi_main dev s 0 = Jump s1 \<and> csrs s1 mepc = OS_LOAD_ADDR \<and> drop_bit 11 (csrs s1 mstatus) AND 3 = 1
        \<and> boot_others dev s1 hs = Some s2 \<and> table_ok s2 \<and> hart_get_status s2 0 = HS_STARTED
        \<and> (\<forall>h<8. lock_free s2 h \<and> \<not> msip s2 h \<and> (h \<noteq> 0 \<longrightarrow> parked s2 h)))"
proof -
  have w: "sbi_main dev s h = Hang" if "h \<noteq> 0" "h < 8" for h
    using that assms(1) by (simp add: sbi_main_def main_other_def not_le)
  obtain s1 where s1: "sbi_main dev s 0 = Jump s1" "csrs s1 mepc = OS_LOAD_ADDR" "drop_bit 11 (csrs s1 mstatus) AND 3 = 1"
    "table_ok s1" "hart_lock s1 = replicate 8 0" "hart0lock s1 = 0" "status (hart_of s1 0) = HS_STARTED" "\<And>h. h < 8 \<Longrightarrow> \<not> msip s1 h"
    using main_first_result [of dev s] assms(3) by blast
  obtain s2 where s2: "boot_others dev s1 hs = Some s2" "table_ok s2" "hart_lock s2 = hart_lock s1" "hist s2 = hist s1"
    "\<And>k. parked s2 k \<longleftrightarrow> k \<in> set hs \<or> parked s1 k" "hart_of s2 0 = hart_of s1 0"
    using boot_others_result [OF s1(4,6), of hs dev] assms(2) by auto
  have "lock_free s2 h" if "h < 8" for h using s2(3) s1(5) small_hart [OF that] by (simp add: lock_free_def)
  moreover have "\<not> msip s2 h" if "h < 8" for h using s1(8) [OF that] msip_cong [OF s2(4)] by blast
  moreover have "hart_get_status s2 0 = HS_STARTED" using s2(6) s1(7) by (simp add: hart_get_status_def)
  ultimately show ?thesis using w s1(1-3) s2(1,2,5) assms(2) by auto
qed

lemma boot_result_witness:
  "\<exists>s1 s2. sbi_main (\<lambda>_ _ _. 0) (demo_sbi\<lparr>hart0lock := 1\<rparr>) 0 = Jump s1
     \<and> boot_others (\<lambda>_ _ _. 0) s1 [3, 1, 2, 7, 6, 5, 4] = Some s2 \<and> parked s2 5"
proof -
  have h: "set [3, 1, 2, 7, 6, 5, 4] = {h :: u32. h \<noteq> 0 \<and> h < 8}" using below_8 by auto
  show ?thesis
    using boot_result [of "demo_sbi\<lparr>hart0lock := 1\<rparr>" "[3, 1, 2, 7, 6, 5, 4]" "\<lambda>_ _ _. 0", OF _ h]
    by (auto simp: demo_sbi_def msip_def)
qed

end
