(* ===== verification/LinkedList.thy ===== *)
theory LinkedList
  imports Memory
begin

text \<open>
  Circular doubly-linked lists in memory. Two components keep one with the same code and other
  field offsets: the free list of src/src/kmalloc.c and the map of src/src/map.c. The locale
  \<open>circular\<close> relates a list in memory, given the offsets of its two link fields, to the HOL
  list of its node addresses and gives what insertion and removal do to it.
\<close>

section \<open>The two link operations\<close>

text \<open>
  \<open>b->next = a->next; b->prev = a; b->next->prev = b; b->prev->next = b\<close>, with \<open>next\<close> and \<open>prev\<close>
  at the offsets \<open>nx\<close> and \<open>pv\<close>.
\<close>

definition link_after :: "u64 \<Rightarrow> u64 \<Rightarrow> mem \<Rightarrow> u64 \<Rightarrow> u64 \<Rightarrow> mem" where
  "link_after nx pv m a b =
     (let m = store64 m (b + nx) (load64 m (a + nx));
          m = store64 m (b + pv) a;
          m = store64 m (load64 m (b + nx) + pv) b
      in store64 m (load64 m (b + pv) + nx) b)"

text \<open>\<open>a->next->prev = a->prev; a->prev->next = a->next\<close>.\<close>

definition unlink :: "u64 \<Rightarrow> u64 \<Rightarrow> mem \<Rightarrow> u64 \<Rightarrow> mem" where
  "unlink nx pv m a =
     (let m = store64 m (load64 m (a + nx) + pv) (load64 m (a + pv))
      in store64 m (load64 m (a + pv) + nx) (load64 m (a + nx)))"

section \<open>Lists in memory\<close>

locale circular =
  fixes nx pv :: u64
  assumes offsets: "nx \<noteq> pv" "aligned 3 nx" "aligned 3 pv"
begin

text \<open>Neighbours in \<open>ys\<close> point at each other.\<close>

fun links :: "mem \<Rightarrow> u64 list \<Rightarrow> bool" where
  "links m (x # y # ys) \<longleftrightarrow> load64 m (x + nx) = y \<and> load64 m (y + pv) = x \<and> links m (y # ys)"
| "links m _ \<longleftrightarrow> True"

text \<open>Nodes are aligned, and no link field of one lies on a link field of another.\<close>

definition nodes :: "u64 set \<Rightarrow> bool" where
  "nodes A \<longleftrightarrow> (\<forall>a\<in>A. aligned 3 a) \<and> (\<forall>a\<in>A. \<forall>b\<in>A. a + nx \<noteq> b + pv)"

definition circ :: "mem \<Rightarrow> u64 \<Rightarrow> u64 list \<Rightarrow> bool" where
  "circ m h xs \<longleftrightarrow> nodes (set (h # xs)) \<and> distinct (h # xs) \<and> links m (h # xs @ [h])"

lemma links_append: "links m (us @ x # vs) \<longleftrightarrow> links m (us @ [x]) \<and> links m (x # vs)"
proof (induction us)
  case (Cons u us)
  then show ?case by (cases us) auto
qed simp

lemma links_cong:
  assumes "\<And>x. x \<in> set (butlast ys) \<Longrightarrow> load64 m' (x + nx) = load64 m (x + nx)"
    and "\<And>x. x \<in> set (tl ys) \<Longrightarrow> load64 m' (x + pv) = load64 m (x + pv)"
  shows "links m' ys = links m ys"
  using assms
proof (induction ys)
  case (Cons y ys)
  show ?case
  proof (cases ys)
    case (Cons z zs)
    have "links m' ys = links m ys"
      using Cons.prems Cons by (intro Cons.IH) (auto dest: in_set_butlastD list.set_sel(2))
    then show ?thesis using Cons.prems [of y] Cons.prems(2) [of z] Cons by auto
  qed simp
qed simp

text \<open>A store to a link field seen by a load of a link field.\<close>

lemma load_store:
  assumes "nodes A" "a \<in> A" "b \<in> A"
  shows "load64 (store64 m (a + nx) v) (b + nx) = (if a = b then v else load64 m (b + nx))"
    and "load64 (store64 m (a + pv) v) (b + pv) = (if a = b then v else load64 m (b + pv))"
    and "load64 (store64 m (a + nx) v) (b + pv) = load64 m (b + pv)"
    and "load64 (store64 m (a + pv) v) (b + nx) = load64 m (b + nx)"
proof -
  have al: "aligned 3 (x + nx)" "aligned 3 (x + pv)" if "x \<in> A" for x
    using assms(1) that offsets by (auto simp: nodes_def intro: aligned_add)
  have ne: "a + nx \<noteq> b + pv" "a + pv \<noteq> b + nx" using assms unfolding nodes_def by metis+
  show "load64 (store64 m (a + nx) v) (b + nx) = (if a = b then v else load64 m (b + nx))"
    "load64 (store64 m (a + pv) v) (b + pv) = (if a = b then v else load64 m (b + pv))"
    "load64 (store64 m (a + nx) v) (b + pv) = load64 m (b + pv)"
    "load64 (store64 m (a + pv) v) (b + nx) = load64 m (b + nx)"
    using assms al ne by (simp_all add: load64_store64_aligned)
qed

lemma nodes_subset: "nodes A \<Longrightarrow> B \<subseteq> A \<Longrightarrow> nodes B"
  by (auto simp: nodes_def)

text \<open>The links after the two operations, where \<open>a\<close> is followed by \<open>c\<close>.\<close>

lemma link_after_fields:
  assumes "nodes A" "{a, b, c} \<subseteq> A" "b \<noteq> a" "b \<noteq> c" "load64 m (a + nx) = c" "x \<in> A"
  shows "load64 (link_after nx pv m a b) (x + nx) = (if x = a then b else if x = b then c else load64 m (x + nx))"
    and "load64 (link_after nx pv m a b) (x + pv) = (if x = c then b else if x = b then a else load64 m (x + pv))"
  using assms by (auto simp: link_after_def Let_def load_store [OF assms(1)])

lemma unlink_fields:
  assumes "nodes A" "{a, b, c} \<subseteq> A" "b \<noteq> a" "b \<noteq> c" "load64 m (b + pv) = a" "load64 m (b + nx) = c" "x \<in> A"
  shows "load64 (unlink nx pv m b) (x + nx) = (if x = a then c else load64 m (x + nx))"
    and "load64 (unlink nx pv m b) (x + pv) = (if x = c then a else load64 m (x + pv))"
  using assms by (auto simp: unlink_def Let_def load_store [OF assms(1)])

text \<open>In the ring \<open>us @ a # c # vs\<close> (closed by its first node) \<open>b\<close> goes between \<open>a\<close> and \<open>c\<close>.\<close>

lemma circ_parts: "circ m h (us @ vs) \<longleftrightarrow> nodes (set (h # us @ vs)) \<and> distinct (h # us @ vs)
    \<and> links m (h # us) \<and> links m (last (h # us) # vs @ [h])"
proof -
  obtain ws l where e: "h # us = ws @ [l]" by (metis rev_exhaust list.distinct(1))
  then have "h # us @ vs @ [h] = ws @ l # vs @ [h]" by (metis append_Cons append_assoc append_Nil)
  then have "links m (h # us @ vs @ [h]) \<longleftrightarrow> links m (h # us) \<and> links m (last (h # us) # vs @ [h])"
    using links_append [of m ws l "vs @ [h]"] e by (metis last_snoc)
  then show ?thesis unfolding circ_def by simp
qed

lemma butlast_not_last: "distinct ys \<Longrightarrow> x \<in> set (butlast ys) \<Longrightarrow> x \<noteq> last ys"
  by (induction ys) (auto split: if_splits)

lemma circ_insert:
  assumes "circ m h (us @ vs)" "nodes (insert b (set (h # us @ vs)))" "b \<notin> set (h # us @ vs)"
  shows "circ (link_after nx pv m (last (h # us)) b) h (us @ b # vs)"
proof -
  let ?a = "last (h # us)" and ?c = "hd (vs @ [h])" and ?A = "insert b (set (h # us @ vs))"
  let ?m = "link_after nx pv m ?a b"
  note ps = assms(1) [unfolded circ_parts]
  have a: "?a \<in> set (h # us)" by (rule last_in_set) simp
  have c: "?c \<in> set (h # us @ vs)" by (cases vs) auto
  have ac: "load64 m (?a + nx) = ?c" using ps by (cases vs) auto
  have in_A: "{?a, b, ?c} \<subseteq> ?A" using a c by auto
  have ne: "b \<noteq> ?a" "b \<noteq> ?c" using assms(3) a c by auto
  note f = link_after_fields [OF assms(2) in_A ne ac]
  have "links ?m (h # us) = links m (h # us)"
  proof (rule links_cong)
    fix x assume "x \<in> set (butlast (h # us))"
    moreover have "distinct (h # us)" using ps by simp
    ultimately have "x \<noteq> ?a" "x \<in> set (h # us)" using butlast_not_last [of "h # us" x] in_set_butlastD [of x "h # us"] by blast+
    then show "load64 ?m (x + nx) = load64 m (x + nx)"
      using f(1) [of x] assms(3) by auto
  next
    fix x assume x: "x \<in> set (tl (h # us))"
    then have "x \<noteq> ?c" using ps by (cases vs) auto
    then show "load64 ?m (x + pv) = load64 m (x + pv)" using f(2) [of x] assms(3) x by auto
  qed
  moreover have "links ?m (?c # tl (vs @ [h])) = links m (?c # tl (vs @ [h]))"
  proof (rule links_cong)
    fix x assume "x \<in> set (butlast (?c # tl (vs @ [h])))"
    then have "x \<in> set vs" by (cases vs) auto
    then show "load64 ?m (x + nx) = load64 m (x + nx)"
      using f(1) [of x] assms(3) ps a by auto
  next
    fix x assume "x \<in> set (tl (?c # tl (vs @ [h])))"
    then have "x \<in> set (tl (vs @ [h]))" by simp
    then have "x \<noteq> ?c" "x \<in> set (h # us @ vs)" using ps by (cases vs; auto)+
    then show "load64 ?m (x + pv) = load64 m (x + pv)" using f(2) [of x] assms(3) by auto
  qed
  moreover have "load64 ?m (?a + nx) = b" "load64 ?m (b + pv) = ?a" "load64 ?m (b + nx) = ?c" "load64 ?m (?c + pv) = b"
    using f [of ?a] f [of b] f [of ?c] in_A ne by auto
  moreover have "links m (?c # tl (vs @ [h]))" using ps by (cases vs) auto
  moreover have "vs @ [h] = ?c # tl (vs @ [h])" by simp
  ultimately have "links ?m (h # us)" "links ?m (?a # b # vs @ [h])"
    using ps by (metis links.simps(1))+
  then show ?thesis
    unfolding circ_parts using ps assms(2,3) by (auto simp: insert_commute)
qed

lemma circ_remove:
  assumes "circ m h (us @ b # vs)"
  shows "circ (unlink nx pv m b) h (us @ vs)"
proof -
  let ?a = "last (h # us)" and ?c = "hd (vs @ [h])" and ?A = "set (h # us @ b # vs)"
  let ?m = "unlink nx pv m b"
  note ps = assms [unfolded circ_parts]
  have a: "?a \<in> set (h # us)" by (rule last_in_set) simp
  have c: "?c \<in> set (h # vs)" by (cases vs) auto
  have in_A: "{?a, b, ?c} \<subseteq> ?A" using a c by auto
  have ne: "b \<noteq> ?a" "b \<noteq> ?c" using ps a c by auto
  have l: "load64 m (b + pv) = ?a" "load64 m (b + nx) = ?c" using ps by (cases vs; auto)+
  note f = unlink_fields [OF _ in_A ne l]
  have nodes: "nodes ?A" using ps by simp
  have "links ?m (h # us) = links m (h # us)"
  proof (rule links_cong)
    fix x assume "x \<in> set (butlast (h # us))"
    moreover have "distinct (h # us)" using ps by simp
    ultimately have "x \<noteq> ?a" "x \<in> set (h # us)" using butlast_not_last [of "h # us" x] in_set_butlastD [of x "h # us"] by blast+
    then show "load64 ?m (x + nx) = load64 m (x + nx)"
      using f(1) [OF nodes, of x] by auto
  next
    fix x assume x: "x \<in> set (tl (h # us))"
    then have "x \<noteq> ?c" using ps by (cases vs) auto
    then show "load64 ?m (x + pv) = load64 m (x + pv)" using f(2) [OF nodes, of x] x by auto
  qed
  moreover have "links ?m (?c # tl (vs @ [h])) = links m (?c # tl (vs @ [h]))"
  proof (rule links_cong)
    fix x assume "x \<in> set (butlast (?c # tl (vs @ [h])))"
    then have "x \<in> set vs" by (cases vs) auto
    then show "load64 ?m (x + nx) = load64 m (x + nx)" using f(1) [OF nodes, of x] ps a by auto
  next
    fix x assume "x \<in> set (tl (?c # tl (vs @ [h])))"
    then have "x \<in> set (tl (vs @ [h]))" by simp
    then have "x \<noteq> ?c" "x \<in> ?A" using ps by (cases vs; auto)+
    then show "load64 ?m (x + pv) = load64 m (x + pv)" using f(2) [OF nodes, of x] by auto
  qed
  moreover have "load64 ?m (?a + nx) = ?c" "load64 ?m (?c + pv) = ?a"
    using f [OF nodes, of ?a] f [OF nodes, of ?c] in_A by auto
  moreover have "links m (?c # tl (vs @ [h]))" using ps by (cases vs) auto
  moreover have "vs @ [h] = ?c # tl (vs @ [h])" by simp
  ultimately have "links ?m (h # us)" "links ?m (?a # vs @ [h])"
    using ps by (metis links.simps(1))+
  then show ?thesis
    unfolding circ_parts using ps nodes_subset [OF nodes, of "set (h # us @ vs)"] by auto
qed

text \<open>Following the links from the head, forwards and backwards.\<close>

lemma circ_next: "circ m h (us @ x # vs) \<Longrightarrow> load64 m (x + nx) = hd (vs @ [h])"
  unfolding circ_parts by (cases vs) auto

lemma circ_prev: "circ m h (us @ x # vs) \<Longrightarrow> load64 m (x + pv) = last (h # us)"
  unfolding circ_parts by auto

lemma circ_first: "circ m h xs \<Longrightarrow> load64 m (h + nx) = hd (xs @ [h])"
  by (cases xs) (auto simp: circ_def)

lemma circ_last: "circ m h xs \<Longrightarrow> load64 m (h + pv) = last (h # xs)"
  using circ_parts [of m h xs "[]"] by (simp del: last.simps)

end

interpretation free_list: circular 16 8
  by unfold_locales (simp_all add: aligned_def)

interpretation map_list: circular 16 24
  by unfold_locales (simp_all add: aligned_def)

end
