(* ===== verification/Kmalloc.thy ===== *)
theory Kmalloc
  imports Bus Mmu LinkedList
begin

text \<open>
  The kernel heap of src/src/kmalloc.c. The heap lies at its own virtual addresses, from
  \<open>KERNEL_HEAP_START_VADDR\<close> on; \<open>vm\<close> is memory as the kernel sees it there, and a page the
  heap grows by is a zeroed page of the page allocator that \<open>mmu_map\<close> maps. The record \<open>kernel\<close>
  is the state the rest of the kernel extends. The lemmas relate the free list in memory to a
  list of blocks.
\<close>

record kernel = world +
  mm :: mmu_state
  kernel_mmu_table :: u64
  vm :: mem
  kernel_heap_v_addr :: u64
  kmalloc_head :: u64
  kmalloc_lock :: u32
  klog :: "string list"

section \<open>The free list\<close>

text \<open>A node is \<open>{size, prev, next}\<close>: offsets 0, 8 and 16.\<close>

definition node_append :: "mem \<Rightarrow> u64 \<Rightarrow> u64 \<Rightarrow> mem" where
  "node_append m a b = link_after 16 8 m a b"

definition node_remove :: "mem \<Rightarrow> u64 \<Rightarrow> mem" where
  "node_remove m a = unlink 16 8 m a"

text \<open>The loop of \<open>kmalloc\<close>: it stops at the first block that is smaller than \<open>bytes\<close>, or at the head.\<close>

partial_function (option) find_space :: "mem \<Rightarrow> u64 \<Rightarrow> u64 \<Rightarrow> u64 \<Rightarrow> u64 option" where
  "find_space m head bytes temp =
     (if load64 m temp < bytes then Some temp
      else if temp = head then Some temp
      else find_space m head bytes (load64 m (temp + 16)))"

partial_function (option) coalesce_from :: "mem \<Rightarrow> u64 \<Rightarrow> u64 \<Rightarrow> mem option" where
  "coalesce_from m head temp =
     (let nxt = load64 m (temp + 16) in
      if nxt \<noteq> head then
        if temp + load64 m temp = nxt then
          let m = store64 m temp (load64 m temp + load64 m nxt)
          in coalesce_from (node_remove m (load64 m (temp + 16))) head temp
        else coalesce_from m head nxt
      else Some m)"

definition coalesce_free_list :: "'a kernel_scheme \<Rightarrow> 'a kernel_scheme option" where
  "coalesce_free_list s =
     map_option (\<lambda>m. s\<lparr>vm := m\<rparr>) (coalesce_from (vm s) (kmalloc_head s) (load64 (vm s) (kmalloc_head s + 16)))"

text \<open>One page more for the heap; \<open>False\<close> when there is none. Then \<open>n\<close> pages.\<close>

definition grow_page :: "'a kernel_scheme \<Rightarrow> ('a kernel_scheme \<times> bool) option" where
  "grow_page s =
     (let s = s\<lparr>kernel_heap_v_addr := kernel_heap_v_addr s + PAGE_SIZE\<rparr>;
          (h, p) = cpage_znalloc (hw (mm s)) 1;
          s = s\<lparr>mm := (mm s)\<lparr>hw := h\<rparr>\<rparr>
      in if p = NULL then Some (s\<lparr>klog := ''Couldn't allocate page in malloc'' # klog s\<rparr>, False)
         else
           (case mmu_map (mm s) (kernel_mmu_table s) (kernel_heap_v_addr s) p (PB_READ OR PB_WRITE) of
              None \<Rightarrow> None
            | Some (st, _) \<Rightarrow>
                let v = kernel_heap_v_addr s; m = memset (vm s) v 0 4096; m = store64 m v PAGE_SIZE;
                    m = node_append m (load64 m (kmalloc_head s + 8)) v
                in Some (s\<lparr>mm := st, vm := m\<rparr>, True)))"

fun grow :: "nat \<Rightarrow> 'a kernel_scheme \<Rightarrow> ('a kernel_scheme \<times> bool) option" where
  "grow 0 s = Some (s, True)"
| "grow (Suc n) s =
     (case grow_page s of
        None \<Rightarrow> None
      | Some (s, ok) \<Rightarrow> if ok then grow n s else Some (s, False))"

section \<open>The allocator\<close>

text \<open>The size a request takes: \<open>(bytes + sizeof(size_t) + sizeof(flist)) & -16UL\<close>.\<close>

definition block_bytes :: "u64 \<Rightarrow> u64" where
  "block_bytes bytes = (bytes + 8 + 24) AND (- 16)"

definition heap_unlock :: "'a kernel_scheme \<Rightarrow> 'a kernel_scheme" where
  "heap_unlock s = s\<lparr>kmalloc_lock := mutex_unlock (kmalloc_lock s)\<rparr>"

text \<open>The block is cut from the end of \<open>temp\<close>, its size in front of it.\<close>

definition take_block :: "'a kernel_scheme \<Rightarrow> u64 \<Rightarrow> u64 \<Rightarrow> 'a kernel_scheme \<times> u64" where
  "take_block s temp bytes =
     (let ret = temp + load64 (vm s) temp - bytes;
          s = (if load64 (vm s) temp - bytes < 16 then s\<lparr>vm := node_remove (vm s) temp\<rparr>
               else let m = store64 (vm s) ret bytes in s\<lparr>vm := store64 m temp (load64 m temp - bytes)\<rparr>)
      in (heap_unlock s, ret + 8))"

definition kmalloc :: "'a kernel_scheme \<Rightarrow> u64 \<Rightarrow> ('a kernel_scheme \<times> u64) option" where
  "kmalloc s bytes =
     (let bytes = block_bytes bytes in
      case mutex_spinlock (kmalloc_lock s) of
        None \<Rightarrow> None
      | Some l \<Rightarrow>
          let s = s\<lparr>kmalloc_lock := l\<rparr> in
          case find_space (vm s) (kmalloc_head s) bytes (load64 (vm s) (kmalloc_head s + 16)) of
            None \<Rightarrow> None
          | Some temp \<Rightarrow>
              if temp = kmalloc_head s then
                let num_pages = sint (ucast (bytes div PAGE_SIZE + 1) :: u32);
                    temp = kernel_heap_v_addr s + PAGE_SIZE
                in (case grow (nat (num_pages + 1)) s of
                      None \<Rightarrow> None
                    | Some (s, False) \<Rightarrow> Some (heap_unlock s, NULL)
                    | Some (s, True) \<Rightarrow> map_option (\<lambda>s. take_block s temp bytes) (coalesce_free_list s))
              else Some (take_block s temp bytes))"

definition kzalloc :: "'a kernel_scheme \<Rightarrow> u64 \<Rightarrow> ('a kernel_scheme \<times> u64) option" where
  "kzalloc s bytes =
     map_option (\<lambda>(s, p). (s\<lparr>vm := memset (vm s) p 0 (sint (bytes - 8))\<rparr>, p)) (kmalloc s bytes)"

text \<open>\<open>kfree\<close> looks from the end of the list for the node to put the block behind.\<close>

partial_function (option) find_place :: "mem \<Rightarrow> u64 \<Rightarrow> u64 \<Rightarrow> u64 \<Rightarrow> u64 option" where
  "find_place m head ptr temp =
     (if temp = head \<or> temp < ptr then Some temp else find_place m head ptr (load64 m (temp + 8)))"

definition kfree :: "'a kernel_scheme \<Rightarrow> u64 \<Rightarrow> 'a kernel_scheme option" where
  "kfree s ptr =
     (if ptr = NULL then Some s
      else
        case mutex_spinlock (kmalloc_lock s) of
          None \<Rightarrow> None
        | Some l \<Rightarrow>
            let s = s\<lparr>kmalloc_lock := l\<rparr>; ptr = ptr - 8 in
            if load64 (vm s) ptr = 0 then Some ((heap_unlock s)\<lparr>klog := ''Error freeing'' # klog s\<rparr>)
            else
              case find_place (vm s) (kmalloc_head s) ptr (load64 (vm s) (kmalloc_head s + 8)) of
                None \<Rightarrow> None
              | Some temp \<Rightarrow>
                  map_option heap_unlock (coalesce_free_list (s\<lparr>vm := node_append (vm s) temp ptr\<rparr>)))"

definition init_kernel_heap :: "'a kernel_scheme \<Rightarrow> 'a kernel_scheme option" where
  "init_kernel_heap s =
     (let (h, p) = cpage_znalloc (hw (mm s)) 1; s = s\<lparr>mm := (mm s)\<lparr>hw := h\<rparr>\<rparr> in
      case mmu_map (mm s) (kernel_mmu_table s) (kernel_heap_v_addr s) p (PB_READ OR PB_WRITE) of
        None \<Rightarrow> None
      | Some (st, _) \<Rightarrow>
          let head = kernel_heap_v_addr s; m = memset (vm s) head 0 4096; m = store64 m head 0;
              m = store64 m (head + 8) head; m = store64 m (head + 16) head
          in Some (s\<lparr>mm := st, vm := m, kmalloc_head := head\<rparr>))"

section \<open>The list of free blocks\<close>

text \<open>Nodes of the free list: no size field lies on a link field.\<close>

definition heap_nodes :: "u64 set \<Rightarrow> bool" where
  "heap_nodes A \<longleftrightarrow> free_list.nodes A \<and> (\<forall>a\<in>A. \<forall>b\<in>A. a \<noteq> b + 8 \<and> a \<noteq> b + 16)"

definition free_blocks :: "mem \<Rightarrow> u64 \<Rightarrow> (u64 \<times> u64) list \<Rightarrow> bool" where
  "free_blocks m h bs \<longleftrightarrow> free_list.circ m h (map fst bs) \<and> heap_nodes (set (h # map fst bs))
     \<and> (\<forall>(a, n) \<in> set bs. load64 m a = n)"

text \<open>Adjacent blocks become one.\<close>

fun merge :: "(u64 \<times> u64) list \<Rightarrow> (u64 \<times> u64) list" where
  "merge ((a, n) # (b, k) # bs) = (if a + n = b then merge ((a, n + k) # bs) else (a, n) # merge ((b, k) # bs))"
| "merge bs = bs"

lemma merge_addrs: "set (map fst (merge bs)) \<subseteq> set (map fst bs)"
  by (induction bs rule: merge.induct) auto

lemma merge_sum: "sum_list (map snd (merge bs)) = sum_list (map snd bs)"
  by (induction bs rule: merge.induct) (auto simp: add.assoc)

lemma merge_hd: "bs \<noteq> [] \<Longrightarrow> merge bs \<noteq> [] \<and> fst (hd (merge bs)) = fst (hd bs)"
  by (induction bs rule: merge.induct) auto

lemma merge_separate: "merge bs = us @ (a, n) # (b, k) # vs \<Longrightarrow> a + n \<noteq> b"
proof (induction bs arbitrary: us rule: merge.induct)
  case (1 a' n' b' k' bs)
  show ?case
  proof (cases "a' + n' = b'")
    case False
    show ?thesis
    proof (cases us)
      case Nil
      then show ?thesis using 1(3) False merge_hd [of "(b', k') # bs"] by auto
    qed (use 1 False in auto)
  qed (use 1 in auto)
qed auto

lemma size_stores:
  assumes "heap_nodes A" "{a, b, x} \<subseteq> A"
  shows "load64 (store64 m a v) (x + 8) = load64 m (x + 8)" "load64 (store64 m a v) (x + 16) = load64 m (x + 16)"
    and "load64 (store64 m a v) x = (if a = x then v else load64 m x)"
    and "load64 (store64 m (a + 8) v) x = load64 m x" "load64 (store64 m (a + 16) v) x = load64 m x"
proof -
  have al: "aligned 3 y" "aligned 3 (y + 8)" "aligned 3 (y + 16)" if "y \<in> A" for y
    using assms(1) that by (auto simp: heap_nodes_def free_list.nodes_def intro!: aligned_add) (simp_all add: aligned_def)
  have "a \<noteq> x + 8" "a \<noteq> x + 16" "a + 8 \<noteq> x" "a + 16 \<noteq> x"
    using assms unfolding heap_nodes_def by (metis insert_subset)+
  then show "load64 (store64 m a v) (x + 8) = load64 m (x + 8)" "load64 (store64 m a v) (x + 16) = load64 m (x + 16)"
    "load64 (store64 m a v) x = (if a = x then v else load64 m x)"
    "load64 (store64 m (a + 8) v) x = load64 m x" "load64 (store64 m (a + 16) v) x = load64 m x"
    using al assms(2) by (simp_all add: load64_store64_aligned)
qed

lemma free_list_links_size:
  assumes "heap_nodes A" "set ys \<subseteq> A" "a \<in> A"
  shows "free_list.links (store64 m a v) ys = free_list.links m ys"
proof (rule free_list.links_cong)
  fix x assume "x \<in> set (butlast ys)"
  then show "load64 (store64 m a v) (x + 16) = load64 m (x + 16)"
    using assms in_set_butlastD [of x ys] size_stores(2) [of A a a x m v] by auto
next
  fix x assume "x \<in> set (tl ys)"
  then have "x \<in> A" using assms(2) by (cases ys) auto
  then show "load64 (store64 m a v) (x + 8) = load64 m (x + 8)" using assms size_stores(1) [of A a a x m v] by auto
qed

lemma size_unlink:
  assumes "heap_nodes A" "free_list.circ m h (us @ b # vs)" "set (h # us @ b # vs) \<subseteq> A" "x \<in> A"
  shows "load64 (unlink 16 8 m b) x = load64 m x"
proof -
  let ?a = "last (h # us)" and ?c = "hd (vs @ [h])"
  have l: "load64 m (b + 8) = ?a" "load64 m (b + 16) = ?c"
    using free_list.circ_prev [OF assms(2)] free_list.circ_next [OF assms(2)] by simp_all
  have "?a \<in> set (h # us)" by (rule last_in_set) simp
  then have a: "?a \<in> A" using assms(3) by auto
  have c: "?c \<in> A" using assms(3) by (cases vs) auto
  have b: "b \<in> A" using assms(3) by simp
  have k: "load64 (store64 m (?c + 8) ?a) (b + 8) = ?a"
    using free_list.load_store(2) [of A ?c b] assms(1) b c l unfolding heap_nodes_def by simp
  have k': "load64 (store64 m (?c + 8) ?a) (b + 16) = ?c"
    using free_list.load_store(4) [of A ?c b] assms(1) b c l unfolding heap_nodes_def by simp
  show ?thesis
    unfolding unlink_def Let_def l k k'
    using size_stores(4) [OF assms(1), of ?c ?c x] size_stores(5) [OF assms(1), of ?a ?a x] a c assms(4) by simp
qed

lemma free_blocks_resize:
  assumes "free_blocks m h (us @ (a, n) # vs)"
  shows "free_blocks (store64 m a v) h (us @ (a, v) # vs)"
proof -
  let ?A = "set (h # map fst (us @ (a, n) # vs))"
  have c: "free_list.circ m h (map fst (us @ (a, n) # vs))" "heap_nodes ?A" "\<forall>(b, k) \<in> set (us @ (a, n) # vs). load64 m b = k"
    using assms by (simp_all add: free_blocks_def)
  have "free_list.circ (store64 m a v) h (map fst (us @ (a, v) # vs))"
  proof -
    have "set (h # map fst (us @ (a, n) # vs) @ [h]) \<subseteq> ?A" "a \<in> ?A" by auto
    from free_list_links_size [OF c(2) this] show ?thesis using c(1) by (simp add: free_list.circ_def)
  qed
  moreover have "load64 (store64 m a v) b = k" if "(b, k) \<in> set (us @ (a, v) # vs)" for b k
  proof -
    have "b \<in> ?A" using that by force
    then have "load64 (store64 m a v) b = (if a = b then v else load64 m b)"
      using size_stores(3) [OF c(2), of a a b m v] by simp
    moreover have "distinct (map fst (us @ (a, v) # vs))" using c(1) by (simp add: free_list.circ_def)
    then have "b = a \<longrightarrow> k = v" using that by (metis (no_types, lifting) eq_key_imp_eq_value in_set_conv_decomp)
    moreover have "load64 m b = k" if "b \<noteq> a"
    proof -
      have "(b, k) \<in> set (us @ (a, n) # vs)" using \<open>(b, k) \<in> set (us @ (a, v) # vs)\<close> that by auto
      from bspec [OF c(3) this] show ?thesis by simp
    qed
    ultimately show ?thesis by (cases "a = b") simp_all
  qed
  moreover have "heap_nodes (set (h # map fst (us @ (a, v) # vs)))" using c(2) by simp
  ultimately show ?thesis unfolding free_blocks_def by blast
qed

lemma free_blocks_remove:
  assumes "free_blocks m h (us @ (b, k) # vs)"
  shows "free_blocks (node_remove m b) h (us @ vs)"
proof -
  let ?A = "set (h # map fst (us @ (b, k) # vs))"
  have c: "free_list.circ m h (map fst us @ b # map fst vs)" "heap_nodes ?A" "\<forall>(b, k) \<in> set (us @ (b, k) # vs). load64 m b = k"
    using assms by (simp_all add: free_blocks_def)
  have "load64 (node_remove m b) x = j" if "(x, j) \<in> set (us @ vs)" for x j
  proof -
    have "x \<in> ?A" using that by force
    then have "load64 (node_remove m b) x = load64 m x"
      unfolding node_remove_def by (intro size_unlink [OF c(2) c(1)]) simp_all
    moreover have "(x, j) \<in> set (us @ (b, k) # vs)" using that by auto
    from bspec [OF c(3) this] have "load64 m x = j" by simp
    ultimately show ?thesis by simp
  qed
  moreover have "heap_nodes (set (h # map fst (us @ vs)))"
    using c(2) free_list.nodes_subset [of ?A "set (h # map fst (us @ vs))"] unfolding heap_nodes_def by auto
  ultimately show ?thesis
    using free_list.circ_remove [OF c(1)] unfolding free_blocks_def node_remove_def by auto
qed

lemma coalesce_from_merge:
  "free_blocks m h (us @ (a, n) # vs) \<Longrightarrow>
     \<exists>m'. coalesce_from m h a = Some m' \<and> free_blocks m' h (us @ merge ((a, n) # vs))"
proof (induction vs arbitrary: m us a n)
  case Nil
  then have "load64 m (a + 16) = h"
    using free_list.circ_next [of m h "map fst us" a "[]"] by (simp add: free_blocks_def)
  then show ?case using Nil by (simp add: coalesce_from.simps [of m h a])
next
  case (Cons bk vs)
  obtain b k where bk: "bk = (b, k)" by fastforce
  have c: "free_list.circ m h (map fst us @ a # b # map fst vs)" and sz: "load64 m a = n" "load64 m b = k"
    using Cons.prems by (auto simp: free_blocks_def bk)
  then have nxt: "load64 m (a + 16) = b" using free_list.circ_next [of m h "map fst us" a "b # map fst vs"] by simp
  have bh: "b \<noteq> h" "a \<noteq> b" using c by (auto simp: free_list.circ_def)
  show ?case
  proof (cases "a + n = b")
    case True
    let ?m = "store64 m a (n + k)"
    have f: "free_blocks ?m h (us @ (a, n + k) # (b, k) # vs)"
      using free_blocks_resize [of m h us a n "(b, k) # vs" "n + k"] Cons.prems by (simp add: bk)
    then have nx: "load64 ?m (a + 16) = b"
      using free_list.circ_next [of ?m h "map fst us" a "b # map fst vs"] by (simp add: free_blocks_def)
    have "free_blocks (node_remove ?m b) h (us @ (a, n + k) # vs)"
      using free_blocks_remove [of ?m h "us @ [(a, n + k)]" b k vs] f by simp
    from Cons.IH [OF this] obtain m' where m': "coalesce_from (node_remove ?m b) h a = Some m'"
      "free_blocks m' h (us @ merge ((a, n + k) # vs))" by blast
    have "coalesce_from m h a = Some m'"
      using True nxt bh sz nx m'(1) by (simp add: coalesce_from.simps [of m h a] Let_def)
    then show ?thesis using m'(2) True by (auto simp: bk)
  next
    case False
    have "free_blocks m h ((us @ [(a, n)]) @ (b, k) # vs)" using Cons.prems by (simp add: bk)
    from Cons.IH [OF this] obtain m' where m': "coalesce_from m h b = Some m'"
      "free_blocks m' h (us @ (a, n) # merge ((b, k) # vs))" by auto
    have "coalesce_from m h a = coalesce_from m h b"
      using False nxt bh sz by (simp add: coalesce_from.simps [of m h a] Let_def)
    then show ?thesis using m' False by (auto simp: bk)
  qed
qed

lemma coalesce_merge:
  assumes "free_blocks (vm s) (kmalloc_head s) bs"
  shows "\<exists>m'. coalesce_free_list s = Some (s\<lparr>vm := m'\<rparr>) \<and> free_blocks m' (kmalloc_head s) (merge bs)"
proof (cases bs)
  case Nil
  then have "load64 (vm s) (kmalloc_head s + 16) = kmalloc_head s"
    using assms free_list.circ_first [of "vm s" "kmalloc_head s" "[]"] by (simp add: free_blocks_def)
  then show ?thesis
    using assms Nil
    by (intro exI [of _ "vm s"]) (simp add: coalesce_free_list_def coalesce_from.simps [of "vm s" "kmalloc_head s" "kmalloc_head s"])
next
  case (Cons b bs')
  obtain a n where b: "b = (a, n)" by fastforce
  have "load64 (vm s) (kmalloc_head s + 16) = a"
    using assms Cons free_list.circ_first [of "vm s" "kmalloc_head s" "map fst bs"] by (simp add: free_blocks_def b)
  then show ?thesis
    using coalesce_from_merge [of "vm s" "kmalloc_head s" "[]" a n bs'] assms Cons
    by (auto simp: coalesce_free_list_def b)
qed

text \<open>Insertion of a block.\<close>

lemma size_link_after:
  assumes "heap_nodes A" "{a, b, c} \<subseteq> A" "b \<noteq> a" "b \<noteq> c" "load64 m (a + 16) = c" "x \<in> A"
  shows "load64 (link_after 16 8 m a b) x = load64 m x"
proof -
  have n: "free_list.nodes A" using assms(1) by (simp add: heap_nodes_def)
  note st = free_list.load_store [OF n] size_stores(4,5) [OF assms(1)]
  show ?thesis using assms unfolding link_after_def Let_def by (simp add: st)
qed

lemma free_blocks_insert:
  assumes "free_blocks m h (us @ vs)" "heap_nodes (insert b (set (h # map fst (us @ vs))))"
    and "b \<notin> set (h # map fst (us @ vs))" "load64 m b = k"
  shows "free_blocks (node_append m (last (h # map fst us)) b) h (us @ (b, k) # vs)"
proof -
  let ?A = "insert b (set (h # map fst (us @ vs)))" and ?a = "last (h # map fst us)" and ?c = "hd (map fst vs @ [h])"
  have c: "free_list.circ m h (map fst us @ map fst vs)" "\<forall>(b, k) \<in> set (us @ vs). load64 m b = k"
    using assms(1) by (simp_all add: free_blocks_def)
  have a: "?a \<in> set (h # map fst us)" by (rule last_in_set) simp
  have cc: "?c \<in> set (h # map fst vs)" by (cases vs) auto
  have nx: "load64 m (?a + 16) = ?c" using c(1) unfolding free_list.circ_parts by (cases vs) auto
  have in_A: "{?a, b, ?c} \<subseteq> ?A" "b \<noteq> ?a" "b \<noteq> ?c" 
  proof -
    have "set (h # map fst us) \<subseteq> set (h # map fst (us @ vs))" "set (h # map fst vs) \<subseteq> set (h # map fst (us @ vs))" by auto
    then have "?a \<in> set (h # map fst (us @ vs))" "?c \<in> set (h # map fst (us @ vs))" using a cc by blast+
    then show "{?a, b, ?c} \<subseteq> ?A" "b \<noteq> ?a" "b \<noteq> ?c" using assms(3) by blast+
  qed
  have sz: "load64 (node_append m ?a b) x = load64 m x" if "x \<in> ?A" for x
    unfolding node_append_def using size_link_after [OF assms(2) in_A nx that] .
  have "load64 (node_append m ?a b) x = j" if x: "(x, j) \<in> set (us @ (b, k) # vs)" for x j
  proof -
    have "x \<in> ?A" using x by force
    moreover have "load64 m x = j"
    proof (cases "(x, j) \<in> set (us @ vs)")
      case True
      from bspec [OF c(2) this] show ?thesis by simp
    qed (use x assms(4) in auto)
    ultimately show ?thesis using sz by simp
  qed
  moreover have "free_list.circ (node_append m ?a b) h (map fst us @ b # map fst vs)"
    unfolding node_append_def
    by (rule free_list.circ_insert [OF c(1)]) (use assms(2,3) in \<open>simp_all add: heap_nodes_def\<close>)
  moreover have "heap_nodes (set (h # map fst (us @ (b, k) # vs)))" using assms(2) by (simp add: insert_commute)
  ultimately show ?thesis unfolding free_blocks_def by auto
qed

lemma find_place_from:
  "free_list.circ m h (us @ vs) \<Longrightarrow>
     \<exists>ws xs. find_place m h p (last (h # us)) = Some (last (h # ws)) \<and> us = ws @ xs \<and> (\<forall>x \<in> set xs. p \<le> x)
       \<and> (ws \<noteq> [] \<longrightarrow> last ws < p)"
proof (induction us arbitrary: vs rule: rev_induct)
  case Nil
  then show ?case by (simp add: find_place.simps [of m h p h])
next
  case (snoc x us)
  have xh: "x \<noteq> h" using snoc.prems by (auto simp: free_list.circ_def)
  show ?case
  proof (cases "x < p")
    case True
    then show ?thesis by (intro exI [of _ "us @ [x]"] exI [of _ "[]"]) (simp add: find_place.simps [of m h p x])
  next
    case False
    have prev: "load64 m (x + 8) = last (h # us)" using free_list.circ_prev [of m h us x vs] snoc.prems by simp
    obtain ws xs where w: "find_place m h p (last (h # us)) = Some (last (h # ws))" "us = ws @ xs"
      "\<forall>x \<in> set xs. p \<le> x" "ws \<noteq> [] \<longrightarrow> last ws < p" using snoc.IH [of "x # vs"] snoc.prems by (auto simp del: last.simps)
    have "find_place m h p x = find_place m h p (last (h # us))"
      using False xh prev by (simp add: find_place.simps [of m h p x] del: last.simps)
    then show ?thesis using w False by (intro exI [of _ ws] exI [of _ "xs @ [x]"]) auto
  qed
qed

section \<open>Properties\<close>

definition demo_kernel :: "mem \<Rightarrow> kernel" where
  "demo_kernel m = \<lparr>hist = [], mm = demo_mmu, kernel_mmu_table = 0x11000, vm = m,
     kernel_heap_v_addr = 0x120001000, kmalloc_head = 0x120000000, kmalloc_lock = 0, klog = []\<rparr>"

lemma demo_kernel_fields [simp]:
  "vm (demo_kernel m) = m" "kmalloc_head (demo_kernel m) = 0x120000000" "kmalloc_lock (demo_kernel m) = 0"
  by (simp_all add: demo_kernel_def)

text \<open>One free block of 64 bytes at 0x120001000, an allocated one of 32 bytes behind it.\<close>

definition demo_kheap :: mem where
  "demo_kheap = (let h = 0x120000000; a = 0x120001000;
     m = store64 (\<lambda>_. 0) (h + 8) a; m = store64 m (h + 16) a; m = store64 m a 64; m = store64 m (a + 8) h;
     m = store64 m (a + 16) h in store64 m (a + 64) 32)"

lemmas demo_loads = load64_store64_aligned aligned_def load64_def [of "\<lambda>_. 0"]

lemma demo_free_blocks: "free_blocks demo_kheap 0x120000000 [(0x120001000, 64)]"
  by (simp add: free_blocks_def free_list.circ_def heap_nodes_def free_list.nodes_def demo_kheap_def demo_loads)

text \<open>
  C15. \<open>coalesce_free_list\<close> ends on every sound free list. It gives the list with adjacent blocks
  joined: the bytes on the list are the same in number, no block ends where the next one begins,
  and the list is sound again.
\<close>

theorem coalesce_joins:
  assumes "free_blocks (vm s) (kmalloc_head s) bs"
  shows "\<exists>m' bs'. coalesce_free_list s = Some (s\<lparr>vm := m'\<rparr>) \<and> free_blocks m' (kmalloc_head s) bs' \<and> bs' = merge bs
    \<and> sum_list (map snd bs') = sum_list (map snd bs) \<and> set (map fst bs') \<subseteq> set (map fst bs)
    \<and> (\<forall>us a n b k vs. bs' = us @ (a, n) # (b, k) # vs \<longrightarrow> a + n \<noteq> b)"
  using coalesce_merge [OF assms] merge_sum [of bs] merge_addrs [of bs] merge_separate [of bs] by blast

lemma coalesce_joins_witness:
  "\<exists>m'. coalesce_free_list (demo_kernel demo_kheap) = Some ((demo_kernel demo_kheap)\<lparr>vm := m'\<rparr>)
     \<and> free_blocks m' 0x120000000 [(0x120001000, 64)]"
  using coalesce_joins [of "demo_kernel demo_kheap" "[(0x120001000, 64)]"] demo_free_blocks by simp

text \<open>
  C16. \<open>kfree\<close> of an allocated block returns, puts it on the free list behind the last block below it
  and joins it with its neighbours, and leaves the lock free.
\<close>

theorem kfree_returns_block:
  assumes "free_blocks (vm s) (kmalloc_head s) bs" "kmalloc_lock s = MUTEX_UNLOCKED" "p \<noteq> NULL"
    and "load64 (vm s) (p - 8) = n" "n \<noteq> 0" "p - 8 \<notin> set (kmalloc_head s # map fst bs)"
    and "heap_nodes (insert (p - 8) (set (kmalloc_head s # map fst bs)))"
  shows "\<exists>s' us vs. kfree s p = Some s' \<and> kmalloc_lock s' = MUTEX_UNLOCKED \<and> bs = us @ vs
    \<and> free_blocks (vm s') (kmalloc_head s) (merge (us @ (p - 8, n) # vs))
    \<and> (\<forall>x \<in> set vs. p - 8 \<le> fst x) \<and> (us \<noteq> [] \<longrightarrow> fst (last us) < p - 8)"
proof -
  have c: "free_list.circ (vm s) (kmalloc_head s) (map fst bs @ [])" using assms(1) by (simp add: free_blocks_def)
  obtain ws xs where w: "find_place (vm s) (kmalloc_head s) (p - 8) (last (kmalloc_head s # map fst bs)) = Some (last (kmalloc_head s # ws))"
    "map fst bs = ws @ xs" "\<forall>x \<in> set xs. p - 8 \<le> x" "ws \<noteq> [] \<longrightarrow> last ws < p - 8"
    using find_place_from [OF c] by blast
  from w(2) obtain us vs where uv: "bs = us @ vs" "ws = map fst us" "xs = map fst vs"
    unfolding map_eq_append_conv by blast
  have prev: "load64 (vm s) (kmalloc_head s + 8) = last (kmalloc_head s # map fst bs)"
    using free_list.circ_last c by simp
  let ?s = "s\<lparr>kmalloc_lock := MUTEX_LOCKED, vm := node_append (vm s) (last (kmalloc_head s # map fst us)) (p - 8)\<rparr>"
  have "free_blocks (vm ?s) (kmalloc_head ?s) (us @ (p - 8, n) # vs)"
    using free_blocks_insert [of "vm s" "kmalloc_head s" us vs "p - 8" n] assms uv by (simp del: last.simps)
  from coalesce_merge [OF this] obtain m' where m': "coalesce_free_list ?s = Some (?s\<lparr>vm := m'\<rparr>)"
    "free_blocks m' (kmalloc_head s) (merge (us @ (p - 8, n) # vs))" by auto
  have "kfree s p = Some (heap_unlock (?s\<lparr>vm := m'\<rparr>))"
    using assms(2-5) w(1) m'(1) prev uv(2) by (simp add: kfree_def Let_def del: last.simps)
  moreover have "(\<forall>x \<in> set vs. p - 8 \<le> fst x)" using w(3) uv(3) by auto
  moreover have "us \<noteq> [] \<longrightarrow> fst (last us) < p - 8" using w(4) uv(2) by (auto simp: last_map)
  ultimately show ?thesis using m'(2) uv(1) by (auto simp: heap_unlock_def)
qed

lemma kfree_returns_block_witness:
  "\<exists>s'. kfree (demo_kernel demo_kheap) 0x120001048 = Some s' \<and> free_blocks (vm s') 0x120000000 [(0x120001000, 96)]"
proof -
  let ?s = "demo_kernel demo_kheap"
  have "\<exists>s' us vs. kfree ?s 0x120001048 = Some s' \<and> kmalloc_lock s' = 0 \<and> [(0x120001000, 64)] = us @ vs
    \<and> free_blocks (vm s') (kmalloc_head ?s) (merge (us @ (0x120001048 - 8, 32) # vs))
    \<and> (\<forall>x \<in> set vs. 0x120001048 - 8 \<le> fst x) \<and> (us \<noteq> [] \<longrightarrow> fst (last us) < 0x120001048 - 8)"
    by (rule kfree_returns_block) (use demo_free_blocks in
      \<open>simp_all add: heap_nodes_def free_list.nodes_def demo_kheap_def demo_loads\<close>)
  then show ?thesis by (auto simp: Cons_eq_append_conv)
qed

text \<open>
  The search of \<open>kmalloc\<close> takes the first block that is too small. When the first free block is
  smaller than the request, the call succeeds with an address before that block, and the size left
  on the list wraps around.
\<close>

theorem kmalloc_takes_small_block:
  assumes "kmalloc_lock s = MUTEX_UNLOCKED" "load64 (vm s) (kmalloc_head s + 16) = temp" "temp \<noteq> kmalloc_head s"
    and "load64 (vm s) temp < block_bytes bytes" "block_bytes bytes \<le> 2 ^ 63" "load64 (vm s) temp = n" "aligned 3 temp" "aligned 3 n"
  shows "\<exists>s'. kmalloc s bytes = Some (s', temp + n - block_bytes bytes + 8)
    \<and> \<not> within (temp + n - block_bytes bytes) temp (unat n) \<and> load64 (vm s') temp = n - block_bytes bytes
    \<and> 2 ^ 63 \<le> load64 (vm s') temp"
proof -
  let ?B = "block_bytes bytes"
  let ?r = "temp + n - ?B"
  have lt: "uint n < uint ?B" "uint ?B \<le> 9223372036854775808" "0 \<le> uint n"
    using assms(4-6) by (simp_all add: word_less_def word_le_def)
  have "uint (n - ?B) = (uint n - uint ?B + 18446744073709551616) mod 18446744073709551616" by (simp add: uint_word_ariths)
  also have "\<dots> = uint n - uint ?B + 18446744073709551616" by (rule mod_pos_pos_trivial) (use lt in linarith)+
  finally have u: "uint (n - ?B) = uint n - uint ?B + 18446744073709551616" .
  then have big: "9223372036854775808 \<le> uint (n - ?B)" using lt by linarith
  then have big': "\<not> n - ?B < 16" "2 ^ 63 \<le> n - ?B" by (simp_all add: word_less_def word_le_def)
  have out: "\<not> within ?r temp (unat n)"
  proof -
    have i: "int (unat x) = uint x" for x :: u64 by simp
    have "\<not> int (unat (n - ?B)) < int (unat n)" using big lt unfolding i by linarith
    then have "\<not> unat (n - ?B) < unat n" by (simp only: of_nat_less_iff not_False_eq_True)
    moreover have "?r - temp = n - ?B" by simp
    ultimately show ?thesis unfolding within_def by metis
  qed
  have "unat ?B = unat (bytes + 8 + 24) div 2 ^ 4 * 2 ^ 4"
    using unat_and_minus_exp [of "bytes + 8 + 24" 4] by (simp add: block_bytes_def)
  then have "aligned 3 ?B" by (simp add: aligned_iff_dvd)
  then have al: "aligned 3 ?r" using assms(7,8) by (simp add: aligned_add aligned_diff)
  have ne: "?r \<noteq> temp" using lt by auto
  let ?m = "store64 (vm s) ?r ?B"
  have ld: "load64 ?m temp = n" using al ne assms(6,7) by (simp add: load64_store64_aligned)
  let ?s = "heap_unlock (s\<lparr>kmalloc_lock := MUTEX_LOCKED, vm := store64 ?m temp (n - ?B)\<rparr>)"
  have "find_space (vm s) (kmalloc_head s) ?B temp = Some temp"
    using assms(4) by (simp add: find_space.simps [of "vm s" "kmalloc_head s" ?B temp])
  then have "kmalloc s bytes = Some (?s, ?r + 8)"
    using assms(1-3,6) big' ld by (simp add: kmalloc_def take_block_def Let_def)
  moreover have "load64 (vm ?s) temp = n - ?B" by (simp add: heap_unlock_def)
  ultimately show ?thesis using out big' by (intro exI [of _ ?s]) (simp only: simp_thms)
qed

lemma kmalloc_takes_small_block_witness:
  "\<exists>s'. kmalloc (demo_kernel demo_kheap) 100 = Some (s', 0x120000FC8) \<and> load64 (vm s') 0x120001000 = - 64"
proof -
  have b: "block_bytes 100 = 128" by (simp add: block_bytes_def)
  show ?thesis
    using kmalloc_takes_small_block [of "demo_kernel demo_kheap" "0x120001000" 100 64]
    by (auto simp: b demo_kheap_def demo_loads)
qed

end
