(* ===== verification/MapList.thy ===== *)
theory MapList
  imports Kmalloc
begin

text \<open>
  The map of src/src/map.c: a circular list of \<open>{key, value, next, prev}\<close> in kernel memory, its
  head the map itself. The lemmas relate the list to a finite map: the operations are lookup,
  update and deletion.
\<close>

section \<open>map.c\<close>

definition map_init :: "'a kernel_scheme \<Rightarrow> u64 \<Rightarrow> 'a kernel_scheme" where
  "map_init s mp = s\<lparr>vm := store64 (store64 (vm s) (mp + 16) mp) (mp + 24) mp\<rparr>"

definition map_new :: "'a kernel_scheme \<Rightarrow> ('a kernel_scheme \<times> u64) option" where
  "map_new s = map_option (\<lambda>(s, m). if m = NULL then (s, NULL) else (map_init s m, m)) (kmalloc s 32)"

text \<open>Walks run from the last node backwards; \<open>NULL\<close> is no element.\<close>

partial_function (option) find_elem_from :: "mem \<Rightarrow> u64 \<Rightarrow> u64 \<Rightarrow> u64 \<Rightarrow> u64 option" where
  "find_elem_from m mp key e =
     (if e = mp then Some NULL
      else if load64 m e = key then Some e
      else find_elem_from m mp key (load64 m (e + 24)))"

definition map_find_elem :: "mem \<Rightarrow> u64 \<Rightarrow> u64 \<Rightarrow> u64 option" where
  "map_find_elem m mp key = find_elem_from m mp key (load64 m (mp + 24))"

text \<open>\<open>map_for_each_descending(mp, e);\<close> has an empty body: it only moves \<open>e\<close> to the head.\<close>

partial_function (option) walk_to_head :: "mem \<Rightarrow> u64 \<Rightarrow> u64 \<Rightarrow> u64 option" where
  "walk_to_head m mp e = (if e = mp then Some e else walk_to_head m mp (load64 m (e + 24)))"

definition set_entry :: "'a kernel_scheme \<Rightarrow> u64 \<Rightarrow> u64 \<Rightarrow> u64 \<Rightarrow> 'a kernel_scheme" where
  "set_entry s l key v = s\<lparr>vm := store64 (store64 (vm s) l key) (l + 8) v\<rparr>"

definition map_add :: "'a kernel_scheme \<Rightarrow> u64 \<Rightarrow> u64 \<Rightarrow> u64 \<Rightarrow> 'a kernel_scheme option" where
  "map_add s mp key v =
     (case map_find_elem (vm s) mp key of
        None \<Rightarrow> None
      | Some l \<Rightarrow>
          if l = NULL then
            (case kzalloc s 32 of
               None \<Rightarrow> None
             | Some (s, l) \<Rightarrow>
                 (case walk_to_head (vm s) mp (load64 (vm s) (mp + 24)) of
                    None \<Rightarrow> None
                  | Some e \<Rightarrow> Some (set_entry (s\<lparr>vm := link_after 16 24 (vm s) e l\<rparr>) l key v)))
          else Some (set_entry s l key v))"

definition map_remove_elem :: "'a kernel_scheme \<Rightarrow> u64 \<Rightarrow> ('a kernel_scheme \<times> u64) option" where
  "map_remove_elem s e =
     (let ret = load64 (vm s) (e + 8)
      in map_option (\<lambda>s. (s, ret)) (kfree (s\<lparr>vm := unlink 16 24 (vm s) e\<rparr>) e))"

text \<open>\<open>map_clear\<close> and \<open>map_free\<close> from node \<open>e\<close> on.\<close>

partial_function (option) clear_from :: "'a kernel_scheme \<Rightarrow> u64 \<Rightarrow> u64 \<Rightarrow> 'a kernel_scheme option" where
  "clear_from s mp e =
     (if e = mp then Some s
      else
        let n = load64 (vm s) (e + 16)
        in Option.bind (map_remove_elem s e) (\<lambda>(s, _). clear_from s mp n))"

definition map_clear :: "'a kernel_scheme \<Rightarrow> u64 \<Rightarrow> 'a kernel_scheme option" where
  "map_clear s mp = clear_from s mp (load64 (vm s) (mp + 16))"

definition map_remove :: "'a kernel_scheme \<Rightarrow> u64 \<Rightarrow> u64 \<Rightarrow> ('a kernel_scheme \<times> u64) option" where
  "map_remove s mp key =
     (case map_find_elem (vm s) mp key of
        None \<Rightarrow> None
      | Some e \<Rightarrow> if e = NULL then Some (s, NULL) else
          map_option (\<lambda>(s', _). (s', load64 (vm s) (e + 8))) (map_remove_elem s e))"

partial_function (option) find_value_from :: "mem \<Rightarrow> u64 \<Rightarrow> u64 \<Rightarrow> u64 \<Rightarrow> u64 option" where
  "find_value_from m mp v e =
     (if e = mp then Some NULL
      else if load64 m (e + 8) = v then Some e
      else find_value_from m mp v (load64 m (e + 24)))"

definition map_remove_by_value :: "'a kernel_scheme \<Rightarrow> u64 \<Rightarrow> u64 \<Rightarrow> ('a kernel_scheme \<times> u64) option" where
  "map_remove_by_value s mp v =
     (case find_value_from (vm s) mp v (load64 (vm s) (mp + 24)) of
        None \<Rightarrow> None
      | Some e \<Rightarrow> if e = NULL then Some (s, NULL) else
          map_option (\<lambda>(s', _). (s', load64 (vm s) (e + 8))) (map_remove_elem s e))"

definition map_find :: "'a kernel_scheme \<Rightarrow> u64 \<Rightarrow> u64 \<Rightarrow> u64 option" where
  "map_find s mp key =
     map_option (\<lambda>e. if e = NULL then NULL else load64 (vm s) (e + 8)) (map_find_elem (vm s) mp key)"

partial_function (option) free_from :: "'a kernel_scheme \<Rightarrow> u64 \<Rightarrow> u64 \<Rightarrow> 'a kernel_scheme option" where
  "free_from s mp e =
     (if e = mp then Some s
      else
        let n = load64 (vm s) (e + 16)
        in Option.bind (kfree s e) (\<lambda>s. free_from s mp n))"

definition map_free :: "'a kernel_scheme \<Rightarrow> u64 \<Rightarrow> 'a kernel_scheme option" where
  "map_free s mp = Option.bind (free_from s mp (load64 (vm s) (mp + 16))) (\<lambda>s. kfree s mp)"

section \<open>The entries of a map\<close>

definition map_nodes :: "u64 set \<Rightarrow> bool" where
  "map_nodes A \<longleftrightarrow> map_list.nodes A \<and> NULL \<notin> A
     \<and> (\<forall>a\<in>A. \<forall>b\<in>A. a \<noteq> b + 8 \<and> a \<noteq> b + 16 \<and> a \<noteq> b + 24 \<and> a + 8 \<noteq> b + 16 \<and> a + 8 \<noteq> b + 24)"

definition entries_of :: "mem \<Rightarrow> u64 list \<Rightarrow> (u64 \<times> u64) list" where
  "entries_of m xs = map (\<lambda>e. (load64 m e, load64 m (e + 8))) (rev xs)"

text \<open>The map at \<open>mp\<close> has the nodes \<open>xs\<close>, first node first.\<close>

definition map_ok :: "mem \<Rightarrow> u64 \<Rightarrow> u64 list \<Rightarrow> bool" where
  "map_ok m mp xs \<longleftrightarrow> map_list.circ m mp xs \<and> map_nodes (set (mp # xs)) \<and> distinct (map fst (entries_of m xs))"

lemma walk_to_head_end: "map_list.circ m mp (us @ vs) \<Longrightarrow> walk_to_head m mp (last (mp # us)) = Some mp"
proof (induction us arbitrary: vs rule: rev_induct)
  case Nil
  then show ?case by (simp add: walk_to_head.simps)
next
  case (snoc x us)
  have "load64 m (x + 24) = last (mp # us)" using map_list.circ_prev [of m mp us x vs] snoc.prems by simp
  moreover have "walk_to_head m mp (last (mp # us)) = Some mp" using snoc.IH [of "x # vs"] snoc.prems by simp
  moreover have "last (mp # us @ [x]) = x" by simp
  ultimately show ?case by (simp add: walk_to_head.simps [of m mp x] del: last.simps)
qed

text \<open>Both searches stop at the last node of the list that satisfies the test.\<close>

lemma find_elem_from_last:
  "map_list.circ m mp (us @ vs) \<Longrightarrow>
     find_elem_from m mp key (last (mp # us)) =
       Some (case find (\<lambda>e. load64 m e = key) (rev us) of None \<Rightarrow> NULL | Some e \<Rightarrow> e)"
proof (induction us arbitrary: vs rule: rev_induct)
  case Nil
  then show ?case by (simp add: find_elem_from.simps)
next
  case (snoc x us)
  have "x \<noteq> mp" using snoc.prems by (auto simp: map_list.circ_def)
  moreover have "load64 m (x + 24) = last (mp # us)" using map_list.circ_prev [of m mp us x vs] snoc.prems by simp
  moreover have "last (mp # us @ [x]) = x" by simp
  moreover note snoc.IH [of "x # vs"]
  ultimately show ?case using snoc.prems by (simp add: find_elem_from.simps [of m mp key x] del: last.simps)
qed

lemma map_find_elem_eq:
  "map_list.circ m mp xs \<Longrightarrow>
     map_find_elem m mp key = Some (case find (\<lambda>e. load64 m e = key) (rev xs) of None \<Rightarrow> NULL | Some e \<Rightarrow> e)"
  using find_elem_from_last [of m mp xs "[]" key] map_list.circ_last [of m mp xs]
  by (simp add: map_find_elem_def del: last.simps)

lemma find_map_of:
  "map_of (entries_of m xs) key = map_option (\<lambda>e. load64 m (e + 8)) (find (\<lambda>e. load64 m e = key) (rev xs))"
proof -
  have "map_of (map (\<lambda>e. (load64 m e, load64 m (e + 8))) ys) key =
      map_option (\<lambda>e. load64 m (e + 8)) (find (\<lambda>e. load64 m e = key) ys)" for ys
    by (induction ys) auto
  then show ?thesis by (simp add: entries_of_def)
qed

lemma find_elem_in: "find P ys = Some e \<Longrightarrow> e \<in> set ys \<and> P e"
  by (auto simp: find_Some_iff)

text \<open>Stores to a key or value field, and the link operations, seen by the other fields.\<close>

lemma entry_stores:
  assumes "map_nodes A" "a \<in> A" "x \<in> A"
  shows "load64 (store64 m a v) x = (if a = x then v else load64 m x)"
    "load64 (store64 m (a + 8) v) (x + 8) = (if a = x then v else load64 m (x + 8))"
    "load64 (store64 m (a + 8) v) x = load64 m x" "load64 (store64 m a v) (x + 8) = load64 m (x + 8)"
    "load64 (store64 m a v) (x + 16) = load64 m (x + 16)" "load64 (store64 m a v) (x + 24) = load64 m (x + 24)"
    "load64 (store64 m (a + 8) v) (x + 16) = load64 m (x + 16)" "load64 (store64 m (a + 8) v) (x + 24) = load64 m (x + 24)"
    "load64 (store64 m (a + 16) v) x = load64 m x" "load64 (store64 m (a + 24) v) x = load64 m x"
    "load64 (store64 m (a + 16) v) (x + 8) = load64 m (x + 8)" "load64 (store64 m (a + 24) v) (x + 8) = load64 m (x + 8)"
proof -
  have al: "aligned 3 (y + k)" if "y \<in> A" "k \<in> {0, 8, 16, 24}" for y k
    using assms(1) that by (auto simp: map_nodes_def map_list.nodes_def intro!: aligned_add) (simp_all add: aligned_def)
  have al': "aligned 3 y" "aligned 3 (y + 8)" "aligned 3 (y + 16)" "aligned 3 (y + 24)" if "y \<in> A" for y
    using al [OF that, of 0] al [OF that, of 8] al [OF that, of 16] al [OF that, of 24] by simp_all
  have ne: "y \<noteq> z + 8" "y \<noteq> z + 16" "y \<noteq> z + 24" "y + 8 \<noteq> z + 16" "y + 8 \<noteq> z + 24"
    "z + 8 \<noteq> y" "z + 16 \<noteq> y" "z + 24 \<noteq> y" "z + 16 \<noteq> y + 8" "z + 24 \<noteq> y + 8" if "y \<in> A" "z \<in> A" for y z
    using assms(1) that unfolding map_nodes_def by metis+
  note ld = load64_store64_aligned
  show "load64 (store64 m a v) x = (if a = x then v else load64 m x)"
    "load64 (store64 m (a + 8) v) (x + 8) = (if a = x then v else load64 m (x + 8))"
    "load64 (store64 m (a + 8) v) x = load64 m x" "load64 (store64 m a v) (x + 8) = load64 m (x + 8)"
    "load64 (store64 m a v) (x + 16) = load64 m (x + 16)" "load64 (store64 m a v) (x + 24) = load64 m (x + 24)"
    "load64 (store64 m (a + 8) v) (x + 16) = load64 m (x + 16)" "load64 (store64 m (a + 8) v) (x + 24) = load64 m (x + 24)"
    "load64 (store64 m (a + 16) v) x = load64 m x" "load64 (store64 m (a + 24) v) x = load64 m x"
    "load64 (store64 m (a + 16) v) (x + 8) = load64 m (x + 8)" "load64 (store64 m (a + 24) v) (x + 8) = load64 m (x + 8)"
    using al' [OF assms(2)] al' [OF assms(3)] ne [OF assms(2,3)] ne [OF assms(3,2)] by (simp_all add: ld)
qed

lemma entries_cong:
  "(\<And>x. x \<in> set xs \<Longrightarrow> load64 m' x = load64 m x \<and> load64 m' (x + 8) = load64 m (x + 8)) \<Longrightarrow>
     entries_of m' xs = entries_of m xs"
  by (simp add: entries_of_def)

lemma circ_entry_store:
  assumes "map_nodes A" "set (mp # xs) \<subseteq> A" "a \<in> A"
  shows "map_list.circ (store64 (store64 m a k) (a + 8) v) mp xs = map_list.circ m mp xs"
proof -
  have "map_list.links (store64 (store64 m a k) (a + 8) v) (mp # xs @ [mp]) = map_list.links m (mp # xs @ [mp])"
  proof (rule map_list.links_cong)
    fix x assume "x \<in> set (butlast (mp # xs @ [mp]))"
    then have "x \<in> A" using assms(2) in_set_butlastD [of x "mp # xs @ [mp]"] by auto
    then show "load64 (store64 (store64 m a k) (a + 8) v) (x + 16) = load64 m (x + 16)"
      using entry_stores [OF assms(1,3)] by simp
  next
    fix x assume "x \<in> set (tl (mp # xs @ [mp]))"
    then have "x \<in> A" using assms(2) by auto
    then show "load64 (store64 (store64 m a k) (a + 8) v) (x + 24) = load64 m (x + 24)"
      using entry_stores [OF assms(1,3)] by simp
  qed
  then show ?thesis by (simp add: map_list.circ_def)
qed

text \<open>The entries with the entry of node \<open>a\<close> set.\<close>

lemma entries_set_entry:
  assumes "map_nodes A" "set xs \<subseteq> A" "a \<in> A"
  shows "entries_of (store64 (store64 m a k) (a + 8) v) xs =
    map (\<lambda>e. if e = a then (k, v) else (load64 m e, load64 m (e + 8))) (rev xs)"
  unfolding entries_of_def
  by (rule map_cong [OF refl]) (use assms(2) in \<open>auto simp: entry_stores [OF assms(1,3)]\<close>)

lemma add_existing:
  assumes "map_ok (vm s) mp xs" "map_of (entries_of (vm s) xs) key = Some w"
  shows "\<exists>s'. map_add s mp key v = Some s' \<and> map_ok (vm s') mp xs
    \<and> map_of (entries_of (vm s') xs) = (map_of (entries_of (vm s) xs))(key \<mapsto> v)"
proof -
  have c: "map_list.circ (vm s) mp xs" "map_nodes (set (mp # xs))" "distinct (map fst (entries_of (vm s) xs))"
    using assms(1) by (simp_all add: map_ok_def)
  obtain a where a: "find (\<lambda>e. load64 (vm s) e = key) (rev xs) = Some a"
    using assms(2) by (auto simp: find_map_of)
  then have in_xs: "a \<in> set xs" "load64 (vm s) a = key" using find_elem_in by fastforce+
  have null: "a \<noteq> NULL" using c(2) in_xs by (auto simp: map_nodes_def)
  let ?s = "set_entry s a key v" and ?m = "store64 (store64 (vm s) a key) (a + 8) v"
  have "map_add s mp key v = Some ?s"
    using map_find_elem_eq [OF c(1), of key] a null by (simp add: map_add_def)
  moreover have vm: "vm ?s = ?m" by (simp add: set_entry_def)
  have e: "entries_of ?m xs = map (\<lambda>e. if e = a then (key, v) else (load64 (vm s) e, load64 (vm s) (e + 8))) (rev xs)"
    by (rule entries_set_entry [OF c(2)]) (use in_xs in auto)
  then have k: "map fst (entries_of ?m xs) = map fst (entries_of (vm s) xs)"
    using in_xs(2) by (auto simp: entries_of_def)
  have inj: "b = a" if "b \<in> set xs" "load64 (vm s) b = key" for b
  proof -
    have "inj_on (\<lambda>e. load64 (vm s) e) (set xs)" using c(3) by (simp add: entries_of_def distinct_map comp_def)
    then show ?thesis using in_xs that by (auto dest: inj_onD)
  qed
  have "map_of (entries_of ?m xs) x = ((map_of (entries_of (vm s) xs))(key \<mapsto> v)) x" for x
  proof -
    have "map_of (map (\<lambda>e. if e = a then (key, v) else (load64 (vm s) e, load64 (vm s) (e + 8))) ys) x =
        (if x = key \<and> a \<in> set ys then Some v else map_of (map (\<lambda>e. (load64 (vm s) e, load64 (vm s) (e + 8))) ys) x)"
      if "set ys \<subseteq> set xs" for ys
      using that
    proof (induction ys)
      case (Cons y ys)
      show ?case
      proof (cases "y = a")
        case False
        then have "load64 (vm s) y \<noteq> key" using inj [of y] Cons.prems by auto
        with False Cons show ?thesis by auto
      qed (use Cons in_xs(2) in auto)
    qed simp
    from this [of "rev xs"] show ?thesis using in_xs(1) unfolding e by (simp add: entries_of_def)
  qed
  then have "map_of (entries_of ?m xs) = (map_of (entries_of (vm s) xs))(key \<mapsto> v)" by (rule ext)
  moreover have "map_ok ?m mp xs"
    using c circ_entry_store [OF c(2), of mp xs a "vm s" key v] in_xs k by (simp add: map_ok_def)
  ultimately show ?thesis using vm by metis
qed

lemma add_fresh:
  assumes "map_ok (vm s) mp xs" "map_of (entries_of (vm s) xs) key = None"
    and "kzalloc s 32 = Some (s1, l)" "map_ok (vm s1) mp xs" "entries_of (vm s1) xs = entries_of (vm s) xs"
    and "map_nodes (insert l (set (mp # xs)))" "l \<notin> set (mp # xs)"
  shows "\<exists>s'. map_add s mp key v = Some s' \<and> map_ok (vm s') mp (l # xs)
    \<and> map_of (entries_of (vm s') (l # xs)) = (map_of (entries_of (vm s) xs))(key \<mapsto> v)"
proof -
  let ?A = "insert l (set (mp # xs))"
  have c: "map_list.circ (vm s) mp xs" "map_list.circ (vm s1) mp xs" using assms(1,4) by (simp_all add: map_ok_def)
  have nf: "find (\<lambda>e. load64 (vm s) e = key) (rev xs) = None" using assms(2) by (simp add: find_map_of)
  have w: "walk_to_head (vm s1) mp (load64 (vm s1) (mp + 24)) = Some mp"
    using walk_to_head_end [of "vm s1" mp xs "[]"] map_list.circ_last [OF c(2)] c(2) by (simp del: last.simps)
  let ?m = "link_after 16 24 (vm s1) mp l"
  have add: "map_add s mp key v = Some (set_entry (s1\<lparr>vm := ?m\<rparr>) l key v)"
    using map_find_elem_eq [OF c(1), of key] nf assms(3) w by (simp add: map_add_def)
  have circ: "map_list.circ ?m mp (l # xs)"
    using map_list.circ_insert [of "vm s1" mp "[]" xs l] c(2) assms(6,7) by (simp add: map_nodes_def)
  have nx: "load64 (vm s1) (mp + 16) \<in> ?A" using map_list.circ_first [OF c(2)] by (cases xs) auto
  have keep: "load64 ?m x = load64 (vm s1) x \<and> load64 ?m (x + 8) = load64 (vm s1) (x + 8)" if x: "x \<in> ?A" for x
  proof -
    have n: "map_list.nodes ?A" using assms(6) by (simp add: map_nodes_def)
    have mp: "mp \<in> ?A" and l: "l \<in> ?A" by simp_all
    note st = entry_stores(9-12) [OF assms(6)] and ls = map_list.load_store [OF n]
    have f: "link_after 16 24 (vm s1) mp l = store64 (store64 (store64 (store64 (vm s1) (l + 16) (load64 (vm s1) (mp + 16)))
        (l + 24) mp) (load64 (vm s1) (mp + 16) + 24) l) (mp + 16) l"
    proof -
      have "load64 (vm s1) (mp + 16) \<noteq> l"
        using assms(7) map_list.circ_first [OF c(2)] by (cases xs) auto
      then show ?thesis using ls [OF l l] ls [OF nx l] by (simp add: link_after_def Let_def)
    qed
    show ?thesis unfolding f using st [OF l x] st [OF nx x] st [OF mp x] by simp
  qed
  let ?m2 = "store64 (store64 ?m l key) (l + 8) v"
  have e: "entries_of ?m2 (l # xs) = entries_of (vm s) xs @ [(key, v)]"
  proof -
    have "entries_of ?m2 (l # xs) = map (\<lambda>e. if e = l then (key, v) else (load64 ?m e, load64 ?m (e + 8))) (rev (l # xs))"
      by (rule entries_set_entry [OF assms(6)]) auto
    also have "\<dots> = entries_of (vm s1) xs @ [(key, v)]" using assms(7) keep by (auto simp: entries_of_def)
    finally show ?thesis using assms(5) by simp
  qed
  have "key \<notin> set (map fst (entries_of (vm s) xs))" using assms(2) by (metis map_of_eq_None_iff list.set_map)
  then have "map_ok ?m2 mp (l # xs)"
    using circ_entry_store [OF assms(6), of mp "l # xs" l ?m key v] circ assms(1,6) e
    by (simp add: map_ok_def insert_commute)
  moreover have "map_of (entries_of ?m2 (l # xs)) = (map_of (entries_of (vm s) xs))(key \<mapsto> v)"
    unfolding e using assms(2) by (auto simp: Map.map_add_def fun_eq_iff split: option.splits)
  moreover have "vm (set_entry (s1\<lparr>vm := ?m\<rparr>) l key v) = ?m2" by (simp add: set_entry_def)
  ultimately show ?thesis using add by metis
qed

lemma map_find_eq:
  assumes "map_ok (vm s) mp xs"
  shows "map_find s mp key = Some (case map_of (entries_of (vm s) xs) key of None \<Rightarrow> NULL | Some v \<Rightarrow> v)"
proof -
  have c: "map_list.circ (vm s) mp xs" "NULL \<notin> set xs" using assms by (auto simp: map_ok_def map_nodes_def)
  show ?thesis
  proof (cases "find (\<lambda>e. load64 (vm s) e = key) (rev xs)")
    case None
    then show ?thesis using map_find_elem_eq [OF c(1), of key] by (simp add: map_find_def find_map_of)
  next
    case (Some e)
    then have "e \<noteq> NULL" using c(2) find_elem_in [OF Some] by auto
    then show ?thesis using map_find_elem_eq [OF c(1), of key] Some by (simp add: map_find_def find_map_of)
  qed
qed

section \<open>Properties\<close>

text \<open>
  C18. \<open>map_find\<close> returns the value of a key and NULL when it has none, and \<open>map_add\<close> is map update:
  the key then has the value and every other key is as before. A new key takes a node from \<open>kzalloc\<close>,
  of which is required that it is not part of the map and that the call leaves the map alone.
\<close>

theorem map_add_find:
  assumes "map_ok (vm s) mp xs"
    and "map_of (entries_of (vm s) xs) key = None \<Longrightarrow> kzalloc s 32 = Some (s1, l) \<and> map_ok (vm s1) mp xs
      \<and> entries_of (vm s1) xs = entries_of (vm s) xs \<and> map_nodes (insert l (set (mp # xs))) \<and> l \<notin> set (mp # xs)"
  shows "\<exists>s' ys. map_add s mp key v = Some s' \<and> map_ok (vm s') mp ys
    \<and> map_of (entries_of (vm s') ys) = (map_of (entries_of (vm s) xs))(key \<mapsto> v)
    \<and> (\<forall>k. map_find s' mp k = (if k = key then Some v else map_find s mp k))"
proof -
  obtain s' ys where a: "map_add s mp key v = Some s'" "map_ok (vm s') mp ys"
    "map_of (entries_of (vm s') ys) = (map_of (entries_of (vm s) xs))(key \<mapsto> v)"
  proof (cases "map_of (entries_of (vm s) xs) key")
    case None
    then show thesis using that add_fresh [OF assms(1) None] assms(2) by blast
  qed (use that add_existing [OF assms(1)] in blast)
  moreover have "map_find s' mp k = (if k = key then Some v else map_find s mp k)" for k
    using map_find_eq [OF a(2), of k] map_find_eq [OF assms(1), of k] a(3) by simp
  ultimately show ?thesis by blast
qed

text \<open>An empty map at 0x120002000 beside a free block at 0x120001000.\<close>

definition demo_map_heap :: mem where
  "demo_map_heap = (let m = store64 demo_kheap 0x120001000 16; m = store64 m 0x120002010 0x120002000
     in store64 m 0x120002018 0x120002000)"

lemma demo_map_loads:
  "load64 demo_map_heap 0x120000010 = 0x120001000" "load64 demo_map_heap 0x120001000 = 16"
  "load64 demo_map_heap 0x120002010 = 0x120002000" "load64 demo_map_heap 0x120002018 = 0x120002000"
  by (simp_all add: demo_map_heap_def demo_kheap_def demo_loads)

lemma load64_memset_other:
  assumes "sz \<le> 2 ^ 64" "\<not> within a d (nat sz)" "\<not> within (a + 1) d (nat sz)" "\<not> within (a + 2) d (nat sz)"
    "\<not> within (a + 3) d (nat sz)" "\<not> within (a + 4) d (nat sz)" "\<not> within (a + 5) d (nat sz)"
    "\<not> within (a + 6) d (nat sz)" "\<not> within (a + 7) d (nat sz)"
  shows "load64 (memset m d v sz) a = load64 m a"
  using assms by (simp add: load64_def memset_apply)

lemma demo_kzalloc:
  "\<exists>s1. kzalloc (demo_kernel demo_map_heap) 32 = Some (s1, 0x120000FD8) \<and> map_ok (vm s1) 0x120002000 []"
proof -
  let ?s = "demo_kernel demo_map_heap"
  let ?m = "store64 (store64 demo_map_heap 0x120000FD0 64) 0x120001000 (- 48)"
  have b: "block_bytes 32 = 64" by (simp add: block_bytes_def)
  have f: "find_space demo_map_heap 0x120000000 64 0x120001000 = Some 0x120001000"
    by (simp add: find_space.simps [of demo_map_heap] demo_map_loads)
  have ld: "load64 (store64 demo_map_heap 0x120000FD0 64) 0x120001000 = 16"
    by (simp add: load64_store64_aligned aligned_def demo_map_loads)
  have k: "kzalloc ?s 32 = Some (?s\<lparr>vm := memset ?m 0x120000FD8 0 24\<rparr>, 0x120000FD8)"
    by (simp add: kzalloc_def kmalloc_def Let_def b demo_map_loads f take_block_def ld heap_unlock_def)
  have "load64 (memset ?m 0x120000FD8 0 24) 0x120002010 = 0x120002000" "load64 (memset ?m 0x120000FD8 0 24) 0x120002018 = 0x120002000"
    by (subst load64_memset_other; simp add: within_def load64_store64_aligned aligned_def demo_map_loads)+
  then have "map_ok (memset ?m 0x120000FD8 0 24) 0x120002000 []"
    by (simp add: map_ok_def map_list.circ_def map_nodes_def map_list.nodes_def entries_of_def aligned_def)
  then show ?thesis unfolding k by simp
qed

lemma map_add_find_witness:
  "\<exists>s'. map_add (demo_kernel demo_map_heap) 0x120002000 5 6 = Some s' \<and> map_find s' 0x120002000 5 = Some 6"
proof -
  obtain s1 where s1: "kzalloc (demo_kernel demo_map_heap) 32 = Some (s1, 0x120000FD8)" "map_ok (vm s1) 0x120002000 []"
    using demo_kzalloc by blast
  have ok: "map_ok (vm (demo_kernel demo_map_heap)) 0x120002000 []"
    by (simp add: map_ok_def map_list.circ_def map_nodes_def map_list.nodes_def entries_of_def aligned_def demo_map_loads)
  have "\<exists>s' ys. map_add (demo_kernel demo_map_heap) 0x120002000 5 6 = Some s' \<and> map_ok (vm s') 0x120002000 ys
    \<and> map_of (entries_of (vm s') ys) = (map_of (entries_of (vm (demo_kernel demo_map_heap)) []))(5 \<mapsto> 6)
    \<and> (\<forall>k. map_find s' 0x120002000 k = (if k = 5 then Some 6 else map_find (demo_kernel demo_map_heap) 0x120002000 k))"
    by (rule map_add_find [OF ok, of 5 s1 "0x120000FD8"])
      (use s1 in \<open>simp add: entries_of_def map_nodes_def map_list.nodes_def aligned_def\<close>)
  then show ?thesis by auto
qed

end
