(* ===== verification/Virtio.thy ===== *)
theory Virtio
  imports Kmalloc RingBuffers
begin

unbundle bit_operations_syntax

text \<open>
  The layout of the virtio structures of src/src/include/virtio.h, the state of the drivers,
  and the entropy device of src/src/virtio.c. Everything a device also reads or writes (its
  registers, the descriptor tables, the rings, the requests) is accessed on the bus, so the
  order of the accesses is part of the state and a read may give whatever the device put there.
\<close>

section \<open>Structure layouts\<close>

datatype virtio_pci_common_cfg =
    device_feature_select | device_feature | driver_feature_select | driver_feature
  | msix_config | num_queues | device_status | config_generation
  | queue_select | queue_size | queue_msix_vector | queue_enable | queue_notify_off
  | queue_desc | queue_driver | queue_device

fun cfg_layout :: "virtio_pci_common_cfg \<Rightarrow> u64 \<times> nat" where
  "cfg_layout device_feature_select = (0, 4)"
| "cfg_layout device_feature = (4, 4)"
| "cfg_layout driver_feature_select = (8, 4)"
| "cfg_layout driver_feature = (12, 4)"
| "cfg_layout msix_config = (16, 2)"
| "cfg_layout num_queues = (18, 2)"
| "cfg_layout device_status = (20, 1)"
| "cfg_layout config_generation = (21, 1)"
| "cfg_layout queue_select = (22, 2)"
| "cfg_layout queue_size = (24, 2)"
| "cfg_layout queue_msix_vector = (26, 2)"
| "cfg_layout queue_enable = (28, 2)"
| "cfg_layout queue_notify_off = (30, 2)"
| "cfg_layout queue_desc = (32, 8)"
| "cfg_layout queue_driver = (40, 8)"
| "cfg_layout queue_device = (48, 8)"

definition cfg_get :: "device \<Rightarrow> 'a world_scheme \<Rightarrow> u64 \<Rightarrow> virtio_pci_common_cfg \<Rightarrow> 'a world_scheme \<times> u64" where
  "cfg_get dev s cfg f = rd dev (snd (cfg_layout f)) s (cfg + fst (cfg_layout f))"

definition cfg_put :: "'a world_scheme \<Rightarrow> u64 \<Rightarrow> virtio_pci_common_cfg \<Rightarrow> u64 \<Rightarrow> 'a world_scheme" where
  "cfg_put s cfg f v = wr (snd (cfg_layout f)) s (cfg + fst (cfg_layout f)) v"

text \<open>\<open>cfg->field |= bits\<close>\<close>

definition cfg_or :: "device \<Rightarrow> 'a world_scheme \<Rightarrow> u64 \<Rightarrow> virtio_pci_common_cfg \<Rightarrow> u64 \<Rightarrow> 'a world_scheme" where
  "cfg_or dev s cfg f bits = (let (s, v) = cfg_get dev s cfg f in cfg_put s cfg f (v OR bits))"

text \<open>Descriptors, the driver's ring and the device's ring.\<close>

definition desc_addr :: "u64 \<Rightarrow> u64 \<Rightarrow> u64" where "desc_addr d i = d + 16 * i"
definition desc_len :: "u64 \<Rightarrow> u64 \<Rightarrow> u64" where "desc_len d i = d + 16 * i + 8"
definition desc_flags :: "u64 \<Rightarrow> u64 \<Rightarrow> u64" where "desc_flags d i = d + 16 * i + 12"
definition desc_next :: "u64 \<Rightarrow> u64 \<Rightarrow> u64" where "desc_next d i = d + 16 * i + 14"

abbreviation (input) VIRTQ_DESC_F_NEXT :: u64 where "VIRTQ_DESC_F_NEXT \<equiv> 1"
abbreviation (input) VIRTQ_DESC_F_WRITE :: u64 where "VIRTQ_DESC_F_WRITE \<equiv> 2"

definition put_desc :: "'a world_scheme \<Rightarrow> u64 \<Rightarrow> u64 \<Rightarrow> u64 \<Rightarrow> u64 \<Rightarrow> u64 \<Rightarrow> u64 \<Rightarrow> 'a world_scheme" where
  "put_desc s d i a n flags nxt =
     (let s = wr 8 s (desc_addr d i) a; s = wr 4 s (desc_len d i) n; s = wr 2 s (desc_flags d i) flags
      in wr 2 s (desc_next d i) nxt)"

definition avail_idx :: "u64 \<Rightarrow> u64" where "avail_idx d = d + 2"
definition avail_ring :: "u64 \<Rightarrow> u64 \<Rightarrow> u64" where "avail_ring d i = d + 4 + 2 * i"
definition used_idx :: "u64 \<Rightarrow> u64" where "used_idx d = d + 2"
definition used_id :: "u64 \<Rightarrow> u64 \<Rightarrow> u64" where "used_id d i = d + 4 + 8 * i"

text \<open>\<open>driver->ring[driver->idx % mod] = head; driver->idx += 1\<close>; \<open>None\<close> is a division by zero.\<close>

definition ring_offer :: "device \<Rightarrow> 'a world_scheme \<Rightarrow> u64 \<Rightarrow> u64 \<Rightarrow> u64 \<Rightarrow> 'a world_scheme option" where
  "ring_offer dev s drv q head =
     (if q = 0 then None
      else
        let (s, i) = rd dev 2 s (avail_idx drv); s = wr 2 s (avail_ring drv (i mod q)) head;
            (s, i) = rd dev 2 s (avail_idx drv)
        in Some (wr 2 s (avail_idx drv) (i + 1)))"

text \<open>A capability in PCI configuration space.\<close>

datatype virtio_pci_cap = cap_vndr | cap_next | cap_len | cfg_type | cap_bar | cap_offset | cap_length
  | notify_off_multiplier

fun cap_layout :: "virtio_pci_cap \<Rightarrow> u64 \<times> nat" where
  "cap_layout cap_vndr = (0, 1)"
| "cap_layout cap_next = (1, 1)"
| "cap_layout cap_len = (2, 1)"
| "cap_layout cfg_type = (3, 1)"
| "cap_layout cap_bar = (4, 1)"
| "cap_layout cap_offset = (8, 4)"
| "cap_layout cap_length = (12, 4)"
| "cap_layout notify_off_multiplier = (16, 4)"

definition cap_get :: "device \<Rightarrow> 'a world_scheme \<Rightarrow> u64 \<Rightarrow> virtio_pci_cap \<Rightarrow> 'a world_scheme \<times> u64" where
  "cap_get dev s cap f = rd dev (snd (cap_layout f)) s (cap + fst (cap_layout f))"

section \<open>The state of the drivers\<close>

record virtio_config_loc =
  common_cfg :: u64
  notify_cap :: u64
  isr_cap :: u64
  t4 :: u64
  desc_table :: u64
  driver_ring :: u64
  device_ring :: u64
  at_idx :: u16
  enabled :: bool
  baraddr :: u32

record VirtioIptDevice =
  common :: u64
  isr :: u64
  notify :: u64
  cfg4 :: u64
  qdesc :: u64
  qdriver :: u64
  qdevice :: u64
  qnotmult :: u64
  qnotaddr :: u64
  drvidx :: u16
  devidx :: u16
  irq :: u16

record Virt_GPU_Device = VirtioIptDevice +
  bufmutex :: u32

record Framebuffer =
  gpu :: u32
  width :: u32
  height :: u32
  pixels :: u64

record PciDriver =
  vendor_id :: u16
  device_id :: u16
  bus :: u8
  slot :: u8
  function_no :: u8
  claim_irq :: u64

record PciDriverListElem =
  vendorid :: u16
  deviceid :: u16
  elem_drv :: PciDriver

text \<open>
  The globals of the kernel's drivers. The pointers to device structures are set once, in
  \<open>pci_init\<close>, before anything else uses them; each is the structure it points to.
\<close>

record os = kernel +
  bar_address_free :: u64
  dev_count :: u64
  subordinate :: u8
  d_list_head :: "PciDriverListElem list"
  pci_entropy_device :: virtio_config_loc
  pci_blk_device :: virtio_config_loc
  minix_blk_device :: virtio_config_loc
  ext4_blk_device :: virtio_config_loc
  gdev :: Virt_GPU_Device
  ipt :: VirtioIptDevice
  keyboard :: VirtioIptDevice
  ipt_ringbuf :: "RingBuffer option"
  screen_buff :: Framebuffer

text \<open>Calls into the page allocator, the page tables and the log from a driver.\<close>

definition znalloc :: "'a kernel_scheme \<Rightarrow> int \<Rightarrow> 'a kernel_scheme \<times> u64" where
  "znalloc s n = (let (h, p) = cpage_znalloc (hw (mm s)) n in (s\<lparr>mm := (mm s)\<lparr>hw := h\<rparr>\<rparr>, p))"

definition translate :: "'a kernel_scheme \<Rightarrow> u64 \<Rightarrow> u64" where
  "translate s v = mmu_translate (mem (hw (mm s))) (kernel_mmu_table s) v"

definition say :: "string \<Rightarrow> 'a kernel_scheme \<Rightarrow> 'a kernel_scheme" where
  "say t s = s\<lparr>klog := t # klog s\<rparr>"

section \<open>Device initialisation\<close>

text \<open>Reset, acknowledge, driver; the features are taken as offered; features OK; queue 0.\<close>

definition negotiate :: "device \<Rightarrow> 'a world_scheme \<Rightarrow> u64 \<Rightarrow> 'a world_scheme" where
  "negotiate dev s cfg =
     (let s = cfg_put s cfg device_status 0;
          s = cfg_put s cfg device_status 1;
          s = cfg_or dev s cfg device_status 2;
          (s, features) = cfg_get dev s cfg device_feature;
          s = cfg_put s cfg driver_feature features;
          s = cfg_or dev s cfg device_status 8
      in cfg_put s cfg queue_select 0)"

text \<open>One of the three areas of a queue: allocated, and its physical address given to the device.\<close>

definition give_area ::
  "'a kernel_scheme \<Rightarrow> u64 \<Rightarrow> virtio_pci_common_cfg \<Rightarrow> u64 \<Rightarrow> ('a kernel_scheme \<times> u64) option" where
  "give_area s cfg f bytes =
     (case kzalloc s bytes of
        None \<Rightarrow> None
      | Some (s, virt) \<Rightarrow> Some (cfg_put s cfg f (translate s virt), virt))"

definition go_live :: "device \<Rightarrow> 'a world_scheme \<Rightarrow> u64 \<Rightarrow> 'a world_scheme" where
  "go_live dev s cfg = (let s = cfg_put s cfg queue_enable 1 in cfg_or dev s cfg device_status 4)"

text \<open>The areas from the kernel heap, sized by the queue, as the entropy and the display device get them.\<close>

definition heap_queue ::
  "device \<Rightarrow> 'a kernel_scheme \<Rightarrow> u64 \<Rightarrow> ('a kernel_scheme \<times> u64 \<times> u64 \<times> u64) option" where
  "heap_queue dev s cfg =
     (let s = negotiate dev s cfg; (s, qsize) = cfg_get dev s cfg queue_size in
      case give_area s cfg queue_desc (16 * qsize) of
        None \<Rightarrow> None
      | Some (s, d) \<Rightarrow>
          (case give_area s cfg queue_driver (6 + 2 * qsize) of
             None \<Rightarrow> None
           | Some (s, v) \<Rightarrow>
               (case give_area s cfg queue_device (6 + 8 * qsize) of
                  None \<Rightarrow> None
                | Some (s, u) \<Rightarrow> Some (go_live dev s cfg, d, v, u))))"

definition virtio_rng_device_init :: "device \<Rightarrow> 'a os_scheme \<Rightarrow> 'a os_scheme option" where
  "virtio_rng_device_init dev s =
     map_option (\<lambda>(s, d, v, u). s\<lparr>pci_entropy_device := (pci_entropy_device s)\<lparr>desc_table := d,
         driver_ring := v, device_ring := u, enabled := True\<rparr>\<rparr>)
       (heap_queue dev s (common_cfg (pci_entropy_device s)))"

section \<open>The entropy device\<close>

text \<open>
  The notification register: \<open>baraddr + cap.offset + queue_notify_off * notify_off_multiplier\<close>,
  all of it 32 bits wide.
\<close>

definition notify_addr :: "device \<Rightarrow> 'a world_scheme \<Rightarrow> virtio_config_loc \<Rightarrow> 'a world_scheme \<times> u64" where
  "notify_addr dev s d =
     (let (s, off) = cap_get dev s (notify_cap d) cap_offset;
          (s, n) = cfg_get dev s (common_cfg d) queue_notify_off;
          (s, m) = cap_get dev s (notify_cap d) notify_off_multiplier
      in (s, ucast (baraddr d + ucast off + ucast n * ucast m)))"

definition kick :: "device \<Rightarrow> 'a world_scheme \<Rightarrow> virtio_config_loc \<Rightarrow> 'a world_scheme" where
  "kick dev s d = (let (s, a) = notify_addr dev s d in wr 4 s a 0)"

text \<open>\<open>at_idx\<close> runs up to the index of the device's ring, read again in every round.\<close>

partial_function (option) catch_up :: "device \<Rightarrow> 'a world_scheme \<Rightarrow> u64 \<Rightarrow> u16 \<Rightarrow> ('a world_scheme \<times> u16) option" where
  "catch_up dev s ring i =
     (let (s, v) = rd dev 2 s (used_idx ring) in
      if i \<noteq> ucast v then catch_up dev s ring (i + 1) else Some (s, i))"

definition rng_fill :: "device \<Rightarrow> 'a os_scheme \<Rightarrow> u64 \<Rightarrow> u16 \<Rightarrow> ('a os_scheme, bool) outcome" where
  "rng_fill dev s buff bytes =
     (let d = pci_entropy_device s in
      if \<not> enabled d then Ret s False
      else
        let ai = ucast (at_idx d);
            (s, q) = cfg_get dev s (common_cfg d) queue_size;
            phys = translate s buff;
            s = put_desc s (desc_table d) ai phys (ucast bytes) VIRTQ_DESC_F_WRITE 0
        in case ring_offer dev s (driver_ring d) q ai of
             None \<Rightarrow> Undef
           | Some s \<Rightarrow>
               let s = kick dev s d in
               (case catch_up dev s (device_ring d) (ucast ((ai + 1) mod q)) of
                  None \<Rightarrow> Hang
                | Some (s, i) \<Rightarrow> Ret (s\<lparr>pci_entropy_device := d\<lparr>at_idx := i\<rparr>\<rparr>) True))"

section \<open>What the accesses leave alone\<close>

lemma kernel_wr [simp]:
  "mm (wr n s a v) = mm s" "kernel_mmu_table (wr n s a v) = kernel_mmu_table s" "vm (wr n s a v) = vm s"
  "klog (wr n s a v) = klog s"
  by (simp_all add: wr_def emit_def)

lemma kernel_rd [simp]:
  "mm (fst (rd dev n s a)) = mm s" "kernel_mmu_table (fst (rd dev n s a)) = kernel_mmu_table s"
  "vm (fst (rd dev n s a)) = vm s" "klog (fst (rd dev n s a)) = klog s"
  by (simp_all add: rd_eq emit_def)

lemma translate_bus [simp]: "translate (wr n s a v) = translate s" "translate (fst (rd dev n s a)) = translate s"
  by (simp_all add: translate_def fun_eq_iff)

lemma written_kernel [simp]:
  "written (s\<lparr>mm := x\<rparr>) = written s" "written (s\<lparr>vm := m\<rparr>) = written s" "written (say t s) = written s"
  by (simp_all add: written_def say_def)

lemma cfg_get_simps [simp]:
  "written (fst (cfg_get dev s cfg f)) = written s" "translate (fst (cfg_get dev t cfg f)) = translate t"
  by (simp_all add: cfg_get_def)

lemma ucast_u16 [simp]: "take_bit 16 (ucast (x :: u16) :: u64) = ucast x"
  by (rule bit_word_eqI) (auto simp: bit_simps dest: bit_imp_le_length)

lemma written_put_desc [simp]:
  "written (put_desc s dt i a n fl nx) = written s @
     [W 8 (desc_addr dt i) a, W 4 (desc_len dt i) (take_bit 32 n), W 2 (desc_flags dt i) (take_bit 16 fl),
      W 2 (desc_next dt i) (take_bit 16 nx)]"
  by (simp add: put_desc_def Let_def)

lemma translate_put_desc [simp]: "translate (put_desc s dt i a n fl nx) = translate s"
  by (simp add: put_desc_def Let_def)

lemma last_write_put_desc:
  assumes "x \<noteq> desc_flags dt i" "x \<noteq> desc_next dt i"
  shows "last_write (hist (put_desc s dt i a n fl nx)) 2 x = last_write (hist s) 2 x"
  using assms by (simp add: put_desc_def Let_def)

lemma last_write_put_desc8:
  "x \<noteq> desc_addr dt i \<Longrightarrow> last_write (hist (put_desc s dt i a n fl nx)) 8 x = last_write (hist s) 8 x"
  by (simp add: put_desc_def Let_def)

lemma cfg_get_last_write [simp]: "last_write (hist (fst (cfg_get dev s cfg f))) k b = last_write (hist s) k b"
  by (simp add: cfg_get_def)

lemma avail_apart: "unat i < 2 ^ 16 \<Longrightarrow> avail_ring drv i \<noteq> avail_idx drv"
proof
  assume i: "unat i < 2 ^ 16" and "avail_ring drv i = avail_idx drv"
  then have "2 * i + 4 = 2" by (simp add: avail_ring_def avail_idx_def algebra_simps)
  from arg_cong [OF this, of unat] have "unat (2 * i + 4) = 2" unfolding unat_numeral by simp
  moreover have "unat (2 * i + 4) = 2 * unat i + 4" using i by (simp add: unat_word_ariths)
  ultimately show False by simp
qed

text \<open>The ring index in memory: what was last written there is what the driver reads.\<close>

lemma ring_offer_written:
  assumes "0 < q" "unat q < 2 ^ 16" "reads_back dev 2 (avail_idx drv)" "last_write (hist s) 2 (avail_idx drv) = Some i"
    and "take_bit 16 i = i"
  obtains s' where "ring_offer dev s drv q (ucast (head :: u16)) = Some s'"
    and "written s' = written s @ [W 2 (avail_ring drv (i mod q)) (ucast head), W 2 (avail_idx drv) (take_bit 16 (i + 1))]"
    and "translate s' = translate s"
proof -
  have "unat (i mod q) < 2 ^ 16" using assms(1,2) by (simp add: unat_mod)
      (metis assms(2) mod_less_divisor order.strict_trans word_gt_0_no word_less_nat_alt word_neq_0_conv unat_gt_0)
  then have a: "avail_ring drv (i mod q) \<noteq> avail_idx drv" by (rule avail_apart)
  have "snd (rd dev 2 s (avail_idx drv)) = i"
    using rd_reads_back [OF assms(3,4)] assms(5) by simp
  moreover have "snd (rd dev 2 (wr 2 (fst (rd dev 2 s (avail_idx drv))) (avail_ring drv (i mod q)) (ucast head)) (avail_idx drv)) = i"
    by (rule rd_reads_back [OF assms(3)]) (use a assms(4,5) in simp_all)
  ultimately show ?thesis
    using that assms(1) by (simp add: ring_offer_def Let_def split_def word_gt_0)
qed

lemma kick_written:
  obtains a where "written (kick dev s d) = written s @ [W 4 a 0]" and "translate (kick dev s d) = translate s"
  by (simp add: kick_def notify_addr_def cap_get_def cfg_get_def Let_def split_def)

text \<open>The status register goes through reset, acknowledge, driver, features OK and driver OK.\<close>

lemma cfg_or_status:
  assumes "reads_back dev 1 (cfg + 20)" "last_write (hist s) 1 (cfg + 20) = Some v" "take_bit 8 v = v"
  shows "cfg_or dev s cfg device_status b = wr 1 (fst (rd dev 1 s (cfg + 20))) (cfg + 20) (v OR b)"
proof -
  have "snd (rd dev 1 s (cfg + 20)) = v" by (rule rd_reads_back [OF assms(1,2)]) (simp add: assms(3))
  then show ?thesis by (simp add: cfg_or_def cfg_get_def cfg_put_def Let_def split_def)
qed

lemma negotiate_written:
  assumes "reads_back dev 1 (cfg + 20)" "steady dev 4 (cfg + 4) f"
  shows "written (negotiate dev s cfg) = written s @ [W 1 (cfg + 20) 0, W 1 (cfg + 20) 1, W 1 (cfg + 20) 3,
      W 4 (cfg + 12) (take_bit 32 f), W 1 (cfg + 20) 11, W 2 (cfg + 22) 0]"
    and "last_write (hist (negotiate dev s cfg)) 1 (cfg + 20) = Some 11"
  by (simp_all add: negotiate_def cfg_or_status [OF assms(1)] cfg_put_def cfg_get_def Let_def split_def snd_rd_steady [OF assms(2)]
      del: One_nat_def)

lemma go_live_written:
  assumes "reads_back dev 1 (cfg + 20)" "last_write (hist s) 1 (cfg + 20) = Some 11"
  shows "written (go_live dev s cfg) = written s @ [W 2 (cfg + 28) 1, W 1 (cfg + 20) 15]"
  by (simp add: go_live_def cfg_or_status [OF assms(1)] cfg_put_def Let_def assms(2) del: One_nat_def)

lemma snd_queue_size: "steady dev 2 (cfg + 24) q \<Longrightarrow> snd (cfg_get dev s cfg queue_size) = q"
  by (simp add: cfg_get_def snd_rd_steady)

lemma bus_znalloc [simp]: "written (fst (znalloc s n)) = written s" "hist (fst (znalloc s n)) = hist s"
  by (simp_all add: znalloc_def Let_def split_def written_def)

end
