(* ===== verification/BlockDev.thy ===== *)
theory BlockDev
  imports Virtio MapList
begin

unbundle bit_operations_syntax

text \<open>
  The block devices of src/src/virtioblk.c. The file has the same three functions three times,
  for the boot disk, the Minix disk and the ext4 disk; the model has each once, over the
  device structure, and the three instances. The lemmas give the exact accesses of a request,
  say what the polling loop waits for, and that the interrupt handler ends.
\<close>

section \<open>Initialisation\<close>

definition give_page ::
  "device \<Rightarrow> 'a kernel_scheme \<Rightarrow> u64 \<Rightarrow> virtio_pci_common_cfg \<Rightarrow> string \<Rightarrow> 'a kernel_scheme \<times> u64" where
  "give_page dev s cfg f msg =
     (let (s, virt) = znalloc s 1; s = cfg_put s cfg f (translate s virt); (s, _) = cfg_get dev s cfg f
      in (say msg s, virt))"

definition blk_init ::
  "device \<Rightarrow> string \<Rightarrow> 'a kernel_scheme \<Rightarrow> virtio_config_loc \<Rightarrow> 'a kernel_scheme \<times> virtio_config_loc" where
  "blk_init dev tag s d =
     (let cfg = common_cfg d;
          s = cfg_put s cfg device_status 0;
          s = cfg_put s cfg device_status 1;
          s = cfg_or dev s cfg device_status 2;
          (s, features) = cfg_get dev s cfg device_feature;
          s = say (tag @ '': Device Feature Set'') s;
          s = cfg_put s cfg driver_feature features;
          s = say (tag @ '': Driver Feature Set Returned'') s;
          s = cfg_or dev s cfg device_status 8;
          s = cfg_put s cfg queue_select 0;
          (s, qsize) = cfg_get dev s cfg queue_size;
          (s, dt) = give_page dev s cfg queue_desc (tag @ '': Gave queue_desc'');
          (s, dr) = give_page dev s cfg queue_driver (tag @ '': Gave queue_driver'');
          (s, du) = give_page dev s cfg queue_device (tag @ '': Gave queue_device'');
          s = cfg_put s cfg queue_enable 1;
          s = cfg_or dev s cfg device_status 4;
          (s, _) = cfg_get dev s cfg device_status;
          s = say (tag @ '': Device Live Status'') s
      in (s, d\<lparr>desc_table := dt, driver_ring := dr, device_ring := du, enabled := True\<rparr>))"

definition virtio_blk_device_init :: "device \<Rightarrow> 'a os_scheme \<Rightarrow> 'a os_scheme" where
  "virtio_blk_device_init dev s =
     (let (s, d) = blk_init dev ''BLK'' s (pci_blk_device s) in s\<lparr>pci_blk_device := d\<rparr>)"

definition minix_blk_device_init :: "device \<Rightarrow> 'a os_scheme \<Rightarrow> 'a os_scheme" where
  "minix_blk_device_init dev s =
     (let (s, d) = blk_init dev ''MINIX'' s (minix_blk_device s) in s\<lparr>minix_blk_device := d\<rparr>)"

definition ext4_blk_device_init :: "device \<Rightarrow> 'a os_scheme \<Rightarrow> 'a os_scheme" where
  "ext4_blk_device_init dev s =
     (let (s, d) = blk_init dev ''EXT4'' s (ext4_blk_device s) in s\<lparr>ext4_blk_device := d\<rparr>)"

section \<open>Requests\<close>

text \<open>
  The request structure: \<open>hdr.type\<close> at 0, \<open>hdr.sector\<close> at 8, \<open>data\<close> at 16, \<open>status\<close> at 24 and
  \<open>head\<close> at 26, 32 bytes in all. \<open>blk_size\<close> is at 20 in the device's configuration.
\<close>

definition fill_request ::
  "'a world_scheme \<Rightarrow> u64 \<Rightarrow> u64 \<Rightarrow> u64 \<Rightarrow> u64 \<Rightarrow> u32 \<Rightarrow> 'a world_scheme" where
  "fill_request s rq sector buff hdr_desc rw =
     (let s = wr 8 s (rq + 8) sector;
          s = (if rw = 0 then wr 2 (wr 8 (wr 4 s rq 0) (rq + 16) buff) (rq + 26) hdr_desc
               else wr 8 (wr 4 s rq 1) (rq + 16) buff)
      in wr 1 s (rq + 24) 99)"

text \<open>\<open>rq->data\<close> is read back from the request for its translation.\<close>

definition chain_request ::
  "device \<Rightarrow> 'a kernel_scheme \<Rightarrow> u64 \<Rightarrow> u64 \<Rightarrow> u64 \<Rightarrow> u64 \<Rightarrow> u64 \<Rightarrow> u64 \<Rightarrow> u32 \<Rightarrow> 'a kernel_scheme" where
  "chain_request dev s dt rq h d t n rw =
     (let s = put_desc s dt h (translate s rq) 16 VIRTQ_DESC_F_NEXT d;
          (s, data) = rd dev 8 s (rq + 16);
          s = put_desc s dt d (translate s data) n
                (if rw = 0 then VIRTQ_DESC_F_NEXT OR VIRTQ_DESC_F_WRITE else VIRTQ_DESC_F_NEXT) t
      in put_desc s dt t (translate s (rq + 24)) 1 VIRTQ_DESC_F_WRITE 0)"

text \<open>The polling loop of a read: it goes on while the device's index equals the driver's \<open>at_idx\<close>.\<close>

partial_function (option) blk_poll :: "device \<Rightarrow> 'a world_scheme \<Rightarrow> u64 \<Rightarrow> u16 \<Rightarrow> 'a world_scheme option" where
  "blk_poll dev s ring i =
     (let (s, v) = rd dev 2 s (used_idx ring) in if ucast v = i then blk_poll dev s ring i else Some s)"

text \<open>
  Descriptor number \<open>(at_idx + k) % (queue_size - 1)\<close>, computed in int and stored in 16 bits;
  a queue of size 1 divides by zero.
\<close>

definition desc_no :: "u16 \<Rightarrow> u64 \<Rightarrow> nat \<Rightarrow> u16" where
  "desc_no i q k = of_int ((int (unat i) + int k) mod (int (unat q) - 1))"

definition blk_desc :: "device \<Rightarrow> 'a world_scheme \<Rightarrow> virtio_config_loc \<Rightarrow> nat \<Rightarrow> 'a world_scheme \<times> u16 option" where
  "blk_desc dev s d k =
     (let (s, q) = cfg_get dev s (common_cfg d) queue_size
      in (s, if int (unat q) - 1 = 0 then None else Some (desc_no (at_idx d) q k)))"

definition blk_rw ::
  "device \<Rightarrow> ('a kernel_scheme \<Rightarrow> ('a kernel_scheme \<times> u64) option) \<Rightarrow> 'a kernel_scheme \<Rightarrow> virtio_config_loc
     \<Rightarrow> u64 \<Rightarrow> u64 \<Rightarrow> u64 \<Rightarrow> u32 \<Rightarrow> ('a kernel_scheme, virtio_config_loc \<times> bool) outcome" where
  "blk_rw dev alloc s d buff byte_start byte_end rw =
     (let (s, h) = blk_desc dev s d 0; (s, b) = blk_desc dev s d 1; (s, t) = blk_desc dev s d 2 in
      case (h, b, t) of
        (Some hdr_desc, Some data_desc, Some status_desc) \<Rightarrow>
          let d = d\<lparr>at_idx := at_idx d + 3\<rparr> in
          (case alloc s of
             None \<Rightarrow> Hang
           | Some (s, rq) \<Rightarrow>
               let (s, blk_size) = rd dev 4 s (t4 d + 20) in
               if blk_size = 0 then Undef
               else
                 let s = fill_request s rq (byte_start div blk_size) buff (ucast hdr_desc) rw;
                     s = chain_request dev s (desc_table d) rq (ucast hdr_desc) (ucast data_desc)
                           (ucast status_desc) (byte_end - byte_start) rw;
                     (s, q) = cfg_get dev s (common_cfg d) queue_size
                 in (case ring_offer dev s (driver_ring d) q (ucast hdr_desc) of
                       None \<Rightarrow> Undef
                     | Some s \<Rightarrow>
                         let s = kick dev s d in
                         if rw = 0 then
                           (case blk_poll dev s (device_ring d) (at_idx d) of
                              None \<Rightarrow> Hang
                            | Some s \<Rightarrow> Ret s (d, True))
                         else Ret s (d, True)))
      | _ \<Rightarrow> Undef)"

definition virtio_disk_rw ::
  "device \<Rightarrow> 'a os_scheme \<Rightarrow> u64 \<Rightarrow> u64 \<Rightarrow> u64 \<Rightarrow> u32 \<Rightarrow> ('a os_scheme, bool) outcome" where
  "virtio_disk_rw dev s buff byte_start byte_end rw =
     and_then (blk_rw dev (\<lambda>s. kzalloc s 32) s (pci_blk_device s) buff byte_start byte_end rw)
       (\<lambda>s (d, ok). Ret (s\<lparr>pci_blk_device := d\<rparr>) ok)"

definition minix_disk_rw ::
  "device \<Rightarrow> 'a os_scheme \<Rightarrow> u64 \<Rightarrow> u64 \<Rightarrow> u64 \<Rightarrow> u32 \<Rightarrow> ('a os_scheme, bool) outcome" where
  "minix_disk_rw dev s buff byte_start byte_end rw =
     and_then (blk_rw dev (\<lambda>s. Some (znalloc s 1)) s (minix_blk_device s) buff byte_start byte_end rw)
       (\<lambda>s (d, ok). Ret (s\<lparr>minix_blk_device := d\<rparr>) ok)"

definition ext4_disk_rw ::
  "device \<Rightarrow> 'a os_scheme \<Rightarrow> u64 \<Rightarrow> u64 \<Rightarrow> u64 \<Rightarrow> u32 \<Rightarrow> ('a os_scheme, bool) outcome" where
  "ext4_disk_rw dev s buff byte_start byte_end rw =
     and_then (blk_rw dev (\<lambda>s. Some (znalloc s 1)) s (ext4_blk_device s) buff byte_start byte_end rw)
       (\<lambda>s (d, ok). Ret (s\<lparr>ext4_blk_device := d\<rparr>) ok)"

section \<open>The interrupt handler\<close>

text \<open>\<open>isr_cap->queue_interrupt = 0\<close>: bit 0 of a 32-bit word is cleared.\<close>

definition clear_queue_interrupt :: "device \<Rightarrow> 'a world_scheme \<Rightarrow> u64 \<Rightarrow> 'a world_scheme" where
  "clear_queue_interrupt dev s a = (let (s, v) = rd dev 4 s a in wr 4 s a (v AND NOT 1))"

text \<open>\<open>None\<close> is a loop that never ends or a division by a queue size of zero.\<close>

partial_function (option) blk_collect ::
  "device \<Rightarrow> 'a world_scheme \<Rightarrow> virtio_config_loc \<Rightarrow> ('a world_scheme \<times> virtio_config_loc) option" where
  "blk_collect dev s d =
     (let (s, v) = rd dev 2 s (used_idx (device_ring d)) in
      if at_idx d \<noteq> ucast v then
        let (s, q) = cfg_get dev s (common_cfg d) queue_size in
        if q = 0 then None
        else let (s, _) = rd dev 4 s (used_id (device_ring d) (ucast (at_idx d) mod q))
             in blk_collect dev s (d\<lparr>at_idx := at_idx d + 1\<rparr>)
      else Some (s, d))"

definition blk_isr ::
  "device \<Rightarrow> 'a world_scheme \<Rightarrow> virtio_config_loc \<Rightarrow> ('a world_scheme \<times> virtio_config_loc) option" where
  "blk_isr dev s d = blk_collect dev (clear_queue_interrupt dev s (isr_cap d)) d"

definition virtio_disk_isr :: "device \<Rightarrow> 'a os_scheme \<Rightarrow> 'a os_scheme option" where
  "virtio_disk_isr dev s = map_option (\<lambda>(s, d). s\<lparr>pci_blk_device := d\<rparr>) (blk_isr dev s (pci_blk_device s))"

definition minix_disk_isr :: "device \<Rightarrow> 'a os_scheme \<Rightarrow> 'a os_scheme option" where
  "minix_disk_isr dev s = map_option (\<lambda>(s, d). s\<lparr>minix_blk_device := d\<rparr>) (blk_isr dev s (minix_blk_device s))"

definition ext4_disk_isr :: "device \<Rightarrow> 'a os_scheme \<Rightarrow> 'a os_scheme option" where
  "ext4_disk_isr dev s = map_option (\<lambda>(s, d). s\<lparr>ext4_blk_device := d\<rparr>) (blk_isr dev s (ext4_blk_device s))"

section \<open>What a request tells the device\<close>

text \<open>The request and the driver's ring lie apart from the descriptors.\<close>

definition blk_layout :: "virtio_config_loc \<Rightarrow> u64 \<Rightarrow> bool" where
  "blk_layout d rq \<longleftrightarrow> avail_idx (driver_ring d) \<noteq> rq + 26
     \<and> (\<forall>i::u16. rq + 16 \<noteq> desc_addr (desc_table d) (ucast i)
          \<and> avail_idx (driver_ring d) \<noteq> desc_flags (desc_table d) (ucast i)
          \<and> avail_idx (driver_ring d) \<noteq> desc_next (desc_table d) (ucast i))"

lemma desc_no_less:
  assumes "4 \<le> unat q" "unat q < 2 ^ 16"
  shows "uint (desc_no i q k) = (int (unat i) + int k) mod (int (unat q) - 1)"
proof -
  define m x where "m = int (unat q) - 1" and "x = (int (unat i) + int k) mod m"
  have "int (unat q) < int (2 ^ 16)" using assms(2) by (rule of_nat_less_iff [THEN iffD2])
  then have m: "3 \<le> m" "m < 2 ^ 16" using assms(1) unfolding m_def by (simp_all del: of_nat_unat)
  then have x: "0 \<le> x" "x < m" unfolding x_def by simp_all
  with m have "take_bit 16 x = x" by (simp add: take_bit_int_eq_self)
  with x show ?thesis unfolding desc_no_def m_def [symmetric] x_def [symmetric] by (simp add: unsigned_of_int)
qed

lemma mod_step_neq:
  fixes a b n :: int
  assumes "0 < b" "b < n"
  shows "(a + b) mod n \<noteq> a mod n"
proof
  assume "(a + b) mod n = a mod n"
  then have "n dvd b" by (simp add: mod_eq_dvd_iff)
  with assms show False by (simp add: zdvd_not_zless)
qed

lemma mods_distinct:
  fixes a n :: int
  assumes "3 \<le> n"
  shows "a mod n \<noteq> (a + 1) mod n" "(a + 1) mod n \<noteq> (a + 2) mod n" "a mod n \<noteq> (a + 2) mod n"
  using mod_step_neq [of 1 n a] mod_step_neq [of 1 n "a + 1"] mod_step_neq [of 2 n a] assms by (simp_all add: add.assoc)

lemma desc_no_distinct:
  assumes "4 \<le> unat q" "unat q < 2 ^ 16"
  shows "distinct [desc_no i q 0, desc_no i q 1, desc_no i q 2]"
proof -
  have "3 \<le> int (unat q) - 1" using assms(1) by linarith
  note d = mods_distinct [OF this, of "int (unat i)"]
  have "uint (desc_no i q 0) \<noteq> uint (desc_no i q 1)" "uint (desc_no i q 1) \<noteq> uint (desc_no i q 2)"
    "uint (desc_no i q 0) \<noteq> uint (desc_no i q 2)"
    unfolding desc_no_less [OF assms] using d by (simp_all only: int_ops add_0_right simp_thms)
  then show ?thesis by auto
qed

lemma blk_desc_steady:
  assumes "steady dev 2 (common_cfg d + 24) q" "4 \<le> unat q"
  shows "blk_desc dev s d k = (fst (cfg_get dev s (common_cfg d) queue_size), Some (desc_no (at_idx d) q k))"
proof -
  have "int (unat q) - 1 \<noteq> 0" using assms(2) by linarith
  then show ?thesis by (simp only: blk_desc_def cfg_get_def Let_def split_def cfg_layout.simps fst_conv snd_conv
        snd_rd_steady [OF assms(1)] if_False simp_thms)
qed

lemma fill_request_written:
  "written (fill_request s rq sector buff (ucast (h :: u16)) rw) = written s @ W 8 (rq + 8) sector
     # (if rw = 0 then [W 4 rq 0, W 8 (rq + 16) buff, W 2 (rq + 26) (ucast h)] else [W 4 rq 1, W 8 (rq + 16) buff])
     @ [W 1 (rq + 24) 99]"
  by (simp add: fill_request_def Let_def)

lemma fill_request_frame [simp]:
  "translate (fill_request s rq sector buff h rw) = translate s"
  "last_write (hist (fill_request s rq sector buff h rw)) 8 (rq + 16) = Some buff"
  "x \<noteq> rq + 26 \<Longrightarrow> last_write (hist (fill_request s rq sector buff h rw)) 2 x = last_write (hist s) 2 x"
  by (simp_all add: fill_request_def Let_def)

lemma chain_request_written:
  assumes "reads_back dev 8 (rq + 16)" "last_write (hist s) 8 (rq + 16) = Some buff" "rq + 16 \<noteq> desc_addr dt (ucast h)"
  shows "written (chain_request dev s dt rq (ucast (h :: u16)) (ucast (b :: u16)) (ucast (t :: u16)) n rw) = written s @
     [W 8 (desc_addr dt (ucast h)) (translate s rq), W 4 (desc_len dt (ucast h)) 16,
      W 2 (desc_flags dt (ucast h)) 1, W 2 (desc_next dt (ucast h)) (ucast b),
      W 8 (desc_addr dt (ucast b)) (translate s buff), W 4 (desc_len dt (ucast b)) (take_bit 32 n),
      W 2 (desc_flags dt (ucast b)) (if rw = 0 then 3 else 1), W 2 (desc_next dt (ucast b)) (ucast t),
      W 8 (desc_addr dt (ucast t)) (translate s (rq + 24)), W 4 (desc_len dt (ucast t)) 1,
      W 2 (desc_flags dt (ucast t)) 2, W 2 (desc_next dt (ucast t)) 0]"
proof -
  have "snd (rd dev 8 (put_desc s dt (ucast h) (translate s rq) 16 1 (ucast b)) (rq + 16)) = buff"
    by (rule rd_reads_back [OF assms(1)]) (use assms(2,3) in \<open>simp_all add: last_write_put_desc8\<close>)
  then show ?thesis by (simp add: chain_request_def Let_def split_def)
qed

lemma chain_request_frame [simp]:
  "translate (chain_request dev s dt rq h b t n rw) = translate s"
  "(\<And>i. i \<in> {h, b, t} \<Longrightarrow> x \<noteq> desc_flags dt i \<and> x \<noteq> desc_next dt i)
     \<Longrightarrow> last_write (hist (chain_request dev s dt rq h b t n rw)) 2 x = last_write (hist s) 2 x"
  by (simp_all add: chain_request_def Let_def split_def last_write_put_desc)

text \<open>The polling loop looks once when the device's index differs from \<open>at_idx\<close>.\<close>

lemma blk_poll_once:
  assumes "\<And>h. ucast (take_bit 16 (dev h 2 (used_idx ring))) \<noteq> i"
  shows "blk_poll dev s ring i = Some (fst (rd dev 2 s (used_idx ring)))"
  using assms by (simp add: blk_poll.simps rd_eq)

text \<open>Everything a request tells the device; the allocator gives \<open>rq\<close> whatever the bus has seen.\<close>

lemma blk_rw_request:
  assumes q: "steady dev 2 (common_cfg d + 24) q" "4 \<le> unat q" "unat q < 2 ^ 16"
    and b: "steady dev 4 (t4 d + 20) b" "b \<noteq> 0"
    and alloc: "\<And>t. world.more t = world.more s \<Longrightarrow> \<exists>t'. alloc t = Some (t', rq) \<and> hist t' = hist t"
    and mem: "reads_back dev 8 (rq + 16)" "reads_back dev 2 (avail_idx (driver_ring d))" "blk_layout d rq"
    and idx: "last_write (hist s) 2 (avail_idx (driver_ring d)) = Some i" "take_bit 16 i = i"
    and used: "\<And>h. ucast (take_bit 16 (dev h 2 (used_idx (device_ring d)))) \<noteq> at_idx d + 3"
  shows "\<exists>s' a. blk_rw dev alloc s d buff byte_start byte_end rw = Ret s' (d\<lparr>at_idx := at_idx d + 3\<rparr>, True)
    \<and> distinct [desc_no (at_idx d) q 0, desc_no (at_idx d) q 1, desc_no (at_idx d) q 2]
    \<and> (let h = ucast (desc_no (at_idx d) q 0); b' = ucast (desc_no (at_idx d) q 1); t = ucast (desc_no (at_idx d) q 2);
           dt = desc_table d
       in written s' = written s
         @ W 8 (rq + 8) (byte_start div b)
         # (if rw = 0 then [W 4 rq 0, W 8 (rq + 16) buff, W 2 (rq + 26) h] else [W 4 rq 1, W 8 (rq + 16) buff])
         @ [W 1 (rq + 24) 99,
            W 8 (desc_addr dt h) (translate s' rq), W 4 (desc_len dt h) 16, W 2 (desc_flags dt h) 1, W 2 (desc_next dt h) b',
            W 8 (desc_addr dt b') (translate s' buff), W 4 (desc_len dt b') (take_bit 32 (byte_end - byte_start)),
            W 2 (desc_flags dt b') (if rw = 0 then 3 else 1), W 2 (desc_next dt b') t,
            W 8 (desc_addr dt t) (translate s' (rq + 24)), W 4 (desc_len dt t) 1, W 2 (desc_flags dt t) 2, W 2 (desc_next dt t) 0,
            W 2 (avail_ring (driver_ring d) (i mod q)) h, W 2 (avail_idx (driver_ring d)) (take_bit 16 (i + 1)),
            W 4 a 0])"
proof -
  let ?n = "desc_no (at_idx d) q" and ?d = "d\<lparr>at_idx := at_idx d + 3\<rparr>"
  let ?g = "\<lambda>s. fst (cfg_get dev s (common_cfg d) queue_size)"
  define s1 where "s1 = ?g (?g (?g s))"
  have "world.more s1 = world.more s" by (simp add: s1_def cfg_get_def more_rd)
  then obtain s2 where s2: "alloc s1 = Some (s2, rq)" "hist s2 = hist s1" using alloc by blast
  define s2' where "s2' = fst (rd dev 4 s2 (t4 d + 20))"
  define s3 where "s3 = fill_request s2' rq (byte_start div b) buff (ucast (?n 0)) rw"
  define s4 where "s4 = chain_request dev s3 (desc_table d) rq (ucast (?n 0)) (ucast (?n 1)) (ucast (?n 2)) (byte_end - byte_start) rw"
  define s4' where "s4' = ?g s4"
  have w2: "written s2 = written s" using s2(2) unfolding written_def by (metis written_def s1_def cfg_get_simps(1))
  have lay: "rq + 16 \<noteq> desc_addr (desc_table d) (ucast (j :: u16))" "avail_idx (driver_ring d) \<noteq> rq + 26"
    "avail_idx (driver_ring d) \<noteq> desc_flags (desc_table d) (ucast j)" "avail_idx (driver_ring d) \<noteq> desc_next (desc_table d) (ucast j)" for j
    using mem(3) by (simp_all add: blk_layout_def)
  have l3: "last_write (hist s3) 8 (rq + 16) = Some buff" by (simp add: s3_def)
  have i4: "last_write (hist s4') 2 (avail_idx (driver_ring d)) = Some i"
  proof -
    have "last_write (hist s4) 2 (avail_idx (driver_ring d)) = last_write (hist s3) 2 (avail_idx (driver_ring d))"
      unfolding s4_def by (rule chain_request_frame(2)) (use lay in auto)
    also have "\<dots> = last_write (hist s2) 2 (avail_idx (driver_ring d))" by (simp add: s3_def s2'_def lay(2))
    also have "\<dots> = Some i" unfolding s2(2) by (simp add: s1_def idx(1))
    finally show ?thesis by (simp add: s4'_def)
  qed
  obtain s5 where s5: "ring_offer dev s4' (driver_ring d) q (ucast (?n 0)) = Some s5"
    "written s5 = written s4' @ [W 2 (avail_ring (driver_ring d) (i mod q)) (ucast (?n 0)), W 2 (avail_idx (driver_ring d)) (take_bit 16 (i + 1))]"
    "translate s5 = translate s4'"
    by (rule ring_offer_written [OF _ q(3) mem(2) i4 idx(2)]) (use q(2) in \<open>simp add: word_gt_0, force\<close>)
  obtain a where a: "written (kick dev s5 ?d) = written s5 @ [W 4 a 0]" "translate (kick dev s5 ?d) = translate s5"
    by (rule kick_written)
  define s6 where "s6 = (if rw = 0 then fst (rd dev 2 (kick dev s5 ?d) (used_idx (device_ring d))) else kick dev s5 ?d)"
  have qq: "cfg_get dev s4 (common_cfg d) queue_size = (s4', q)"
    by (simp add: cfg_get_def prod_eq_iff snd_rd_steady [OF q(1)] s4'_def)
  have bb: "rd dev 4 s2 (t4 d + 20) = (s2', b)"
    by (simp add: prod_eq_iff snd_rd_steady [OF b(1)] s2'_def)
  have dd: "t4 ?d = t4 d" "desc_table ?d = desc_table d" "common_cfg ?d = common_cfg d" "driver_ring ?d = driver_ring d"
    "device_ring ?d = device_ring d" "at_idx ?d = at_idx d + 3" by simp_all
  have ret: "(if P then Ret x v else Ret y v) = Ret (if P then x else y) v" for P and x y :: "'a kernel_scheme" and v :: "virtio_config_loc \<times> bool"
    by simp
  have "blk_rw dev alloc s d buff byte_start byte_end rw = Ret s6 (?d, True)"
    by (simp only: blk_rw_def Let_def blk_desc_steady [OF q(1,2)] prod.case option.case s1_def [symmetric] s2(1) bb b(2)
        dd ret s3_def [symmetric] s4_def [symmetric] qq s5(1) blk_poll_once [of dev, OF used] s6_def
        simp_thms if_True if_False)
  moreover have "translate s6 = translate s3" using a(2) s5(3) by (simp add: s6_def s4_def s4'_def)
  moreover have "written s6 = written s4 @ [W 2 (avail_ring (driver_ring d) (i mod q)) (ucast (?n 0)), W 2 (avail_idx (driver_ring d)) (take_bit 16 (i + 1)), W 4 a 0]"
    using a(1) s5(2) by (simp add: s6_def s4'_def)
  ultimately show ?thesis
    using desc_no_distinct [OF q(2,3)] w2 chain_request_written [OF mem(1) l3 lay(1)]
    by (simp add: s4_def s3_def s2'_def fill_request_written Let_def)
qed


text \<open>A disk with a queue of eight, blocks of 512 bytes and memory; it completes nothing.\<close>

definition demo_disk :: device where
  "demo_disk h n a =
     (if n = 2 \<and> a = 0x40000018 then 8 else if n = 4 \<and> a = 0x40002014 then 512
      else if n = 2 \<and> a = 0x3002 then 0 else case last_write h n a of None \<Rightarrow> 0 | Some v \<Rightarrow> v)"

definition demo_loc :: virtio_config_loc where
  "demo_loc = \<lparr>common_cfg = 0x40000000, notify_cap = 0x30000000, isr_cap = 0x40001000, t4 = 0x40002000,
     desc_table = 0x1000, driver_ring = 0x2000, device_ring = 0x3000, at_idx = 0, enabled = True, baraddr = 0x40000000\<rparr>"

lemma low_nibble: "unat (a + 16 * x) mod 16 = unat (a :: u64) mod 16"
proof -
  have "unat (a + 16 * x) mod 16 = ((unat a + 16 * unat x mod 2 ^ 64) mod 2 ^ 64) mod 16" by (simp add: unat_word_ariths)
  also have "\<dots> = (unat a + 16 * unat x mod 2 ^ 64) mod 16" by (rule mod_mod_cancel) simp
  also have "\<dots> = (unat a + 16 * unat x mod 2 ^ 64 mod 16) mod 16" by (simp add: mod_simps)
  also have "16 * unat x mod 2 ^ 64 mod 16 = 16 * unat x mod 16" by (rule mod_mod_cancel) simp
  finally show ?thesis by simp
qed

lemma off_grid: "unat b mod 16 \<noteq> unat (a :: u64) mod 16 \<Longrightarrow> b \<noteq> a + 16 * x"
  using low_nibble by metis

lemma demo_blk_layout: "blk_layout demo_loc 0x4008"
proof -
  have "0x4008 + 16 \<noteq> 0x1000 + 16 * x" "0x2000 + 2 \<noteq> (0x1000 + 12) + 16 * x" "0x2000 + 2 \<noteq> (0x1000 + 14) + 16 * x" for x :: u64
    by (rule off_grid; simp)+
  then show ?thesis
    by (simp only: blk_layout_def demo_loc_def virtio_config_loc.simps avail_idx_def desc_addr_def desc_flags_def desc_next_def
        ac_simps) simp
qed


definition demo_ipt :: VirtioIptDevice where
  "demo_ipt = \<lparr>common = 0x40000000, isr = 0x40001000, notify = 0x30000000, cfg4 = 0x40002000, qdesc = 0x1000,
     qdriver = 0x2000, qdevice = 0x3000, qnotmult = 4, qnotaddr = 0x40003000, drvidx = 0, devidx = 0, irq = 0\<rparr>"

definition demo_os :: os where
  "demo_os = (let k = demo_kernel demo_map_heap in
     \<lparr>hist = [], mm = mm k, kernel_mmu_table = kernel_mmu_table k, vm = vm k, kernel_heap_v_addr = kernel_heap_v_addr k,
      kmalloc_head = kmalloc_head k, kmalloc_lock = kmalloc_lock k, klog = [],
      bar_address_free = 0x40000000, dev_count = 0, subordinate = 1, d_list_head = [],
      pci_entropy_device = demo_loc, pci_blk_device = demo_loc, minix_blk_device = demo_loc, ext4_blk_device = demo_loc,
      gdev = VirtioIptDevice.extend demo_ipt (Virt_GPU_Device.fields 0), ipt = demo_ipt, keyboard = demo_ipt,
      ipt_ringbuf = None, screen_buff = \<lparr>gpu = 0, width = 640, height = 480, pixels = 0x81000000\<rparr>\<rparr>)"

section \<open>Polling and the interrupt handler\<close>

lemma blk_poll_hangs:
  assumes "steady dev 2 (used_idx ring) u" "ucast u = i"
  shows "blk_poll dev s ring i = None"
proof (rule ccontr)
  assume "blk_poll dev s ring i \<noteq> None"
  then obtain s' where p: "blk_poll dev s ring i = Some s'" by blast
  have "\<not> (steady dev 2 (used_idx ring) u \<and> ucast u = i)"
    by (rule blk_poll.raw_induct [where P = "\<lambda>dev s ring i s'. \<not> (steady dev 2 (used_idx ring) u \<and> ucast u = i)", OF _ p])
      (auto simp: Let_def split_def snd_rd_steady split: if_splits)
  then show False using assms by simp
qed

lemma ring_offer_total: "q \<noteq> 0 \<Longrightarrow> \<exists>s'. ring_offer dev s drv q head = Some s'"
  by (simp add: ring_offer_def Let_def split_def)

lemma blk_rw_read:
  assumes q: "steady dev 2 (common_cfg d + 24) q" "4 \<le> unat q" and b: "steady dev 4 (t4 d + 20) b" "b \<noteq> 0"
    and u: "steady dev 2 (used_idx (device_ring d)) u" and alloc: "\<And>s. \<exists>s' rq. alloc s = Some (s', rq)"
  shows "ucast u \<noteq> at_idx d + 3 \<Longrightarrow> \<exists>s'. blk_rw dev alloc s d buff x y 0 = Ret s' (d\<lparr>at_idx := at_idx d + 3\<rparr>, True)"
    and "ucast u = at_idx d + 3 \<Longrightarrow> blk_rw dev alloc s d buff x y 0 = Hang"
proof -
  let ?g = "\<lambda>s. fst (cfg_get dev s (common_cfg d) queue_size)"
  obtain s2 rq where s2: "alloc (?g (?g (?g s))) = Some (s2, rq)" using alloc by blast
  have q0: "q \<noteq> 0" using q(2) by auto
  have sn: "snd (rd dev 4 s' (t4 d + 20)) = b" "snd (cfg_get dev s' (common_cfg d) queue_size) = q" for s'
    by (simp_all add: snd_rd_steady [OF b(1)] cfg_get_def snd_rd_steady [OF q(1)])
  have p: "blk_poll dev s' (device_ring d) (at_idx d + 3) = (if ucast u = at_idx d + 3 then None else Some (fst (rd dev 2 s' (used_idx (device_ring d)))))" for s'
    using blk_poll_hangs [OF u] blk_poll_once [of dev "device_ring d" "at_idx d + 3"] u by (auto simp: steady_def)
  define off where "off s' head = the (ring_offer dev s' (driver_ring d) q head)" for s' :: "'a kernel_scheme" and head
  have o: "ring_offer dev s' (driver_ring d) q head = Some (off s' head)" for s' :: "'a kernel_scheme" and head
    using ring_offer_total [OF q0, of dev s' "driver_ring d" head] by (auto simp: off_def)
  show "ucast u \<noteq> at_idx d + 3 \<Longrightarrow> \<exists>s'. blk_rw dev alloc s d buff x y 0 = Ret s' (d\<lparr>at_idx := at_idx d + 3\<rparr>, True)"
    "ucast u = at_idx d + 3 \<Longrightarrow> blk_rw dev alloc s d buff x y 0 = Hang"
    by (simp_all add: blk_rw_def blk_desc_steady [OF q] s2 Let_def split_def sn b(2) o p)
qed

text \<open>
  A read does not wait for the disk. The polling loop compares the device's index, which
  counts finished requests, with \<open>at_idx\<close>, which counts descriptors: with a disk that never
  finishes anything the read reports success, and with one whose index equals \<open>at_idx + 3\<close>
  (as after the third request since the start) it spins forever.
\<close>

theorem read_does_not_wait:
  assumes "steady dev 2 (common_cfg (minix_blk_device s) + 24) q" "4 \<le> unat q"
    and "steady dev 4 (t4 (minix_blk_device s) + 20) b" "b \<noteq> 0"
    and "steady dev 2 (used_idx (device_ring (minix_blk_device s))) u"
  shows "(\<exists>s'. minix_disk_rw dev s buff byte_start byte_end 0 = Ret s' True) = (ucast u \<noteq> at_idx (minix_blk_device s) + 3)
    \<and> (minix_disk_rw dev s buff byte_start byte_end 0 = Hang) = (ucast u = at_idx (minix_blk_device s) + 3)"
proof -
  have al: "\<exists>s' rq. Some (znalloc s 1) = Some (s', rq)" for s :: "'a os_scheme" by (metis surj_pair)
  note r = blk_rw_read [OF assms, of "\<lambda>s. Some (znalloc s 1)" s buff byte_start byte_end, OF al]
  have "ucast u \<noteq> at_idx (minix_blk_device s) + 3 \<Longrightarrow> \<exists>s'. minix_disk_rw dev s buff byte_start byte_end 0 = Ret s' True"
    using r(1) by (auto simp: minix_disk_rw_def)
  moreover have "ucast u = at_idx (minix_blk_device s) + 3 \<Longrightarrow> minix_disk_rw dev s buff byte_start byte_end 0 = Hang"
    using r(2) by (simp add: minix_disk_rw_def)
  ultimately show ?thesis by (metis outcome.distinct(3))
qed

lemma read_does_not_wait_witness:
  "\<exists>s'. minix_disk_rw demo_disk demo_os 0x5000 1024 2048 0 = Ret s' True"
proof -
  have st: "steady demo_disk 2 (common_cfg (minix_blk_device demo_os) + 24) 8" "steady demo_disk 4 (t4 (minix_blk_device demo_os) + 20) 512"
    "steady demo_disk 2 (used_idx (device_ring (minix_blk_device demo_os))) 0"
    by (simp_all add: steady_def demo_disk_def demo_loc_def demo_os_def Let_def used_idx_def)
  show ?thesis
    using read_does_not_wait [OF st(1) _ st(2) _ st(3), of "0x5000" 1024 2048] by (simp add: demo_os_def demo_loc_def Let_def)
qed

lemma blk_collect_ends:
  assumes "steady dev 2 (used_idx (device_ring d)) u" "steady dev 2 (common_cfg d + 24) q" "q \<noteq> 0"
  shows "\<exists>s'. blk_collect dev s d = Some (s', d\<lparr>at_idx := ucast u\<rparr>) \<and> written s' = written s"
  using assms
proof (induction "unat (ucast u - at_idx d)" arbitrary: s d)
  case 0
  then have e: "at_idx d = ucast u" by (simp add: unat_eq_0)
  then have "d\<lparr>at_idx := ucast u\<rparr> = d" by (cases d) simp
  moreover have "blk_collect dev s d = Some (fst (rd dev 2 s (used_idx (device_ring d))), d)"
    by (subst blk_collect.simps) (simp only: Let_def split_def snd_rd_steady [OF 0(2)] e simp_thms if_False)
  ultimately show ?case by simp
next
  case (Suc n)
  let ?d = "d\<lparr>at_idx := at_idx d + 1\<rparr>"
  have ne: "at_idx d \<noteq> ucast u" using Suc.hyps(2) by auto
  have "unat (ucast u - at_idx ?d) = unat (ucast u - at_idx d - 1)" by (simp add: diff_diff_eq)
  also have "\<dots> = n" using Suc.hyps(2) ne by (subst unat_minus_one) auto
  finally have n: "n = unat (ucast u - at_idx ?d)" ..
  define s1 where "s1 = fst (rd dev 4 (fst (cfg_get dev (fst (rd dev 2 s (used_idx (device_ring d)))) (common_cfg d) queue_size))
     (used_id (device_ring d) (ucast (at_idx d) mod q)))"
  have "blk_collect dev s d = blk_collect dev s1 ?d"
    using ne Suc.prems(3) by (subst blk_collect.simps)
      (simp add: Let_def split_def snd_rd_steady [OF Suc.prems(1)] snd_rd_steady [OF Suc.prems(2)] cfg_get_def s1_def)
  moreover obtain s' where "blk_collect dev s1 ?d = Some (s', ?d\<lparr>at_idx := ucast u\<rparr>) \<and> written s' = written s1"
    using Suc.hyps(1) [OF n, of s1] Suc.prems by auto
  ultimately show ?case by (simp add: s1_def)
qed

text \<open>
  The interrupt handler of a disk ends whatever the distance between its counter and the
  device's index: it clears the interrupt bit, writes nothing else, and leaves \<open>at_idx\<close> equal to
  the index. Wrap-around of the 16-bit counter is included.
\<close>

theorem disk_isr_ends:
  assumes "steady dev 2 (used_idx (device_ring (pci_blk_device s))) u"
    and "steady dev 2 (common_cfg (pci_blk_device s) + 24) q" "q \<noteq> 0"
    and "steady dev 4 (isr_cap (pci_blk_device s)) i"
  shows "\<exists>s'. virtio_disk_isr dev s = Some s' \<and> pci_blk_device s' = (pci_blk_device s)\<lparr>at_idx := ucast u\<rparr>
    \<and> written s' = written s @ [W 4 (isr_cap (pci_blk_device s)) (take_bit 32 (i AND NOT 1))]"
proof -
  let ?s = "clear_queue_interrupt dev s (isr_cap (pci_blk_device s))"
  have w: "written ?s = written s @ [W 4 (isr_cap (pci_blk_device s)) (take_bit 32 (i AND NOT 1))]"
    by (simp add: clear_queue_interrupt_def Let_def split_def snd_rd_steady [OF assms(4)])
  obtain s' where "blk_collect dev ?s (pci_blk_device s) = Some (s', (pci_blk_device s)\<lparr>at_idx := ucast u\<rparr>)" "written s' = written ?s"
    using blk_collect_ends [OF assms(1-3)] by blast
  then show ?thesis using w by (simp add: virtio_disk_isr_def blk_isr_def written_def)
qed

lemma disk_isr_ends_witness:
  "\<exists>s'. virtio_disk_isr (\<lambda>h n a. if n = 4 \<and> a = 0x40001000 then 1 else demo_disk h n a) (demo_os\<lparr>pci_blk_device := demo_loc\<lparr>at_idx := 3\<rparr>\<rparr>) = Some s' \<and> at_idx (pci_blk_device s') = 0"
proof -
  let ?d = "\<lambda>h n a. if n = 4 \<and> a = 0x40001000 then 1 else demo_disk h n a" and ?s = "demo_os\<lparr>pci_blk_device := demo_loc\<lparr>at_idx := 3\<rparr>\<rparr>"
  have st: "steady ?d 2 (used_idx (device_ring (pci_blk_device ?s))) 0" "steady ?d 2 (common_cfg (pci_blk_device ?s) + 24) 8"
    "steady ?d 4 (isr_cap (pci_blk_device ?s)) 1"
    by (simp_all add: steady_def demo_disk_def demo_loc_def demo_os_def Let_def used_idx_def)
  show ?thesis
    using disk_isr_ends [OF st(1,2) _ st(3)] by auto
qed

end
