(* ===== verification/InputDev.thy ===== *)
theory InputDev
  imports BlockDev
begin

unbundle bit_operations_syntax

text \<open>
  The input devices of src/src/virtio_inp.c: \<open>virtio_input_init\<close> sets up the queue and gives
  the device one event buffer for every descriptor. The device structure is passed as the
  record it points to. The theorem gives everything the device is told.
\<close>

text \<open>An \<open>InputEvent\<close> is \<open>{uint16_t type, uint16_t code, uint32_t value}\<close>.\<close>

record InputEvent =
  ev_type :: u16
  ev_code :: u16
  ev_value :: u32

definition unpack_event :: "u64 \<Rightarrow> InputEvent" where
  "unpack_event w = \<lparr>ev_type = ucast w, ev_code = ucast (drop_bit 16 w), ev_value = ucast (drop_bit 32 w)\<rparr>"

definition pack_fields :: "InputEvent \<Rightarrow> u64" where
  "pack_fields e = ucast (ev_type e) OR push_bit 16 (ucast (ev_code e)) OR push_bit 32 (ucast (ev_value e))"

text \<open>The loop over the descriptors. \<open>None\<close> is a division by a queue size of zero.\<close>

partial_function (option) fill_events ::
  "device \<Rightarrow> 'a kernel_scheme \<Rightarrow> VirtioIptDevice \<Rightarrow> u64 \<Rightarrow> u16 \<Rightarrow> ('a kernel_scheme \<times> VirtioIptDevice) option" where
  "fill_events dev s d evts i =
     (let (s, q) = cfg_get dev s (common d) queue_size in
      if ucast i < q then
        let phys = translate s (evts + 8 * ucast i);
            s = put_desc s (qdesc d) (ucast i) phys 8 VIRTQ_DESC_F_WRITE 0;
            (s, q) = cfg_get dev s (common d) queue_size
        in if q = 0 then None
           else
             let s = wr 2 s (avail_ring (qdriver d) (ucast (drvidx d) mod q)) (ucast i)
             in fill_events dev s (d\<lparr>drvidx := drvidx d + 1\<rparr>) evts (i + 1)
      else Some (s, d))"

definition input_area :: "'a kernel_scheme \<Rightarrow> u64 \<Rightarrow> virtio_pci_common_cfg \<Rightarrow> int \<Rightarrow> 'a kernel_scheme \<times> u64" where
  "input_area s cfg f pages =
     (let (s, virt) = znalloc s pages in (cfg_put s cfg f (translate s virt), virt))"

definition virtio_input_init ::
  "device \<Rightarrow> 'a kernel_scheme \<Rightarrow> VirtioIptDevice \<Rightarrow> ('a kernel_scheme \<times> VirtioIptDevice) option" where
  "virtio_input_init dev s d =
     (let cfg = common d;
          s = negotiate dev s cfg;
          s = cfg_put s cfg queue_size 512;
          (s, _) = cfg_get dev s cfg queue_size;
          (s, dt) = input_area s cfg queue_desc 5;
          (s, dr) = input_area s cfg queue_driver 1;
          (s, du) = input_area s cfg queue_device 3;
          s = go_live dev s cfg;
          d = d\<lparr>qdesc := dt, qdriver := dr, qdevice := du\<rparr>;
          (s, q) = cfg_get dev s cfg queue_size;
          (s, evts) = znalloc s (sint (ucast (ALIGN_UP_POT (q * 8) PAGE_SIZE div PAGE_SIZE) :: u32))
      in case fill_events dev s d evts 0 of
           None \<Rightarrow> None
         | Some (s, d) \<Rightarrow>
             let (s, i) = rd dev 2 s (avail_idx (qdriver d)); (s, q) = cfg_get dev s cfg queue_size
             in Some (wr 2 s (avail_idx (qdriver d)) (i + q), d))"

text \<open>What the device is told about event buffer \<open>k\<close>: one writable descriptor of eight bytes, offered in slot \<open>k\<close>.\<close>

definition event_post :: "(u64 \<Rightarrow> u64) \<Rightarrow> VirtioIptDevice \<Rightarrow> u64 \<Rightarrow> nat \<Rightarrow> io list" where
  "event_post tr d evts k = (let i = of_nat k in
     [W 8 (desc_addr (qdesc d) i) (tr (evts + 8 * i)), W 4 (desc_len (qdesc d) i) 8, W 2 (desc_flags (qdesc d) i) 2,
      W 2 (desc_next (qdesc d) i) 0, W 2 (avail_ring (qdriver d) i) i])"

lemma event_post_cong: "qdesc d = qdesc d' \<Longrightarrow> qdriver d = qdriver d' \<Longrightarrow> event_post tr d = event_post tr d'"
  by (simp add: event_post_def fun_eq_iff)

lemma fill_events_written:
  assumes "steady dev 2 (common d + 24) q" "i \<le> unat q" "unat q < 2 ^ 16" "drvidx d = of_nat i"
  shows "\<exists>s'. fill_events dev s d evts (of_nat i) = Some (s', d\<lparr>drvidx := ucast q\<rparr>) \<and> translate s' = translate s
    \<and> written s' = written s @ concat (map (event_post (translate s) d evts) [i..<unat q])"
  using assms
proof (induction "unat q - i" arbitrary: s d i)
  case 0
  then have i: "i = unat q" by simp
  then have u: "ucast (of_nat i :: u16) = q" using 0(4) by (simp add: word_unat_eq_iff unsigned_ucast_eq unsigned_take_bit_eq unat_of_nat take_bit_nat_eq_self)
  have "drvidx d = ucast q" using 0(5) i by (simp add: word_unat_eq_iff unat_of_nat take_bit_nat_eq_self unsigned_ucast_eq)
  then have "d\<lparr>drvidx := ucast q\<rparr> = d" by (cases d) simp
  then show ?case
    using u i by (subst fill_events.simps) (simp add: Let_def split_def snd_rd_steady [OF 0(2)] cfg_get_def)
next
  case (Suc n)
  have n: "n = unat q - Suc i" and lt: "i < unat q" using Suc.hyps(2) by simp_all
  then have i: "ucast (of_nat i :: u16) = (of_nat i :: u64)" "unat (of_nat i :: u64) = i"
    using Suc.prems(3) by (simp_all add: word_unat_eq_iff unsigned_ucast_eq unat_of_nat take_bit_nat_eq_self)
  then have less: "(of_nat i :: u64) < q" "of_nat i mod q = (of_nat i :: u64)" "q \<noteq> 0"
    using lt by (simp_all add: word_less_nat_alt word_unat_eq_iff unat_mod_distrib)
  define s1 where "s1 = fst (cfg_get dev (put_desc (fst (cfg_get dev s (common d) queue_size)) (qdesc d) (of_nat i)
     (translate s (evts + 8 * of_nat i)) 8 2 0) (common d) queue_size)"
  let ?s2 = "wr 2 s1 (avail_ring (qdriver d) (of_nat i)) (of_nat i)" and ?d = "d\<lparr>drvidx := drvidx d + 1\<rparr>"
  have st: "fill_events dev s d evts (of_nat i) = fill_events dev ?s2 ?d evts (of_nat (Suc i))"
    using i(1) less Suc.prems(4) by (subst fill_events.simps)
      (simp add: Let_def split_def snd_rd_steady [OF Suc.prems(1)] cfg_get_def s1_def add.commute)
  have t: "translate s1 = translate s" by (simp add: s1_def)
  obtain s' where s': "fill_events dev ?s2 ?d evts (of_nat (Suc i)) = Some (s', ?d\<lparr>drvidx := ucast q\<rparr>)"
    "translate s' = translate ?s2" "written s' = written ?s2 @ concat (map (event_post (translate ?s2) ?d evts) [Suc i..<unat q])"
    using Suc.hyps(1) [OF n, of ?d ?s2] Suc.prems lt by (auto simp: add.commute)
  have "take_bit 16 (of_nat i :: u64) = of_nat i" using i(1) by (metis ucast_u16)
  then have "written ?s2 = written s @ event_post (translate s) d evts i"
    by (simp add: s1_def event_post_def Let_def)
  then show ?case
    using st s' t upt_conv_Cons [OF lt] event_post_cong [of ?d d] by simp
qed

text \<open>
  An input device is brought up in the order the virtio specification asks for: reset,
  acknowledge, driver, features, features OK, the queue and its three areas, queue enable, and
  driver OK; then every descriptor of the queue is posted as an eight-byte buffer the device may
  write, in the slot of its own number, and only after all of them the ring index moves by
  the queue size.
\<close>

theorem input_init_posts_events:
  assumes "reads_back dev 1 (common d + 20)" "steady dev 4 (common d + 4) f" "steady dev 2 (common d + 24) q"
    and "drvidx d = 0"
  shows "\<exists>s' d' pd pr pu evts i. virtio_input_init dev s d = Some (s', d') \<and> drvidx d' = ucast q
    \<and> written s' = written s
      @ [W 1 (common d + 20) 0, W 1 (common d + 20) 1, W 1 (common d + 20) 3, W 4 (common d + 12) (take_bit 32 f),
         W 1 (common d + 20) 11, W 2 (common d + 22) 0, W 2 (common d + 24) 512,
         W 8 (common d + 32) pd, W 8 (common d + 40) pr, W 8 (common d + 48) pu,
         W 2 (common d + 28) 1, W 1 (common d + 20) 15]
      @ concat (map (event_post (translate s') d' evts) [0..<unat q])
      @ [W 2 (avail_idx (qdriver d')) (take_bit 16 (i + q))]"
proof -
  let ?c = "common d"
  have q: "unat q < 2 ^ 16"
  proof -
    have "q = take_bit 16 q" using steady_take [OF assms(3)] by simp
    then show ?thesis by (metis take_bit_nat_less_exp unsigned_take_bit_eq)
  qed
  define a where "a = fst (cfg_get dev (cfg_put (negotiate dev s ?c) ?c queue_size 512) ?c queue_size)"
  define b where "b = input_area a ?c queue_desc 5"
  define c where "c = input_area (fst b) ?c queue_driver 1"
  define e where "e = input_area (fst c) ?c queue_device 3"
  define g where "g = go_live dev (fst e) ?c"
  define v where "v = znalloc (fst (cfg_get dev g ?c queue_size)) (sint (ucast (ALIGN_UP_POT (q * 8) PAGE_SIZE div PAGE_SIZE) :: u32))"
  let ?d = "d\<lparr>qdesc := snd b, qdriver := snd c, qdevice := snd e\<rparr>"
  have lw: "last_write (hist a) 1 (?c + 20) = Some 11"
    using negotiate_written(2) [OF assms(1,2), of s] by (simp add: a_def cfg_put_def del: One_nat_def)
  have "last_write (hist (fst e)) 1 (?c + 20) = Some 11" "written a = written s @ [W 1 (?c + 20) 0, W 1 (?c + 20) 1, W 1 (?c + 20) 3,
      W 4 (?c + 12) (take_bit 32 f), W 1 (?c + 20) 11, W 2 (?c + 22) 0, W 2 (?c + 24) 512]"
    using lw negotiate_written(1) [OF assms(1,2), of s]
    by (simp_all add: e_def c_def b_def input_area_def cfg_put_def Let_def split_def a_def del: One_nat_def)
  then have "\<exists>pd pr pu. written g = written s @ [W 1 (?c + 20) 0, W 1 (?c + 20) 1, W 1 (?c + 20) 3,
      W 4 (?c + 12) (take_bit 32 f), W 1 (?c + 20) 11, W 2 (?c + 22) 0, W 2 (?c + 24) 512,
      W 8 (?c + 32) pd, W 8 (?c + 40) pr, W 8 (?c + 48) pu, W 2 (?c + 28) 1, W 1 (?c + 20) 15]"
    unfolding g_def go_live_written [OF assms(1) \<open>last_write (hist (fst e)) 1 (?c + 20) = Some 11\<close>]
    by (simp add: e_def c_def b_def input_area_def cfg_put_def Let_def split_def del: One_nat_def)
  then obtain pd pr pu where wg: "written g = written s @ [W 1 (?c + 20) 0, W 1 (?c + 20) 1, W 1 (?c + 20) 3,
      W 4 (?c + 12) (take_bit 32 f), W 1 (?c + 20) 11, W 2 (?c + 22) 0, W 2 (?c + 24) 512,
      W 8 (?c + 32) pd, W 8 (?c + 40) pr, W 8 (?c + 48) pu, W 2 (?c + 28) 1, W 1 (?c + 20) 15]" by blast
  have st: "steady dev 2 (common ?d + 24) q" and dr: "drvidx ?d = of_nat 0" using assms(3,4) by simp_all
  obtain w where w: "fill_events dev (fst v) ?d (snd v) 0 = Some (w, ?d\<lparr>drvidx := ucast q\<rparr>)" "translate w = translate (fst v)"
    "written w = written (fst v) @ concat (map (event_post (translate (fst v)) ?d (snd v)) [0..<unat q])"
    using fill_events_written [OF st _ q dr, of "fst v" "snd v"] by auto
  let ?w = "fst (cfg_get dev (fst (rd dev 2 w (avail_idx (snd c)))) ?c queue_size)" and ?d' = "?d\<lparr>drvidx := ucast q\<rparr>"
  define i where "i = snd (rd dev 2 w (avail_idx (snd c)))"
  have "virtio_input_init dev s d = Some (wr 2 ?w (avail_idx (snd c)) (i + q), ?d')"
    by (simp only: virtio_input_init_def Let_def split_def a_def [symmetric] b_def [symmetric] c_def [symmetric]
        e_def [symmetric] g_def [symmetric] snd_queue_size [OF assms(3)] v_def [symmetric] w(1) option.case i_def fst_conv snd_conv) simp
  moreover have "event_post (translate w) ?d' = event_post (translate w) ?d" by (rule event_post_cong) simp_all
  ultimately show ?thesis
    using wg w(2,3) by (intro exI [of _ "wr 2 ?w (avail_idx (snd c)) (i + q)"] exI [of _ ?d'] exI [of _ pd] exI [of _ pr]
        exI [of _ pu] exI [of _ "snd v"] exI [of _ i]) (simp add: v_def)
qed

text \<open>An input device with a queue of two and memory that keeps what is written.\<close>

definition demo_input :: device where
  "demo_input h n a =
     (if n = 2 \<and> a = 0x40000018 then 2 else if n = 4 \<and> a = 0x40000004 then 0x30000000
      else case last_write h n a of None \<Rightarrow> 0 | Some v \<Rightarrow> v)"

lemma input_init_posts_events_witness:
  "\<exists>s' d'. virtio_input_init demo_input demo_os demo_ipt = Some (s', d') \<and> drvidx d' = 2"
proof -
  have st: "reads_back demo_input 1 (common demo_ipt + 20)" "steady demo_input 4 (common demo_ipt + 4) 0x30000000"
    "steady demo_input 2 (common demo_ipt + 24) 2"
    by (simp_all add: steady_def reads_back_def demo_input_def demo_ipt_def)
  show ?thesis using input_init_posts_events [OF st, of demo_os] by (auto simp: demo_ipt_def)
qed

end
