(* ===== verification/Gpu.thy ===== *)
theory Gpu
  imports InputDev
begin

unbundle bit_operations_syntax

text \<open>
  The display driver of src/src/virtio_gpu.c: the request chain and the wait for its
  answer, the start-up sequence, redrawing, and the two drawing routines. The structures the
  functions keep on the stack are shared with the device, so they are on the bus; where the
  compiler puts them is the argument \<open>frame\<close>. The lemmas give the pixels the drawing routine
  writes and what the wait looks at.
\<close>

section \<open>Structures\<close>

text \<open>Offsets: a control header is 24 bytes, its type first; a rectangle is \<open>{x, y, width, height}\<close>.\<close>

abbreviation (input) VIRTIO_GPU_CMD_GET_DISPLAY_INFO :: u64 where "VIRTIO_GPU_CMD_GET_DISPLAY_INFO \<equiv> 0x100"
abbreviation (input) VIRTIO_GPU_CMD_RESOURCE_CREATE_2D :: u64 where "VIRTIO_GPU_CMD_RESOURCE_CREATE_2D \<equiv> 0x101"
abbreviation (input) VIRTIO_GPU_CMD_SET_SCANOUT :: u64 where "VIRTIO_GPU_CMD_SET_SCANOUT \<equiv> 0x103"
abbreviation (input) VIRTIO_GPU_CMD_RESOURCE_FLUSH :: u64 where "VIRTIO_GPU_CMD_RESOURCE_FLUSH \<equiv> 0x104"
abbreviation (input) VIRTIO_GPU_CMD_TRANSFER_TO_HOST_2D :: u64 where "VIRTIO_GPU_CMD_TRANSFER_TO_HOST_2D \<equiv> 0x105"
abbreviation (input) VIRTIO_GPU_CMD_RESOURCE_ATTACH_BACKING :: u64 where "VIRTIO_GPU_CMD_RESOURCE_ATTACH_BACKING \<equiv> 0x106"
abbreviation (input) VIRTIO_GPU_RESP_OK_NODATA :: u64 where "VIRTIO_GPU_RESP_OK_NODATA \<equiv> 0x1100"
abbreviation (input) VIRTIO_GPU_RESP_OK_DISPLAY_INFO :: u64 where "VIRTIO_GPU_RESP_OK_DISPLAY_INFO \<equiv> 0x1101"
abbreviation (input) R8G8B8A8_UNORM :: u64 where "R8G8B8A8_UNORM \<equiv> 67"

datatype rect_field = rect_x | rect_y | rect_width | rect_height

fun rect_offset :: "rect_field \<Rightarrow> u64" where
  "rect_offset rect_x = 0"
| "rect_offset rect_y = 4"
| "rect_offset rect_width = 8"
| "rect_offset rect_height = 12"

definition rect_get :: "device \<Rightarrow> 'a world_scheme \<Rightarrow> u64 \<Rightarrow> rect_field \<Rightarrow> 'a world_scheme \<times> u32" where
  "rect_get dev s r f = (let (s, v) = rd dev 4 s (r + rect_offset f) in (s, ucast v))"

definition rect_put :: "'a world_scheme \<Rightarrow> u64 \<Rightarrow> rect_field \<Rightarrow> u32 \<Rightarrow> 'a world_scheme" where
  "rect_put s r f v = wr 4 s (r + rect_offset f) (ucast v)"

definition rect_set :: "'a world_scheme \<Rightarrow> u64 \<Rightarrow> u32 \<Rightarrow> u32 \<Rightarrow> u32 \<Rightarrow> u32 \<Rightarrow> 'a world_scheme" where
  "rect_set s r x y w h = rect_put (rect_put (rect_put (rect_put s r rect_x x) r rect_y y) r rect_width w) r rect_height h"

definition rect_copy :: "device \<Rightarrow> 'a world_scheme \<Rightarrow> u64 \<Rightarrow> u64 \<Rightarrow> 'a world_scheme" where
  "rect_copy dev s dst src =
     (let (s, x) = rect_get dev s src rect_x; s = rect_put s dst rect_x x;
          (s, y) = rect_get dev s src rect_y; s = rect_put s dst rect_y y;
          (s, w) = rect_get dev s src rect_width; s = rect_put s dst rect_width w;
          (s, h) = rect_get dev s src rect_height
      in rect_put s dst rect_height h)"

section \<open>Start of the device, and a request\<close>

definition virtio_gpu_init :: "device \<Rightarrow> 'a os_scheme \<Rightarrow> 'a os_scheme option" where
  "virtio_gpu_init dev s =
     map_option (\<lambda>(s, d, v, u). s\<lparr>gdev := (gdev s)\<lparr>qdesc := d, qdriver := v, qdevice := u\<rparr>\<rparr>)
       (heap_queue dev s (common (gdev s)))"

text \<open>The loop that waits for the answer; \<open>None\<close> is for ever, or a queue size of zero.\<close>

partial_function (option) gpu_scan :: "device \<Rightarrow> 'a world_scheme \<Rightarrow> Virt_GPU_Device \<Rightarrow> u16 \<Rightarrow> u16 \<Rightarrow> 'a world_scheme option" where
  "gpu_scan dev s g head desc =
     (let (s, v) = rd dev 2 s (used_idx (qdevice g)) in
      if desc \<noteq> ucast v then
        let (s, q) = cfg_get dev s (common g) queue_size in
        if q = 0 then None
        else
          let (s, id) = rd dev 4 s (used_id (qdevice g) (ucast desc mod q)) in
          if id = ucast head then Some s else gpu_scan dev s g head (desc + 1)
      else gpu_scan dev s g head desc)"

text \<open>One more descriptor behind \<open>desc\<close>; \<open>last\<close> ends the chain.\<close>

definition gpu_link ::
  "device \<Rightarrow> 'a kernel_scheme \<Rightarrow> Virt_GPU_Device \<Rightarrow> u16 \<Rightarrow> u64 \<Rightarrow> u64 \<Rightarrow> u64 \<Rightarrow> bool \<Rightarrow> ('a kernel_scheme \<times> u16) option" where
  "gpu_link dev s g desc p bytes flags lst =
     (let (s, q) = cfg_get dev s (common g) queue_size in
      if q = 0 then None
      else
        let nxt = (ucast desc + 1) mod q;
            (s, f) = rd dev 2 s (desc_flags (qdesc g) (ucast desc));
            s = wr 2 s (desc_flags (qdesc g) (ucast desc)) (f OR VIRTQ_DESC_F_NEXT);
            s = wr 2 s (desc_next (qdesc g) (ucast desc)) nxt;
            s = wr 8 s (desc_addr (qdesc g) nxt) (translate s p);
            s = wr 4 s (desc_len (qdesc g) nxt) bytes;
            s = wr 2 s (desc_flags (qdesc g) nxt) flags;
            s = (if lst then wr 2 s (desc_next (qdesc g) nxt) 0 else s)
        in Some (s, ucast nxt))"

definition gpu_kick :: "device \<Rightarrow> 'a world_scheme \<Rightarrow> Virt_GPU_Device \<Rightarrow> 'a world_scheme" where
  "gpu_kick dev s g =
     (let (s, n) = cfg_get dev s (common g) queue_notify_off in wr 4 s (qnotaddr g + n * qnotmult g) 0)"

definition set_drvidx :: "u16 \<Rightarrow> 'a os_scheme \<Rightarrow> 'a os_scheme" where
  "set_drvidx i s = s\<lparr>gdev := (gdev s)\<lparr>drvidx := i\<rparr>\<rparr>"

definition gpu_attach_part ::
  "device \<Rightarrow> 'a os_scheme \<Rightarrow> Virt_GPU_Device \<Rightarrow> u16 \<Rightarrow> u64 \<Rightarrow> u64 \<Rightarrow> u64 \<Rightarrow> bool \<Rightarrow> ('a os_scheme \<times> u16) option" where
  "gpu_attach_part dev s g desc p bytes flags lst =
     (if p \<noteq> NULL then
        map_option (\<lambda>(s, n). (set_drvidx (drvidx (gdev s) + 1) s, n)) (gpu_link dev s g desc p bytes flags lst)
      else Some (s, desc))"

definition gpu_chain ::
  "device \<Rightarrow> 'a os_scheme \<Rightarrow> u64 \<Rightarrow> u64 \<Rightarrow> u64 \<Rightarrow> u64 \<Rightarrow> u64 \<Rightarrow> u64 \<Rightarrow> bool \<Rightarrow> ('a os_scheme \<times> u16) option" where
  "gpu_chain dev s rq rq_size data data_size resp resp_size wrt =
     (let g = gdev s; (s, q) = cfg_get dev s (common g) queue_size in
      if q = 0 then None
      else
        let desc = ucast (drvidx g) mod q; head = ucast desc;
            s = wr 8 s (desc_addr (qdesc g) desc) (translate s rq);
            s = wr 4 s (desc_len (qdesc g) desc) rq_size;
            s = wr 2 s (desc_flags (qdesc g) desc) 0;
            s = set_drvidx (drvidx g + 1) s
        in case gpu_attach_part dev s g head data data_size (if wrt then 0 else VIRTQ_DESC_F_WRITE) False of
             None \<Rightarrow> None
           | Some (s, desc) \<Rightarrow>
               map_option (\<lambda>(s, _). (s, head)) (gpu_attach_part dev s g desc resp resp_size VIRTQ_DESC_F_WRITE True))"

definition virtio_gpu_wait ::
  "device \<Rightarrow> 'a os_scheme \<Rightarrow> u64 \<Rightarrow> u64 \<Rightarrow> u64 \<Rightarrow> u64 \<Rightarrow> u64 \<Rightarrow> u64 \<Rightarrow> bool \<Rightarrow> ('a os_scheme, bool) outcome" where
  "virtio_gpu_wait dev s rq rq_size data data_size resp resp_size wrt =
     (case gpu_chain dev s rq rq_size data data_size resp resp_size wrt of
        None \<Rightarrow> Undef
      | Some (s, head) \<Rightarrow>
          let (s, q) = cfg_get dev s (common (gdev s)) queue_size in
          (case ring_offer dev s (qdriver (gdev s)) q (ucast head) of
             None \<Rightarrow> Undef
           | Some s \<Rightarrow>
               let s = gpu_kick dev s (gdev s) in
               (case gpu_scan dev s (gdev s) head (devidx (gdev s)) of
                  None \<Rightarrow> Hang
                | Some s \<Rightarrow> Ret s True)))"

section \<open>Drawing\<close>

function fill_row :: "device \<Rightarrow> 'a world_scheme \<Rightarrow> u32 \<Rightarrow> u64 \<Rightarrow> u64 \<Rightarrow> u32 \<Rightarrow> u32 \<Rightarrow> u32 \<Rightarrow> 'a world_scheme" where
  "fill_row dev s screen_width buff fill_color row right col =
     (if col < right then
        let (s, c) = rd dev 4 s fill_color;
            s = wr 4 s (buff + 4 * ucast (row * screen_width + col)) c
        in fill_row dev s screen_width buff fill_color row right (col + 1)
      else s)"
  by auto
termination
  by (relation "measure (\<lambda>(_, _, _, _, _, _, right, col). unat right - unat col)")
    (simp_all add: count_down)

function fill_rows :: "device \<Rightarrow> 'a world_scheme \<Rightarrow> u32 \<Rightarrow> u64 \<Rightarrow> u64 \<Rightarrow> u32 \<Rightarrow> u32 \<Rightarrow> u32 \<Rightarrow> u32 \<Rightarrow> 'a world_scheme" where
  "fill_rows dev s screen_width buff fill_color left right bottom row =
     (if row < bottom then
        fill_rows dev (fill_row dev s screen_width buff fill_color row right left) screen_width buff fill_color left right bottom (row + 1)
      else s)"
  by auto
termination
  by (relation "measure (\<lambda>(_, _, _, _, _, _, _, bottom, row). unat bottom - unat row)")
    (simp_all add: count_down)

definition fill_rect :: "device \<Rightarrow> 'a world_scheme \<Rightarrow> u32 \<Rightarrow> u32 \<Rightarrow> u64 \<Rightarrow> u64 \<Rightarrow> u64 \<Rightarrow> 'a world_scheme" where
  "fill_rect dev s screen_width screen_height buff rect fill_color =
     (let (s, top) = rect_get dev s rect rect_y;
          (s, y) = rect_get dev s rect rect_y; (s, h) = rect_get dev s rect rect_height; bottom = y + h;
          (s, left) = rect_get dev s rect rect_x;
          (s, x) = rect_get dev s rect rect_x; (s, w) = rect_get dev s rect rect_width; right = x + w;
          bottom = (if screen_height < bottom then screen_height else bottom);
          right = (if screen_width < right then screen_width else right)
      in fill_rows dev s screen_width buff fill_color left right bottom top)"

text \<open>One bar of a frame: the local rectangle at \<open>tmp\<close> is set and filled.\<close>

definition stroke_bar ::
  "device \<Rightarrow> 'a world_scheme \<Rightarrow> u32 \<Rightarrow> u32 \<Rightarrow> u64 \<Rightarrow> u64 \<Rightarrow> u64 \<Rightarrow> u32 \<times> u32 \<times> u32 \<times> u32 \<Rightarrow> 'a world_scheme" where
  "stroke_bar dev s screen_width screen_height buff line_color tmp =
     (\<lambda>(x, y, w, h). fill_rect dev (rect_set s tmp x y w h) screen_width screen_height buff tmp line_color)"

definition stroke_rect ::
  "device \<Rightarrow> 'a world_scheme \<Rightarrow> u32 \<Rightarrow> u32 \<Rightarrow> u64 \<Rightarrow> u64 \<Rightarrow> u64 \<Rightarrow> u32 \<Rightarrow> u64 \<times> u64 \<times> u64 \<times> u64 \<Rightarrow> 'a world_scheme" where
  "stroke_rect dev s screen_width screen_height buff rect line_color line_size =
     (\<lambda>(top_rect, bot_rect, left_rect, right_rect).
        let (s, x) = rect_get dev s rect rect_x; (s, y) = rect_get dev s rect rect_y; (s, w) = rect_get dev s rect rect_width;
            s = stroke_bar dev s screen_width screen_height buff line_color top_rect (x, y, w, line_size);
            (s, x) = rect_get dev s rect rect_x; (s, h) = rect_get dev s rect rect_height;
            (s, y) = rect_get dev s rect rect_y; (s, w) = rect_get dev s rect rect_width;
            s = stroke_bar dev s screen_width screen_height buff line_color bot_rect (x, h + y, w, line_size);
            (s, x) = rect_get dev s rect rect_x; (s, y) = rect_get dev s rect rect_y; (s, h) = rect_get dev s rect rect_height;
            s = stroke_bar dev s screen_width screen_height buff line_color left_rect (x, y, line_size, h);
            (s, x) = rect_get dev s rect rect_x; (s, w) = rect_get dev s rect rect_width;
            (s, y) = rect_get dev s rect rect_y; (s, h) = rect_get dev s rect rect_height
        in stroke_bar dev s screen_width screen_height buff line_color right_rect (x + w, y, line_size, h + line_size))"

section \<open>Redrawing\<close>

text \<open>Where the compiler keeps the local structures of \<open>gpu_init\<close> and \<open>gpu_redraw\<close>.\<close>

record gpu_locals =
  l_disp :: u64
  l_ctrl :: u64
  l_res2d :: u64
  l_attach :: u64
  l_scan :: u64
  l_mem :: u64
  l_flush :: u64
  l_tx :: u64

text \<open>A request whose answer goes to \<open>ctrl\<close>; the result is whether the answer is \<open>OK_NODATA\<close>.\<close>

definition gpu_ask ::
  "device \<Rightarrow> gpu_locals \<Rightarrow> 'a os_scheme \<Rightarrow> u64 \<Rightarrow> u64 \<Rightarrow> u64 \<Rightarrow> u64 \<Rightarrow> ('a os_scheme, bool) outcome" where
  "gpu_ask dev l s rq rq_size data data_size =
     and_then (virtio_gpu_wait dev s rq rq_size data data_size (l_ctrl l) 24 True)
       (\<lambda>s _. let (s, t) = rd dev 4 s (l_ctrl l) in Ret s (t = VIRTIO_GPU_RESP_OK_NODATA))"

definition gpu_redraw :: "device \<Rightarrow> gpu_locals \<Rightarrow> 'a os_scheme \<Rightarrow> u64 \<Rightarrow> ('a os_scheme, bool) outcome" where
  "gpu_redraw dev l s rect =
     (let s = wr 4 s (l_ctrl l) 0;
          s = wr 4 s (l_tx l) VIRTIO_GPU_CMD_TRANSFER_TO_HOST_2D;
          s = wr 4 s (l_tx l + 48) 1;
          (s, x) = rect_get dev s rect rect_x; (s, y) = rect_get dev s rect rect_y;
          s = wr 8 s (l_tx l + 40) (ucast x * 4 + ucast (y * width (screen_buff s)) * 4);
          s = rect_copy dev s (l_tx l + 24) rect
      in and_then (gpu_ask dev l s (l_tx l) 56 NULL 0) (\<lambda>s ok.
         if \<not> ok then Ret s False
         else
           let s = wr 4 s (l_ctrl l) 0;
               s = wr 4 s (l_flush l) VIRTIO_GPU_CMD_RESOURCE_FLUSH;
               s = wr 4 s (l_flush l + 40) 1;
               s = rect_copy dev s (l_flush l + 24) rect
           in and_then (virtio_gpu_wait dev s (l_flush l) 48 NULL 0 (l_ctrl l) 24 True) (\<lambda>s _.
              gpu_ask dev l s (l_tx l) 56 NULL 0)))"

section \<open>The paint program\<close>

text \<open>\<open>p_color\<close> is \<open>{r, g, b, a}\<close>; its fields are set one byte at a time.\<close>

definition set_rgb :: "'a world_scheme \<Rightarrow> u64 \<Rightarrow> u64 \<Rightarrow> u64 \<Rightarrow> u64 \<Rightarrow> 'a world_scheme" where
  "set_rgb s c r g b = wr 1 (wr 1 (wr 1 s c r) (c + 1) g) (c + 2) b"

definition show_rect :: "device \<Rightarrow> gpu_locals \<Rightarrow> 'a os_scheme \<Rightarrow> u64 \<Rightarrow> u64 \<Rightarrow> ('a os_scheme, bool) outcome" where
  "show_rect dev l s rect c =
     gpu_redraw dev l (fill_rect dev s (width (screen_buff s)) (height (screen_buff s)) (pixels (screen_buff s)) rect c) rect"

text \<open>The tool bar: four colours of 80 by 80 pixels between two grey fields.\<close>

definition paint_toolbar :: "device \<Rightarrow> gpu_locals \<Rightarrow> 'a os_scheme \<Rightarrow> u64 \<Rightarrow> u64 \<Rightarrow> ('a os_scheme, bool) outcome" where
  "paint_toolbar dev l s rect c =
     and_then (show_rect dev l (set_rgb (wr 1 (rect_set s rect 160 0 80 80) (c + 3) 0) c 255 0 0) rect c) (\<lambda>s _.
     and_then (show_rect dev l (set_rgb (wr 1 (rect_put s rect rect_x 240) (c + 3) 0) c 0 255 0) rect c) (\<lambda>s _.
     and_then (show_rect dev l (set_rgb (wr 1 (rect_put s rect rect_x 320) (c + 3) 0) c 0 0 255) rect c) (\<lambda>s _.
     and_then (show_rect dev l (set_rgb (wr 1 (rect_put s rect rect_x 400) (c + 3) 0) c 255 0 255) rect c) (\<lambda>s _.
     and_then (show_rect dev l
       (set_rgb (wr 1 (rect_put (rect_put s rect rect_x 0) rect rect_width 160) (c + 3) 0) c 200 200 200) rect c) (\<lambda>s _.
     and_then (show_rect dev l (rect_put s rect rect_x 480) rect c) (\<lambda>s _.
       Ret (rect_put (rect_put s rect rect_width 10) rect rect_height 10) True))))))"

abbreviation (input) EV_KEY :: u16 where "EV_KEY \<equiv> 1"
abbreviation (input) EV_ABS :: u16 where "EV_ABS \<equiv> 3"
abbreviation (input) ABS_X :: u16 where "ABS_X \<equiv> 0"
abbreviation (input) ABS_Y :: u16 where "ABS_Y \<equiv> 1"
abbreviation (input) BTN_LEFT :: u16 where "BTN_LEFT \<equiv> 0x110"

record brush =
  px :: u32
  py :: u32
  btn_hold :: bool
  last_event :: u64

text \<open>What an event does to the brush, and to the colour when the button goes down on a tool.\<close>

definition brush_event :: "'a world_scheme \<Rightarrow> u64 \<Rightarrow> brush \<Rightarrow> 'a world_scheme \<times> brush" where
  "brush_event s c b =
     (let e = unpack_event (last_event b) in
      if ev_type e = EV_ABS then
        let b = (if ev_code e = ABS_X then b\<lparr>px := ev_value e div 32767 * 640\<rparr> else b)
        in (s, if ev_code e = ABS_Y then b\<lparr>py := ev_value e div 32767 * 480\<rparr> else b)
      else if ev_type e = EV_KEY then
        let (s, b) =
              (if ev_code e = BTN_LEFT \<and> ev_value e = 1 then
                 (if py b \<le>s 80 \<and> 160 \<le>s px b \<and> px b \<le>s 239 then set_rgb s c 255 0 0
                  else if py b \<le>s 80 \<and> 240 \<le>s px b \<and> px b \<le>s 319 then set_rgb s c 0 255 0
                  else if py b \<le>s 80 \<and> 320 \<le>s px b \<and> px b \<le>s 399 then set_rgb s c 0 0 255
                  else if py b \<le>s 80 \<and> 400 \<le>s px b \<and> px b \<le>s 480 then set_rgb s c 255 0 255
                  else s, b\<lparr>btn_hold := True\<rparr>)
               else (s, b))
        in (s, if ev_code e = BTN_LEFT \<and> ev_value e = 0 then b\<lparr>btn_hold := False\<rparr> else b)
      else (s, b))"

text \<open>One round of the loop in \<open>paint\<close>; \<open>ring_pop\<close> leaves \<open>*elem\<close> alone when the ring is empty.\<close>

definition paint_round ::
  "device \<Rightarrow> gpu_locals \<Rightarrow> 'a os_scheme \<Rightarrow> u64 \<Rightarrow> u64 \<Rightarrow> brush \<Rightarrow> ('a os_scheme, brush) outcome" where
  "paint_round dev l s rect c b =
     (case ipt_ringbuf s of
        None \<Rightarrow> Undef
      | Some r \<Rightarrow>
          let (s, b) =
                (if capacity r \<noteq> 0 then
                   let ((m, r'), e) = ring_pop (mem (hw (mm s)), r);
                       b = (case e of None \<Rightarrow> b | Some w \<Rightarrow> b\<lparr>last_event := w\<rparr>)
                   in brush_event (s\<lparr>ipt_ringbuf := Some r'\<rparr>) c b
                 else (s, b))
          in if 90 \<le>s py b \<and> btn_hold b then
               and_then (show_rect dev l (rect_put (rect_put s rect rect_x (px b)) rect rect_y (py b)) rect c)
                 (\<lambda>s _. Ret s b)
             else Ret s b)"

text \<open>The loop has no exit: a result can only be \<open>None\<close>.\<close>

partial_function (option) paint_loop ::
  "device \<Rightarrow> gpu_locals \<Rightarrow> 'a os_scheme \<Rightarrow> u64 \<Rightarrow> u64 \<Rightarrow> brush \<Rightarrow> 'a os_scheme option" where
  "paint_loop dev l s rect c b =
     (case paint_round dev l s rect c b of
        Ret s b \<Rightarrow> paint_loop dev l s rect c b
      | _ \<Rightarrow> None)"

text \<open>\<open>x\<close> is not initialised in the code; \<open>x0\<close> is what it happens to hold.\<close>

definition paint :: "device \<Rightarrow> gpu_locals \<Rightarrow> u32 \<Rightarrow> 'a os_scheme \<Rightarrow> ('a os_scheme, unit) outcome" where
  "paint dev l x0 s =
     (let (s, rect) = znalloc s 1; (s, c) = znalloc s 1 in
      and_then (paint_toolbar dev l s rect c) (\<lambda>s _.
        let (s, elem) = znalloc s 1
        in or_hang (paint_loop dev l s rect c \<lparr>px = x0, py = 0, btn_hold = False, last_event = 0\<rparr>)))"

section \<open>Start-up of the display\<close>

definition gpu_display_info :: "device \<Rightarrow> gpu_locals \<Rightarrow> 'a os_scheme \<Rightarrow> ('a os_scheme, bool) outcome" where
  "gpu_display_info dev l s =
     (let c = l_ctrl l;
          s = wr 4 s c VIRTIO_GPU_CMD_GET_DISPLAY_INFO;
          s = wr 4 s (c + 16) 0; s = wr 8 s (c + 8) 0; s = wr 4 s (c + 4) 0
      in and_then (virtio_gpu_wait dev s c 24 (l_disp l) 408 NULL 0 False) (\<lambda>s _.
         let (s, t) = rd dev 4 s (l_disp l) in
         if t \<noteq> VIRTIO_GPU_RESP_OK_DISPLAY_INFO then Ret s False
         else
           let (s, h) = rd dev 4 s (l_disp l + 24 + 12); (s, w) = rd dev 4 s (l_disp l + 24 + 8);
               s = s\<lparr>screen_buff := (screen_buff s)\<lparr>gpu := 0, height := ucast h, width := ucast w\<rparr>\<rparr>;
               s = say ''Height, width, Frame buff size'' s;
               (s, p) = znalloc s 350
           in Ret (s\<lparr>screen_buff := (screen_buff s)\<lparr>pixels := p\<rparr>\<rparr>) True))"

definition gpu_create :: "device \<Rightarrow> gpu_locals \<Rightarrow> 'a os_scheme \<Rightarrow> ('a os_scheme, bool) outcome" where
  "gpu_create dev l s =
     (let r = l_res2d l;
          s = wr 4 s r VIRTIO_GPU_CMD_RESOURCE_CREATE_2D;
          s = wr 4 s (r + 24) 1;
          s = wr 4 s (r + 28) R8G8B8A8_UNORM;
          s = wr 4 s (r + 32) (ucast (width (screen_buff s)));
          s = wr 4 s (r + 36) (ucast (height (screen_buff s)));
          s = wr 4 s (l_ctrl l) 0
      in gpu_ask dev l s r 40 NULL 0)"

definition gpu_attach :: "device \<Rightarrow> gpu_locals \<Rightarrow> 'a os_scheme \<Rightarrow> ('a os_scheme, bool) outcome" where
  "gpu_attach dev l s =
     (let a = l_attach l;
          s = wr 4 s a VIRTIO_GPU_CMD_RESOURCE_ATTACH_BACKING;
          s = wr 4 s (a + 28) 1;
          s = wr 4 s (a + 24) 1;
          s = wr 4 s (l_ctrl l) 0;
          s = wr 8 s (l_mem l) (translate s (pixels (screen_buff s)));
          s = wr 4 s (l_mem l + 8) (ucast (width (screen_buff s) * height (screen_buff s)) * 4)
      in gpu_ask dev l s a 32 (l_mem l) 16)"

definition gpu_scanout :: "device \<Rightarrow> gpu_locals \<Rightarrow> 'a os_scheme \<Rightarrow> ('a os_scheme, bool) outcome" where
  "gpu_scanout dev l s =
     (let c = l_scan l;
          s = wr 4 s c VIRTIO_GPU_CMD_SET_SCANOUT;
          s = rect_set s (c + 24) 0 0 (width (screen_buff s)) (height (screen_buff s));
          s = wr 4 s (c + 44) 1;
          s = wr 4 s (c + 40) 0;
          s = wr 4 s (l_ctrl l) 0
      in gpu_ask dev l s c 48 NULL 0)"

text \<open>The white background: four bytes of 255 for every pixel, counted by an int.\<close>

function white_fill :: "'a world_scheme \<Rightarrow> u64 \<Rightarrow> u32 \<Rightarrow> u32 \<Rightarrow> 'a world_scheme" where
  "white_fill s pix n i =
     (if i < n then
        let a = pix + 4 * scast i; s = wr 1 s a 255; s = wr 1 s (a + 1) 255; s = wr 1 s (a + 2) 255;
            s = wr 1 s (a + 3) 255
        in white_fill s pix n (i + 1)
      else s)"
  by auto
termination
  by (relation "measure (\<lambda>(_, _, n, i). unat n - unat i)") (simp_all add: count_down)

definition gpu_show :: "device \<Rightarrow> gpu_locals \<Rightarrow> 'a os_scheme \<Rightarrow> ('a os_scheme, bool) outcome" where
  "gpu_show dev l s =
     (let s = white_fill s (pixels (screen_buff s)) (width (screen_buff s) * height (screen_buff s)) 0;
          s = wr 4 s (l_tx l) VIRTIO_GPU_CMD_TRANSFER_TO_HOST_2D;
          s = wr 4 s (l_tx l + 48) 1;
          s = wr 8 s (l_tx l + 40) 0;
          s = rect_copy dev s (l_tx l + 24) (l_scan l + 24);
          s = wr 4 s (l_ctrl l) 0
      in and_then (gpu_ask dev l s (l_tx l) 56 NULL 0) (\<lambda>s ok.
         if \<not> ok then Ret s False
         else
           let s = wr 4 s (l_flush l) VIRTIO_GPU_CMD_RESOURCE_FLUSH;
               s = wr 4 s (l_flush l + 40) 1;
               s = rect_copy dev s (l_flush l + 24) (l_scan l + 24);
               s = wr 4 s (l_ctrl l) 0
           in gpu_ask dev l s (l_flush l) 48 NULL 0))"

text \<open>A step that answers \<open>False\<close> ends the start-up.\<close>

definition if_ok :: "('s, bool) outcome \<Rightarrow> ('s \<Rightarrow> ('s, bool) outcome) \<Rightarrow> ('s, bool) outcome" where
  "if_ok r f = and_then r (\<lambda>s ok. if ok then f s else Ret s False)"

definition gpu_init :: "device \<Rightarrow> gpu_locals \<Rightarrow> gpu_locals \<Rightarrow> u32 \<Rightarrow> 'a os_scheme \<Rightarrow> ('a os_scheme, bool) outcome" where
  "gpu_init dev l l' x0 s =
     if_ok (gpu_display_info dev l s) (\<lambda>s.
     if_ok (gpu_create dev l s) (\<lambda>s.
     if_ok (gpu_attach dev l s) (\<lambda>s.
     if_ok (gpu_scanout dev l s) (\<lambda>s.
     if_ok (gpu_show dev l s) (\<lambda>s.
       and_then (paint dev l' x0 s) (\<lambda>s _. Ret s True))))))"

section \<open>Lemmas\<close>

lemma paint_loop_none: "paint_loop dev l s rect c b = None"
proof (rule ccontr)
  assume "paint_loop dev l s rect c b \<noteq> None"
  then obtain s' where p: "paint_loop dev l s rect c b = Some s'" by blast
  show False
    by (rule paint_loop.raw_induct [where P = "\<lambda>_ _ _ _ _ _ _. False", OF _ p]) (auto split: outcome.splits)
qed

lemma paint_never_returns: "paint dev l x0 s \<noteq> Ret s' ()"
  by (auto simp: paint_def Let_def split_def and_then_Ret paint_loop_none)

text \<open>
  The start-up of the display never reports success, whatever the device answers: it either
  fails at one of its commands or ends in the paint program, which has no exit. The console
  that \<open>main\<close> starts afterwards is reached only when the display does not work.
\<close>

theorem gpu_init_never_succeeds: "gpu_init dev l l' x0 s \<noteq> Ret s' True"
  by (auto simp: gpu_init_def if_ok_def and_then_Ret paint_never_returns split: if_splits)

text \<open>The pixels a fill writes, row by row.\<close>

definition pixel_write :: "u32 \<Rightarrow> u64 \<Rightarrow> u64 \<Rightarrow> nat \<Rightarrow> nat \<Rightarrow> io" where
  "pixel_write screen_width buff c r k = W 4 (buff + 4 * ucast (of_nat r * screen_width + of_nat k)) c"

declare fill_row.simps [simp del] fill_rows.simps [simp del] white_fill.simps [simp del]

lemma fill_row_written:
  assumes "steady dev 4 fc c"
  shows "written (fill_row dev s sw buff fc row right col)
    = written s @ map (pixel_write sw buff c (unat row)) [unat col..<unat right]"
proof (induction "unat right - unat col" arbitrary: s col)
  case 0
  then have "\<not> col < right" by (simp add: word_less_nat_alt)
  then show ?case using 0 by (subst fill_row.simps) simp
next
  case (Suc n)
  then have lt: "col < right" "unat col < unat right" by (simp_all add: word_less_nat_alt)
  let ?s = "wr 4 (fst (rd dev 4 s fc)) (buff + 4 * ucast (row * sw + col)) c"
  have n: "n = unat right - unat (col + 1)" using Suc.hyps(2) unat_Suc_below [OF lt(1)] by simp
  have "fill_row dev s sw buff fc row right col = fill_row dev ?s sw buff fc row right (col + 1)"
    using lt(1) by (subst fill_row.simps) (simp add: Let_def split_def snd_rd_steady [OF assms])
  then show ?case
    using Suc.hyps(1) [OF n, of ?s] lt unat_Suc_below [OF lt(1)] upt_conv_Cons [OF lt(2)]
    by (simp add: pixel_write_def steady_take [OF assms, simplified])
qed

lemma fill_rows_written:
  assumes "steady dev 4 fc c"
  shows "written (fill_rows dev s sw buff fc left right bottom row)
    = written s @ concat (map (\<lambda>r. map (pixel_write sw buff c r) [unat left..<unat right]) [unat row..<unat bottom])"
proof (induction "unat bottom - unat row" arbitrary: s row)
  case 0
  then have "\<not> row < bottom" by (simp add: word_less_nat_alt)
  then show ?case using 0 by (subst fill_rows.simps) simp
next
  case (Suc n)
  then have lt: "row < bottom" "unat row < unat bottom" by (simp_all add: word_less_nat_alt)
  have n: "n = unat bottom - unat (row + 1)" using Suc.hyps(2) unat_Suc_below [OF lt(1)] by simp
  show ?case
    using lt(1) Suc.hyps(1) [OF n, of "fill_row dev s sw buff fc row right left"] unat_Suc_below [OF lt(1)] upt_conv_Cons [OF lt(2)]
    by (subst fill_rows.simps) (simp add: fill_row_written [OF assms])
qed

definition rect_is :: "device \<Rightarrow> u64 \<Rightarrow> u32 \<Rightarrow> u32 \<Rightarrow> u32 \<Rightarrow> u32 \<Rightarrow> bool" where
  "rect_is dev r x y w h \<longleftrightarrow> steady dev 4 r (ucast x) \<and> steady dev 4 (r + 4) (ucast y)
     \<and> steady dev 4 (r + 8) (ucast w) \<and> steady dev 4 (r + 12) (ucast h)"

lemma ucast_u32 [simp]: "ucast (ucast (x :: u32) :: u64) = x"
  by (rule bit_word_eqI) (auto simp: bit_simps)

lemma rect_get_steady:
  assumes "rect_is dev r x y w h"
  shows "snd (rect_get dev s r rect_x) = x" "snd (rect_get dev s r rect_y) = y"
    "snd (rect_get dev s r rect_width) = w" "snd (rect_get dev s r rect_height) = h"
proof -
  have st: "steady dev 4 r (ucast x)" "steady dev 4 (r + 4) (ucast y)" "steady dev 4 (r + 8) (ucast w)"
    "steady dev 4 (r + 12) (ucast h)" using assms by (simp_all add: rect_is_def)
  show "snd (rect_get dev s r rect_x) = x" "snd (rect_get dev s r rect_y) = y"
    "snd (rect_get dev s r rect_width) = w" "snd (rect_get dev s r rect_height) = h"
    by (simp_all add: rect_get_def Let_def split_def snd_rd_steady [OF st(1)] snd_rd_steady [OF st(2)]
        snd_rd_steady [OF st(3)] snd_rd_steady [OF st(4)])
qed

lemma written_rect_get [simp]: "written (fst (rect_get dev s r f)) = written s"
  by (simp add: rect_get_def Let_def split_def)

lemma pixel_inside:
  fixes sw sh :: u32
  assumes "r < unat sh" "k < unat sw" "unat sw * unat sh < 2 ^ 32"
  shows "unat (of_nat r * sw + of_nat k) = r * unat sw + k" "r * unat sw + k < unat sw * unat sh"
proof -
  have "r * unat sw + k < Suc r * unat sw" using assms(2) by simp
  also have "\<dots> \<le> unat sh * unat sw" using assms(1) by (intro mult_le_mono1) simp
  finally show b: "r * unat sw + k < unat sw * unat sh" by (simp add: mult.commute)
  have "of_nat r * sw + of_nat k = of_nat (r * unat sw + k)" by simp
  then show "unat (of_nat r * sw + of_nat k) = r * unat sw + k"
    using b assms(3) by (simp only: unat_of_nat) simp
qed

lemma fill_rect_pixels:
  assumes "rect_is dev rect x y w h" "steady dev 4 fc c" "unat sw * unat sh < 2 ^ 32"
  shows "written (fill_rect dev s sw sh buff rect fc) = written s
      @ concat (map (\<lambda>r. map (\<lambda>k. W 4 (buff + 4 * of_nat (r * unat sw + k)) c) [unat x..<unat (min (x + w) sw)])
          [unat y..<unat (min (y + h) sh)])
    \<and> (\<forall>r \<in> {unat y..<unat (min (y + h) sh)}. \<forall>k \<in> {unat x..<unat (min (x + w) sw)}. r * unat sw + k < unat sw * unat sh)"
proof -
  have m: "(if sw < x + w then sw else x + w) = min (x + w) sw" "(if sh < y + h then sh else y + h) = min (y + h) sh"
    by (auto simp: min_def)
  have le: "unat (min (x + w) sw) \<le> unat sw" "unat (min (y + h) sh) \<le> unat sh" by (auto simp: min_def word_le_nat_alt)
  have "written (fill_rect dev s sw sh buff rect fc) = written s
      @ concat (map (\<lambda>r. map (pixel_write sw buff c r) [unat x..<unat (min (x + w) sw)]) [unat y..<unat (min (y + h) sh)])"
    by (simp add: fill_rect_def Let_def split_def rect_get_steady [OF assms(1)] m fill_rows_written [OF assms(2)])
  moreover have "pixel_write sw buff c r k = W 4 (buff + 4 * of_nat (r * unat sw + k)) c"
    if "r \<in> {unat y..<unat (min (y + h) sh)}" "k \<in> {unat x..<unat (min (x + w) sw)}" for r k
  proof -
    have "unat (of_nat r * sw + of_nat k) = r * unat sw + k" using pixel_inside(1) [of r sh k sw] that le assms(3) by simp
    then have "ucast (of_nat r * sw + of_nat k) = (of_nat (r * unat sw + k) :: u64)" by (metis of_nat_unat)
    then show ?thesis by (simp only: pixel_write_def)
  qed
  moreover have "\<forall>r \<in> {unat y..<unat (min (y + h) sh)}. \<forall>k \<in> {unat x..<unat (min (x + w) sw)}. r * unat sw + k < unat sw * unat sh"
    using pixel_inside(2) [of _ sh _ sw] le assms(3) by auto
  ultimately show ?thesis by (auto intro!: arg_cong [where f = concat] map_cong)
qed



text \<open>
  The paint program cannot draw on a screen of 480 lines. The position of an event, at most
  32767, is divided by 32767 before it is scaled, so the brush is only ever at 0 or 640 across and
  at 0 or 480 down; the drawing area begins at line 90, and a brush at line 480 is off the screen.
\<close>

theorem paint_cannot_draw:
  assumes "px b \<in> {0, 640}" "py b \<in> {0, 480}"
    and "ev_type (unpack_event (last_event b)) = EV_ABS \<longrightarrow> ev_value (unpack_event (last_event b)) \<le> 32767"
    and "(s', b') = brush_event s c b"
    and "rect_is dev rect (px b') (py b') 10 10" "steady dev 4 fc col" "unat sw * unat sh < 2 ^ 32" "sh \<le> 480"
  shows "px b' \<in> {0, 640} \<and> py b' \<in> {0, 480}
    \<and> (90 \<le>s py b' \<longrightarrow> written (fill_rect dev t sw sh buff rect fc) = written t)"
proof -
  have d: "v div 32767 \<in> {0, 1}" if "v \<le> (32767 :: u32)" for v
  proof -
    have "unat v \<le> 32767" using that by (simp add: word_le_nat_alt)
    then have "unat v div 32767 = 0 \<or> unat v div 32767 = 1" by auto
    then show ?thesis by (simp add: word_unat_eq_iff unat_div)
  qed
  have p: "px b' \<in> {0, 640} \<and> py b' \<in> {0, 480}"
    using assms(1-4) d [of "ev_value (unpack_event (last_event b))"]
    by (auto simp: brush_event_def Let_def split: if_splits)
  moreover have "written (fill_rect dev t sw sh buff rect fc) = written t" if "90 \<le>s py b'"
  proof -
    have "py b' = 480" using p that by (auto simp: word_sle_eq)
    moreover have "min (480 + 10) sh \<le> (480 :: u32)" using assms(8) by (simp add: min_le_iff_disj)
    ultimately have "[unat (py b')..<unat (min (py b' + 10) sh)] = []" by (simp add: word_le_nat_alt)
    then show ?thesis
      by (simp only: fill_rect_pixels [OF assms(5-7), THEN conjunct1] list.map concat.simps append_Nil2)
  qed
  ultimately show ?thesis by blast
qed

text \<open>What the requests leave alone in the driver's globals.\<close>

lemma os_bus [simp]:
  "gdev (wr n s a v) = gdev s" "gdev (fst (rd dev n s a)) = gdev s"
  "gdev (fst (cfg_get dev s cfg f)) = gdev s" "gdev (gpu_kick dev s g) = gdev s"
  by (simp_all add: wr_def emit_def rd_eq cfg_get_def gpu_kick_def Let_def split_def)

lemma ring_offer_gdev: "ring_offer dev s drv q head = Some s' \<Longrightarrow> gdev s' = gdev s"
  by (auto simp: ring_offer_def Let_def split_def split: if_splits)

lemma gpu_link_total:
  assumes "steady dev 2 (common g + 24) q" "q \<noteq> 0"
  shows "\<exists>s' n. gpu_link dev s g desc p bytes fl lst = Some (s', n) \<and> gdev s' = gdev (s :: 'a os_scheme)"
  using assms by (simp add: gpu_link_def Let_def split_def snd_queue_size [OF assms(1)])

definition same_device :: "Virt_GPU_Device \<Rightarrow> Virt_GPU_Device \<Rightarrow> bool" where
  "same_device g g' \<longleftrightarrow> (\<exists>x. g' = g\<lparr>drvidx := x\<rparr>)"

lemma same_device_set: "same_device g g1 \<Longrightarrow> same_device g (g1\<lparr>drvidx := y\<rparr>)"
  by (auto simp: same_device_def)

lemma gpu_part_total:
  assumes "steady dev 2 (common g + 24) q" "q \<noteq> 0" "same_device g' (gdev (s :: 'a os_scheme))"
  shows "\<exists>s' n. gpu_attach_part dev s g desc p bytes fl lst = Some (s', n) \<and> same_device g' (gdev s')"
  using gpu_link_total [OF assms(1,2), of s desc p bytes fl lst] assms(3)
  by (auto simp: gpu_attach_part_def set_drvidx_def same_device_set)

lemma gpu_chain_total:
  assumes "steady dev 2 (common (gdev s) + 24) q" "q \<noteq> 0"
  shows "\<exists>s'. gpu_chain dev s rq n data dn resp rn w = Some (s', ucast (ucast (drvidx (gdev s)) mod q))
    \<and> same_device (gdev s) (gdev s')"
proof -
  define s1 where "s1 = set_drvidx (drvidx (gdev s) + 1) (wr 2 (wr 4 (wr 8 (fst (cfg_get dev s (common (gdev s)) queue_size))
     (desc_addr (qdesc (gdev s)) (ucast (drvidx (gdev s)) mod q)) (translate s rq))
     (desc_len (qdesc (gdev s)) (ucast (drvidx (gdev s)) mod q)) n) (desc_flags (qdesc (gdev s)) (ucast (drvidx (gdev s)) mod q)) 0)"
  have g1: "same_device (gdev s) (gdev s1)" by (auto simp: same_device_def s1_def set_drvidx_def)
  let ?h = "ucast (ucast (drvidx (gdev s)) mod q)"
  obtain s2 m where s2: "gpu_attach_part dev s1 (gdev s) ?h data dn (if w then 0 else 2) False = Some (s2, m)"
    "same_device (gdev s) (gdev s2)" using gpu_part_total [OF assms g1] by blast
  obtain s3 k where s3: "gpu_attach_part dev s2 (gdev s) m resp rn 2 True = Some (s3, k)"
    "same_device (gdev s) (gdev s3)" using gpu_part_total [OF assms s2(2)] by blast
  have "gpu_chain dev s rq n data dn resp rn w = Some (s3, ?h)"
    by (simp only: gpu_chain_def Let_def split_def snd_queue_size [OF assms(1)] assms(2) if_False cfg_get_simps translate_bus
        s1_def [symmetric] s2(1) s3(1) option.case option.map fst_conv snd_conv)
  then show ?thesis using s3(2) by blast
qed

lemma gpu_scan_first:
  assumes "steady dev 2 (used_idx (qdevice g)) u" "steady dev 2 (common g + 24) q" "q \<noteq> 0"
    and "steady dev 4 (used_id (qdevice g) (ucast desc mod q)) (ucast head)" "desc \<noteq> ucast u"
  shows "\<exists>s'. gpu_scan dev s g head desc = Some s' \<and> gdev s' = gdev (s :: 'a os_scheme)"
  using assms(3,5) by (subst gpu_scan.simps)
    (simp add: Let_def split_def snd_queue_size [OF assms(2)] snd_rd_steady [OF assms(1)] snd_rd_steady [OF assms(4)])

text \<open>
  The wait for a display request looks for the head of the chain in the device's ring from
  \<open>devidx\<close> on, and never moves \<open>devidx\<close>. So when the entry there has the same head, left by an
  earlier request, the call returns at once although the device did nothing for this one; heads
  repeat as soon as the descriptors wrap around.
\<close>

theorem gpu_wait_accepts_stale:
  assumes "steady dev 2 (common (gdev s) + 24) q" "q \<noteq> 0"
    and "steady dev 2 (used_idx (qdevice (gdev s))) u" "devidx (gdev s) \<noteq> ucast u"
    and "steady dev 4 (used_id (qdevice (gdev s)) (ucast (devidx (gdev s)) mod q)) (ucast (ucast (ucast (drvidx (gdev s)) mod q) :: u16))"
  shows "\<exists>s'. virtio_gpu_wait dev s rq n data dn resp rn w = Ret s' True \<and> same_device (gdev s) (gdev s')"
proof -
  obtain s1 where s1: "gpu_chain dev s rq n data dn resp rn w = Some (s1, ucast (ucast (drvidx (gdev s)) mod q))"
    "same_device (gdev s) (gdev s1)" using gpu_chain_total [OF assms(1,2)] by blast
  then obtain x where x: "gdev s1 = gdev s\<lparr>drvidx := x\<rparr>" by (auto simp: same_device_def)
  obtain s2 where s2: "ring_offer dev (fst (cfg_get dev s1 (common (gdev s)) queue_size)) (qdriver (gdev s)) q
      (ucast (ucast (ucast (drvidx (gdev s)) mod q) :: u16)) = Some s2"
    using ring_offer_total [OF assms(2)] by blast
  then have g2: "gdev s2 = gdev s\<lparr>drvidx := x\<rparr>" using ring_offer_gdev [OF s2] x by simp
  let ?g = "gdev s\<lparr>drvidx := x\<rparr>"
  obtain s3 where "gpu_scan dev (gpu_kick dev s2 ?g) ?g (ucast (ucast (drvidx (gdev s)) mod q)) (devidx (gdev s)) = Some s3"
    "gdev s3 = gdev (gpu_kick dev s2 ?g)"
    using gpu_scan_first [of dev ?g u q "devidx (gdev s)" "ucast (ucast (drvidx (gdev s)) mod q)" "gpu_kick dev s2 ?g"] assms by auto
  then show ?thesis
    using s1(1) x s2 g2 by (auto simp: virtio_gpu_wait_def Let_def split_def snd_queue_size [OF assms(1)] same_device_def)
qed

lemma gpu_wait_accepts_stale_witness:
  "\<exists>s'. virtio_gpu_wait (\<lambda>h n a. if n = 2 \<and> a = 0x40000018 then 8 else if n = 2 \<and> a = 0x3002 then 5 else 0)
     demo_os 0x6000 24 NULL 0 0x6100 24 True = Ret s' True"
proof -
  let ?d = "\<lambda>h n a. if n = 2 \<and> a = 0x40000018 then 8 else if n = 2 \<and> a = 0x3002 then 5 else (0 :: u64)"
  have g: "common (gdev demo_os) = 0x40000000" "qdevice (gdev demo_os) = 0x3000" "devidx (gdev demo_os) = 0" "drvidx (gdev demo_os) = 0"
    by (simp_all add: demo_os_def Let_def demo_ipt_def VirtioIptDevice.defs Virt_GPU_Device.defs)
  have st: "steady ?d 2 (common (gdev demo_os) + 24) 8" "steady ?d 2 (used_idx (qdevice (gdev demo_os))) 5"
    "steady ?d 4 (used_id (qdevice (gdev demo_os)) (ucast (devidx (gdev demo_os)) mod 8)) (ucast (ucast (ucast (drvidx (gdev demo_os)) mod (8 :: u64)) :: u16))"
    by (simp_all add: steady_def g used_idx_def used_id_def)
  show ?thesis
    using gpu_wait_accepts_stale [OF st(1) _ st(2) _ st(3), of "0x6000" 24 NULL 0 "0x6100" 24 True] g by auto
qed

lemma paint_cannot_draw_witness:
  "\<exists>s' b'. (s', b') = brush_event demo_os 0x200 \<lparr>px = 0, py = 0, btn_hold = True, last_event = 0x7FFF00010003\<rparr>
     \<and> py b' = 480"
proof -
  let ?b = "\<lparr>px = 0, py = 0, btn_hold = True, last_event = 0x7FFF00010003\<rparr>"
  let ?d = "\<lambda>h n a. if a = 0x100 then 0 else if a = 0x104 then 480 else if a = 0x108 then 10 else if a = 0x10C then 10 else (7 :: u64)"
  have e: "unpack_event 0x7FFF00010003 = \<lparr>ev_type = 3, ev_code = 1, ev_value = 32767\<rparr>" by (simp add: unpack_event_def)
  have b': "brush_event demo_os 0x200 ?b = (demo_os, ?b\<lparr>py := 480\<rparr>)" by (simp add: brush_event_def e Let_def)
  have r: "rect_is ?d 0x100 (px (?b\<lparr>py := 480\<rparr>)) (py (?b\<lparr>py := 480\<rparr>)) 10 10" by (simp add: rect_is_def steady_def)
  have c: "steady ?d 4 0x200 7" by (simp add: steady_def)
  have "written (fill_rect ?d demo_os 640 480 0x1000 0x100 0x200) = written demo_os"
    using paint_cannot_draw [OF _ _ _ b' [symmetric] r c, of 640 480 demo_os "0x1000"] e by (simp add: word_sle_eq)
  then show ?thesis using b' by auto
qed

end
