(* ===== verification/Pci.thy ===== *)
theory Pci
  imports Gpu
begin

unbundle bit_operations_syntax

text \<open>
  PCI configuration, src/src/pci.c: the addresses of configuration space, base address registers,
  the list of drivers, the walk over the capabilities of a device, enumeration, and the
  interrupt handler of the devices. A value printed is not read a second time for the message.
\<close>

section \<open>Configuration space\<close>

abbreviation (input) MMIO_ECAM_BASE :: u64 where "MMIO_ECAM_BASE \<equiv> 0x30000000"
abbreviation (input) COMMAND_REG_MMIO :: u64 where "COMMAND_REG_MMIO \<equiv> 2"

definition pci_get_ecam :: "u8 \<Rightarrow> u8 \<Rightarrow> u8 \<Rightarrow> u16 \<Rightarrow> u64" where
  "pci_get_ecam b d f r =
     (let bus64 = ucast b AND 0xFF; device64 = ucast d AND 0x1F; function64 = ucast f AND 0x7; reg64 = ucast r AND 0x3FF
      in MMIO_ECAM_BASE OR push_bit 20 bus64 OR push_bit 15 device64 OR push_bit 12 function64 OR push_bit 2 reg64)"

datatype EcamHeader =
    ec_vendor_id | ec_device_id | ec_command_reg | ec_status_reg | ec_revision_id | ec_prog_if | ec_class_code
  | ec_cacheline_size | ec_latency_timer | ec_header_type | ec_bist
  | ec_bar nat | ec_cardbus_cis | ec_sub_vendor_id | ec_sub_device_id | ec_expansion_rom | ec_capes_pointer
  | ec_interrupt_line | ec_interrupt_pin | ec_min_gnt | ec_max_lat
  | ec_primary_bus_no | ec_secondary_bus_no | ec_subordinate_bus_no | ec_secondary_latency_timer
  | ec_io_base | ec_io_limit | ec_secondary_status | ec_memory_base | ec_memory_limit
  | ec_prefetch_memory_base | ec_prefetch_memory_limit

fun ecam_layout :: "EcamHeader \<Rightarrow> u64 \<times> nat" where
  "ecam_layout ec_vendor_id = (0, 2)"
| "ecam_layout ec_device_id = (2, 2)"
| "ecam_layout ec_command_reg = (4, 2)"
| "ecam_layout ec_status_reg = (6, 2)"
| "ecam_layout ec_revision_id = (8, 1)"
| "ecam_layout ec_prog_if = (9, 1)"
| "ecam_layout ec_class_code = (10, 2)"
| "ecam_layout ec_cacheline_size = (12, 1)"
| "ecam_layout ec_latency_timer = (13, 1)"
| "ecam_layout ec_header_type = (14, 1)"
| "ecam_layout ec_bist = (15, 1)"
| "ecam_layout (ec_bar n) = (16 + 4 * of_nat n, 4)"
| "ecam_layout ec_cardbus_cis = (40, 4)"
| "ecam_layout ec_sub_vendor_id = (44, 2)"
| "ecam_layout ec_sub_device_id = (46, 2)"
| "ecam_layout ec_expansion_rom = (48, 4)"
| "ecam_layout ec_capes_pointer = (52, 1)"
| "ecam_layout ec_interrupt_line = (60, 1)"
| "ecam_layout ec_interrupt_pin = (61, 1)"
| "ecam_layout ec_min_gnt = (62, 1)"
| "ecam_layout ec_max_lat = (63, 1)"
| "ecam_layout ec_primary_bus_no = (24, 1)"
| "ecam_layout ec_secondary_bus_no = (25, 1)"
| "ecam_layout ec_subordinate_bus_no = (26, 1)"
| "ecam_layout ec_secondary_latency_timer = (27, 1)"
| "ecam_layout ec_io_base = (28, 1)"
| "ecam_layout ec_io_limit = (29, 1)"
| "ecam_layout ec_secondary_status = (30, 2)"
| "ecam_layout ec_memory_base = (32, 2)"
| "ecam_layout ec_memory_limit = (34, 2)"
| "ecam_layout ec_prefetch_memory_base = (36, 2)"
| "ecam_layout ec_prefetch_memory_limit = (38, 2)"

definition ecam_get :: "device \<Rightarrow> 'a world_scheme \<Rightarrow> u64 \<Rightarrow> EcamHeader \<Rightarrow> 'a world_scheme \<times> u64" where
  "ecam_get dev s ec f = rd dev (snd (ecam_layout f)) s (ec + fst (ecam_layout f))"

definition ecam_put :: "'a world_scheme \<Rightarrow> u64 \<Rightarrow> EcamHeader \<Rightarrow> u64 \<Rightarrow> 'a world_scheme" where
  "ecam_put s ec f v = wr (snd (ecam_layout f)) s (ec + fst (ecam_layout f)) v"

definition PciDriver_probe :: "device \<Rightarrow> 'a world_scheme \<Rightarrow> u8 \<Rightarrow> u8 \<Rightarrow> u8 \<Rightarrow> 'a world_scheme \<times> bool" where
  "PciDriver_probe dev s b sl f =
     (let ec = pci_get_ecam b sl f 0; (s, v) = ecam_get dev s ec ec_vendor_id in
      if v = 0xFFFF then (s, False)
      else let (s, t) = ecam_get dev s ec ec_header_type in (s, t = 0))"

section \<open>Base address registers\<close>

text \<open>\<open>(ecam->type0.bar[bar] >> 1) & 0b11\<close>\<close>

definition bar_type :: "u64 \<Rightarrow> u64" where "bar_type v = drop_bit 1 v AND 3"

definition pci_get_bar :: "device \<Rightarrow> 'a world_scheme \<Rightarrow> u16 \<Rightarrow> u16 \<Rightarrow> u16 \<Rightarrow> u16 \<Rightarrow> 'a world_scheme \<times> u64" where
  "pci_get_bar dev s b sl f bar =
     (let ec = pci_get_ecam (ucast b) (ucast sl) (ucast f) 0; n = unat bar;
          (s, v) = ecam_get dev s ec (ec_bar n); bartype = bar_type v
      in if 5 < bar then (s, 0)
         else if bartype = 2 then
           let (s, hi) = ecam_get dev s ec (ec_bar (n + 1)); (s, lo) = ecam_get dev s ec (ec_bar n)
           in (s, push_bit 32 hi OR lo)
         else if bartype = 0 then ecam_get dev s ec (ec_bar n)
         else (s, minus1UL))"

definition pci_set_bar :: "device \<Rightarrow> 'a world_scheme \<Rightarrow> u16 \<Rightarrow> u16 \<Rightarrow> u16 \<Rightarrow> u16 \<Rightarrow> u64 \<Rightarrow> 'a world_scheme" where
  "pci_set_bar dev s b sl f bar v =
     (let ec = pci_get_ecam (ucast b) (ucast sl) (ucast f) 0; n = unat bar;
          (s, x) = ecam_get dev s ec (ec_bar n); bartype = bar_type x
      in if bartype = 2 then ecam_put (ecam_put s ec (ec_bar n) v) ec (ec_bar (n + 1)) (drop_bit 32 v)
         else if bartype = 0 then ecam_put s ec (ec_bar n) v
         else s)"

definition pci_allocate_bar :: "device \<Rightarrow> 'a os_scheme \<Rightarrow> PciDriver \<Rightarrow> nat \<Rightarrow> 'a os_scheme \<times> nat" where
  "pci_allocate_bar dev s d which =
     (let b = ucast (bus d); sl = ucast (slot d); f = ucast (function_no d);
          s = pci_set_bar dev s b sl f (of_nat which) minus1UL;
          (s, v) = pci_get_bar dev s b sl f (of_nat which); bar = v AND NOT 0xF
      in if bar = 0 then (s, 1)
         else
           let s = pci_set_bar dev s b sl f (of_nat which) (bar_address_free s AND bar);
               s = say ''Gave PCI Bar the free bar address'' s;
               s = s\<lparr>bar_address_free := bar_address_free s + ((- bar AND 0xFFFFFFFF) + 0x10000)\<rparr>
           in (s, if 0xFFFFFFFF < bar then 2 else 1))"

text \<open>The loop over the registers; a 64-bit one takes two.\<close>

function allocate_bars :: "device \<Rightarrow> 'a os_scheme \<Rightarrow> PciDriver \<Rightarrow> nat \<Rightarrow> nat \<Rightarrow> 'a os_scheme" where
  "allocate_bars dev s d n i =
     (if i < n then
        let (s, r) = pci_allocate_bar dev s d i in allocate_bars dev s d n (if r = 2 then i + 2 else i + 1)
      else s)"
  by auto
termination by (relation "measure (\<lambda>(_, _, _, n, i). n - i)") auto

text \<open>\<open>dev_count++; bar_address_free = 0x40000000 + (0x100000 * dev_count)\<close>\<close>

definition next_window :: "'a os_scheme \<Rightarrow> 'a os_scheme" where
  "next_window s =
     (let s = s\<lparr>dev_count := dev_count s + 1\<rparr> in s\<lparr>bar_address_free := 0x40000000 + 0x100000 * dev_count s\<rparr>)"

section \<open>The driver list\<close>

fun find_driver :: "PciDriverListElem list \<Rightarrow> u16 \<Rightarrow> u16 \<Rightarrow> PciDriver option" where
  "find_driver [] v d = None"
| "find_driver (e # es) v d = (if vendorid e = v \<and> deviceid e = d then Some (elem_drv e) else find_driver es v d)"

definition pci_find_driver :: "'a os_scheme \<Rightarrow> u16 \<Rightarrow> u16 \<Rightarrow> PciDriver option" where
  "pci_find_driver s v d = find_driver (d_list_head s) v d"

definition pci_register_driver :: "device \<Rightarrow> 'a os_scheme \<Rightarrow> u16 \<Rightarrow> u16 \<Rightarrow> PciDriver \<Rightarrow> 'a os_scheme option" where
  "pci_register_driver dev s v d dr =
     (if pci_find_driver s v d \<noteq> None then Some s
      else
        case kmalloc s 48 of
          None \<Rightarrow> None
        | Some (s, _) \<Rightarrow>
            let s = s\<lparr>d_list_head := \<lparr>vendorid = v, deviceid = d, elem_drv = dr\<rparr> # d_list_head s\<rparr>;
                s = say ''Registered Device ID, Vendor ID'' s;
                s = allocate_bars dev s dr 6 0
            in Some (say ''newline'' (next_window s)))"

text \<open>A driver structure from the heap; the function pointers are what the memory held before.\<close>

definition new_driver :: "'a os_scheme \<Rightarrow> u8 \<Rightarrow> u8 \<Rightarrow> ('a os_scheme \<times> PciDriver) option" where
  "new_driver s b sl =
     (case kmalloc s 32 of
        None \<Rightarrow> None
      | Some (s, p) \<Rightarrow>
          Some (s, \<lparr>vendor_id = ucast (load64 (vm s) p), device_id = ucast (drop_bit 16 (load64 (vm s) p)),
                    bus = b, slot = sl, function_no = 0, claim_irq = load64 (vm s) (p + 16)\<rparr>))"

text \<open>All pairs of a bus and a slot, in the order of the two loops, and a loop over them.\<close>

definition all_slots :: "(nat \<times> nat) list" where
  "all_slots = concat (map (\<lambda>b. map (\<lambda>sl. (b, sl)) [0..<32]) [0..<256])"

fun each_slot :: "(nat \<times> nat \<Rightarrow> 's \<Rightarrow> 's option) \<Rightarrow> (nat \<times> nat) list \<Rightarrow> 's \<Rightarrow> 's option" where
  "each_slot f [] s = Some s"
| "each_slot f (x # xs) s = Option.bind (f x s) (each_slot f xs)"

definition init_slot :: "device \<Rightarrow> nat \<times> nat \<Rightarrow> 'a os_scheme \<Rightarrow> 'a os_scheme option" where
  "init_slot dev = (\<lambda>(b, sl) s.
     let ec = pci_get_ecam (of_nat b) (of_nat sl) 0 0; (s, v) = ecam_get dev s ec ec_vendor_id in
     if v = 0xFFFF then Some s
     else
       let (s, t) = ecam_get dev s ec ec_header_type in
       if t \<noteq> 0 then Some s
       else
         let s = ecam_put s ec ec_command_reg COMMAND_REG_MMIO in
         (case new_driver s (of_nat b) (of_nat sl) of
            None \<Rightarrow> None
          | Some (s, d) \<Rightarrow>
              let (s, v) = ecam_get dev s ec ec_vendor_id; (s, i) = ecam_get dev s ec ec_device_id;
                  d = d\<lparr>vendor_id := ucast v, device_id := ucast i\<rparr>;
                  (s, v) = ecam_get dev s ec ec_vendor_id; (s, i) = ecam_get dev s ec ec_device_id
              in pci_register_driver dev s (ucast v) (ucast i) d))"

definition PciDriver_init :: "device \<Rightarrow> 'a os_scheme \<Rightarrow> 'a os_scheme option" where
  "PciDriver_init dev s = each_slot (init_slot dev) all_slots s"

section \<open>Capabilities\<close>

text \<open>\<open>((uint32_t)ecam->type0.bar[cap->bar] & 0xFFFFFFF0)\<close>, and with the capability's offset added.\<close>

definition bar_base :: "device \<Rightarrow> 'a world_scheme \<Rightarrow> u64 \<Rightarrow> u64 \<Rightarrow> 'a world_scheme \<times> u32" where
  "bar_base dev s ec cap =
     (let (s, n) = cap_get dev s cap cap_bar; (s, v) = ecam_get dev s ec (ec_bar (unat n)) in (s, ucast v AND 0xFFFFFFF0))"

definition bar_target :: "device \<Rightarrow> 'a world_scheme \<Rightarrow> u64 \<Rightarrow> u64 \<Rightarrow> 'a world_scheme \<times> u64" where
  "bar_target dev s ec cap =
     (let (s, b) = bar_base dev s ec cap; (s, off) = cap_get dev s cap cap_offset in (s, ucast (b + ucast off)))"

text \<open>\<open>if(ecam->device_id == n) { ... }\<close>\<close>

definition when_dev :: "device \<Rightarrow> u64 \<Rightarrow> u64 \<Rightarrow> ('a world_scheme \<Rightarrow> 'a world_scheme) \<Rightarrow> 'a world_scheme \<Rightarrow> 'a world_scheme" where
  "when_dev dev ec n f s = (let (s, v) = ecam_get dev s ec ec_device_id in if v = n then f s else s)"

text \<open>The input device of slot 0 is \<open>ipt\<close>, another one \<open>keyboard\<close>; the disk of slot 1 is the boot disk,
  that of slot 2 the Minix disk, another one the ext4 disk.\<close>

definition upd_input :: "u16 \<Rightarrow> (VirtioIptDevice \<Rightarrow> VirtioIptDevice) \<Rightarrow> 'a os_scheme \<Rightarrow> 'a os_scheme" where
  "upd_input sl f s = (if sl = 0 then s\<lparr>ipt := f (ipt s)\<rparr> else s\<lparr>keyboard := f (keyboard s)\<rparr>)"

definition upd_blk :: "u16 \<Rightarrow> (virtio_config_loc \<Rightarrow> virtio_config_loc) \<Rightarrow> 'a os_scheme \<Rightarrow> 'a os_scheme" where
  "upd_blk sl f s =
     (if sl = 1 then s\<lparr>pci_blk_device := f (pci_blk_device s)\<rparr>
      else if sl = 2 then s\<lparr>minix_blk_device := f (minix_blk_device s)\<rparr>
      else s\<lparr>ext4_blk_device := f (ext4_blk_device s)\<rparr>)"

definition common_cap :: "device \<Rightarrow> u16 \<Rightarrow> u64 \<Rightarrow> u64 \<Rightarrow> 'a os_scheme \<Rightarrow> 'a os_scheme" where
  "common_cap dev sl ec cap s =
     (let s = when_dev dev ec 0x1052 (\<lambda>s. let (s, a) = bar_target dev s ec cap in
                say ''Address given to IPT_common_cfg'' (upd_input sl (\<lambda>d. d\<lparr>common := a\<rparr>) s)) s;
          s = when_dev dev ec 0x1050 (\<lambda>s. let (s, a) = bar_target dev s ec cap in
                say ''Address given to GPU_common_cfg'' (s\<lparr>gdev := (gdev s)\<lparr>common := a\<rparr>\<rparr>)) s;
          s = when_dev dev ec 0x1044 (\<lambda>s. let (s, b) = bar_base dev s ec cap; (s, a) = bar_target dev s ec cap in
                say ''Address given to rng_common_cfg''
                  (s\<lparr>pci_entropy_device := (pci_entropy_device s)\<lparr>baraddr := b, common_cfg := a\<rparr>\<rparr>)) s
      in when_dev dev ec 0x1042 (\<lambda>s. let (s, b) = bar_base dev s ec cap; (s, a) = bar_target dev s ec cap in
           say ''Address given to blk_common_cfg'' (upd_blk sl (\<lambda>d. d\<lparr>baraddr := b, common_cfg := a\<rparr>) s)) s)"

definition notify_cap_step :: "device \<Rightarrow> u16 \<Rightarrow> u64 \<Rightarrow> u64 \<Rightarrow> 'a os_scheme \<Rightarrow> 'a os_scheme" where
  "notify_cap_step dev sl ec cap s =
     (let s = when_dev dev ec 0x1052 (\<lambda>s.
                let (s, m) = cap_get dev s cap notify_off_multiplier; (s, a) = bar_target dev s ec cap in
                say ''Address given to IPT_notify_cap''
                  (upd_input sl (\<lambda>d. d\<lparr>notify := cap, qnotmult := m, qnotaddr := a\<rparr>) s)) s;
          s = when_dev dev ec 0x1050 (\<lambda>s.
                let (s, m) = cap_get dev s cap notify_off_multiplier; (s, a) = bar_target dev s ec cap in
                say ''Address given to GPU_notify_cap''
                  (s\<lparr>gdev := (gdev s)\<lparr>notify := cap, qnotmult := m, qnotaddr := a\<rparr>\<rparr>)) s;
          s = when_dev dev ec 0x1044 (\<lambda>s. say ''Address given to rng_notify_cap''
                (s\<lparr>pci_entropy_device := (pci_entropy_device s)\<lparr>notify_cap := cap\<rparr>\<rparr>)) s
      in when_dev dev ec 0x1042 (\<lambda>s. say ''Address given to blk_notify_cap'' (upd_blk sl (\<lambda>d. d\<lparr>notify_cap := cap\<rparr>) s)) s)"

definition isr_cap_step :: "device \<Rightarrow> u16 \<Rightarrow> u64 \<Rightarrow> u64 \<Rightarrow> 'a os_scheme \<Rightarrow> 'a os_scheme" where
  "isr_cap_step dev sl ec cap s =
     (let s = when_dev dev ec 0x1052 (\<lambda>s. let (s, a) = bar_target dev s ec cap in
                say ''Address given to IPT_isr_cap'' (upd_input sl (\<lambda>d. d\<lparr>isr := a\<rparr>) s)) s;
          s = when_dev dev ec 0x1050 (\<lambda>s. let (s, a) = bar_target dev s ec cap in
                say ''Address given to GPU_isr_cap'' (s\<lparr>gdev := (gdev s)\<lparr>isr := a\<rparr>\<rparr>)) s;
          s = when_dev dev ec 0x1044 (\<lambda>s. let (s, a) = bar_target dev s ec cap in
                say ''Address given to isr_cap'' (s\<lparr>pci_entropy_device := (pci_entropy_device s)\<lparr>isr_cap := a\<rparr>\<rparr>)) s
      in when_dev dev ec 0x1042 (\<lambda>s. let (s, a) = bar_target dev s ec cap in
           say ''Address given to blk_isr_cap'' (upd_blk sl (\<lambda>d. d\<lparr>isr_cap := a\<rparr>) s)) s)"

definition device_cap_step :: "device \<Rightarrow> u16 \<Rightarrow> u64 \<Rightarrow> u64 \<Rightarrow> 'a os_scheme \<Rightarrow> 'a os_scheme" where
  "device_cap_step dev sl ec cap s =
     (let s = when_dev dev ec 0x1052 (\<lambda>s. let (s, a) = bar_target dev s ec cap in
                say ''Address given to IPT_type_4 struct'' (upd_input sl (\<lambda>d. d\<lparr>cfg4 := a\<rparr>) s)) s;
          s = when_dev dev ec 0x1050 (\<lambda>s. let (s, a) = bar_target dev s ec cap in
                say ''Address given to GPU_type_4 struct'' (s\<lparr>gdev := (gdev s)\<lparr>cfg4 := a\<rparr>\<rparr>)) s
      in when_dev dev ec 0x1042 (\<lambda>s. let (s, a) = bar_target dev s ec cap in
           say ''Address given to blk_type_4 struct'' (upd_blk sl (\<lambda>d. d\<lparr>t4 := a\<rparr>) s)) s)"

definition virtio_cap :: "device \<Rightarrow> u16 \<Rightarrow> u64 \<Rightarrow> u64 \<Rightarrow> 'a os_scheme \<Rightarrow> 'a os_scheme" where
  "virtio_cap dev sl ec cap s =
     (let (s, t) = cap_get dev s cap cfg_type in
      if t = 1 then common_cap dev sl ec cap s
      else if t = 2 then notify_cap_step dev sl ec cap s
      else if t = 3 then isr_cap_step dev sl ec cap s
      else if t = 4 then device_cap_step dev sl ec cap s
      else s)"

text \<open>The walk; a capability of an unknown kind ends it, a list that closes on itself never does.\<close>

partial_function (option) walk_capes :: "device \<Rightarrow> u16 \<Rightarrow> u64 \<Rightarrow> u64 \<Rightarrow> 'a os_scheme \<Rightarrow> 'a os_scheme option" where
  "walk_capes dev sl ec capes_next s =
     (if capes_next = 0 then Some s
      else
        let cap = ec + capes_next; (s, id) = rd dev 1 s cap in
        if id = 0x09 then
          let s = virtio_cap dev sl ec cap s; (s, nxt) = rd dev 1 s (cap + 1) in walk_capes dev sl ec nxt s
        else if id = 0x10 \<or> id = 0x11 then let (s, nxt) = rd dev 1 s (cap + 1) in walk_capes dev sl ec nxt s
        else Some s)"

definition pci_cape_ptr_check :: "device \<Rightarrow> u16 \<Rightarrow> u16 \<Rightarrow> 'a os_scheme \<Rightarrow> 'a os_scheme option" where
  "pci_cape_ptr_check dev b sl s =
     (let ec = pci_get_ecam (ucast b) (ucast sl) 0 0; (s, st) = ecam_get dev s ec ec_status_reg in
      if st AND 16 \<noteq> 0 then
        let (s, c) = ecam_get dev s ec ec_capes_pointer in walk_capes dev sl ec c s
      else Some s)"

section \<open>Enumeration\<close>

definition pci_config_t0 :: "device \<Rightarrow> 'a os_scheme \<Rightarrow> u8 \<Rightarrow> u8 \<Rightarrow> u8 \<Rightarrow> 'a os_scheme" where
  "pci_config_t0 dev s b sl f =
     (if b = 0 \<and> sl = 0 then say ''Root PCI NODE Found'' s
      else
        let ec = pci_get_ecam b sl f 0;
            (s, v) = ecam_get dev s ec ec_vendor_id; (s, i) = ecam_get dev s ec ec_device_id in
        case pci_find_driver s (ucast v) (ucast i) of
          None \<Rightarrow> say ''Could not initialize PCI'' s
        | Some d \<Rightarrow>
            let (s, ok) = PciDriver_probe dev s b sl f in if ok then s else say ''Could not initialize PCI'' s)"

definition pci_config_t1 :: "device \<Rightarrow> 'a os_scheme \<Rightarrow> u8 \<Rightarrow> u8 \<Rightarrow> 'a os_scheme option" where
  "pci_config_t1 dev s b sl =
     (let ec = pci_get_ecam b sl 0 0;
          s = ecam_put s ec ec_command_reg (COMMAND_REG_MMIO OR 4);
          s = ecam_put s ec ec_memory_base 0x4000;
          s = ecam_put s ec ec_memory_limit 0x4FFF;
          s = ecam_put s ec ec_prefetch_memory_base 0x4000;
          s = ecam_put s ec ec_prefetch_memory_limit 0x4FFF;
          s = ecam_put s ec ec_primary_bus_no (ucast b);
          s = ecam_put s ec ec_secondary_bus_no (ucast (subordinate s));
          s = s\<lparr>subordinate := subordinate s + 1\<rparr>
      in case new_driver s b sl of
           None \<Rightarrow> None
         | Some (s, d) \<Rightarrow> Some (say ''newline'' (next_window (allocate_bars dev s d 2 0))))"

definition enum_slot :: "device \<Rightarrow> nat \<times> nat \<Rightarrow> 'a os_scheme \<Rightarrow> 'a os_scheme option" where
  "enum_slot dev = (\<lambda>(b, sl) s.
     let ec = pci_get_ecam (of_nat b) (of_nat sl) 0 0; (s, v) = ecam_get dev s ec ec_vendor_id in
     if v = 0xFFFF then Some s
     else
       let (s, v) = ecam_get dev s ec ec_vendor_id in
       if v = 0 then Some s
       else
         let (s, t) = ecam_get dev s ec ec_header_type in
         if t = 0 then Some (pci_config_t0 dev s (of_nat b) (of_nat sl) 0)
         else Option.bind (pci_config_t1 dev s (of_nat b) (of_nat sl)) (PciDriver_init dev))"

text \<open>A zeroed device structure from the heap: \<open>kzalloc(64)\<close> clears all but the last eight bytes,
  of which \<open>at_idx\<close> and \<open>enabled\<close> are then set and \<open>baraddr\<close> is not.\<close>

definition new_loc :: "'a os_scheme \<Rightarrow> ('a os_scheme \<times> virtio_config_loc) option" where
  "new_loc s =
     (case kzalloc s 64 of
        None \<Rightarrow> None
      | Some (s, p) \<Rightarrow>
          Some (s, \<lparr>common_cfg = 0, notify_cap = 0, isr_cap = 0, t4 = 0, desc_table = 0, driver_ring = 0, device_ring = 0,
                    at_idx = 0, enabled = False, baraddr = ucast (drop_bit 32 (load64 (vm s) (p + 56)))\<rparr>))"

text \<open>A second function with the same identification is not registered; its registers are set by hand.\<close>

definition manual_bars :: "device \<Rightarrow> 'a os_scheme \<Rightarrow> u8 \<Rightarrow> u8 \<Rightarrow> 'a os_scheme option" where
  "manual_bars dev s b sl =
     map_option (\<lambda>(s, d). next_window (allocate_bars dev s d 6 0)) (new_driver s b sl)"

definition blank_input :: VirtioIptDevice where
  "blank_input = \<lparr>common = 0, isr = 0, notify = 0, cfg4 = 0, qdesc = 0, qdriver = 0, qdevice = 0, qnotmult = 0,
     qnotaddr = 0, drvidx = 0, devidx = 0, irq = 0\<rparr>"

text \<open>\<open>bufmutex\<close> is in the eight bytes of the structure that \<open>kzalloc(88)\<close> does not clear.\<close>

definition blank_gpu :: "'a os_scheme \<Rightarrow> u64 \<Rightarrow> Virt_GPU_Device" where
  "blank_gpu s p = \<lparr>common = 0, isr = 0, notify = 0, cfg4 = 0, qdesc = 0, qdriver = 0, qdevice = 0, qnotmult = 0,
     qnotaddr = 0, drvidx = 0, devidx = 0, irq = 0, bufmutex = ucast (load64 (vm s) (p + 80))\<rparr>"

definition setup_disks :: "device \<Rightarrow> 'a os_scheme \<Rightarrow> 'a os_scheme option" where
  "setup_disks dev s =
     Option.bind (new_loc s) (\<lambda>(s, d).
     Option.bind (pci_cape_ptr_check dev 1 2 (s\<lparr>pci_entropy_device := d\<rparr>)) (\<lambda>s.
     Option.bind (new_loc s) (\<lambda>(s, d).
     Option.bind (pci_cape_ptr_check dev 2 1 (s\<lparr>pci_blk_device := d\<rparr>)) (\<lambda>s.
     Option.bind (new_loc s) (\<lambda>(s, d).
     Option.bind (manual_bars dev (s\<lparr>minix_blk_device := d\<rparr>) 2 2) (\<lambda>s.
     Option.bind (pci_cape_ptr_check dev 2 2 s) (\<lambda>s.
     Option.bind (new_loc s) (\<lambda>(s, d).
     Option.bind (manual_bars dev (s\<lparr>ext4_blk_device := d\<rparr>) 2 3) (\<lambda>s.
       pci_cape_ptr_check dev 2 3 s)))))))))"

definition setup_screen :: "device \<Rightarrow> 'a os_scheme \<Rightarrow> 'a os_scheme option" where
  "setup_screen dev s =
     Option.bind (kzalloc s 88) (\<lambda>(s, p).
     Option.bind (pci_cape_ptr_check dev 2 0 (s\<lparr>gdev := blank_gpu s p\<rparr>)) (\<lambda>s.
     Option.bind (kzalloc s 160) (\<lambda>(s, _).
     Option.bind (pci_cape_ptr_check dev 1 0 (s\<lparr>ipt := blank_input\<rparr>)) (\<lambda>s.
     Option.bind (kzalloc s 160) (\<lambda>(s, _).
     Option.bind (manual_bars dev (s\<lparr>keyboard := blank_input\<rparr>) 1 1) (\<lambda>s.
       pci_cape_ptr_check dev 1 1 s))))))"

text \<open>\<open>uninit\<close>: what the page of the ring buffer structure held is overwritten by \<open>ring_init\<close>.\<close>

definition start_devices :: "device \<Rightarrow> RingBuffer \<Rightarrow> 'a os_scheme \<Rightarrow> 'a os_scheme option" where
  "start_devices dev uninit s =
     Option.bind (virtio_rng_device_init dev s) (\<lambda>s.
     let s = ext4_blk_device_init dev (minix_blk_device_init dev (virtio_blk_device_init dev s)) in
     Option.bind (virtio_gpu_init dev s) (\<lambda>s.
     let (h, _, r) = ring_new (hw (mm s)) uninit 256 RB_DISCARD;
         s = s\<lparr>mm := (mm s)\<lparr>hw := h\<rparr>, ipt_ringbuf := Some r\<rparr> in
     Option.bind (virtio_input_init dev s (ipt s)) (\<lambda>(s, d).
     let s = s\<lparr>ipt := d\<rparr> in
     map_option (\<lambda>(s, d). s\<lparr>keyboard := d\<rparr>) (virtio_input_init dev s (keyboard s)))))"

definition pci_init :: "device \<Rightarrow> RingBuffer \<Rightarrow> 'a os_scheme \<Rightarrow> 'a os_scheme option" where
  "pci_init dev uninit s =
     Option.bind (each_slot (enum_slot dev) all_slots s) (\<lambda>s.
     Option.bind (setup_disks dev s) (\<lambda>s.
     Option.bind (setup_screen dev s) (start_devices dev uninit)))"

section \<open>Interrupts\<close>

definition queue_interrupt :: "device \<Rightarrow> 'a world_scheme \<Rightarrow> u64 \<Rightarrow> 'a world_scheme \<times> bool" where
  "queue_interrupt dev s a = (let (s, v) = rd dev 4 s a in (s, bit v 0))"

text \<open>
  The events of an input device go to the ring; the slot of the driver's ring is offered again.
  \<open>None\<close> is a loop without end or a division by zero.
\<close>

partial_function (option) drain_input ::
  "device \<Rightarrow> 'a os_scheme \<Rightarrow> RingBuffer \<Rightarrow> VirtioIptDevice \<Rightarrow> ('a os_scheme \<times> RingBuffer \<times> VirtioIptDevice) option" where
  "drain_input dev s r d =
     (let (s, v) = rd dev 2 s (used_idx (qdevice d)) in
      if devidx d \<noteq> ucast v then
        let (s, q) = cfg_get dev s (common d) queue_size in
        if q = 0 then None
        else
          let (s, id) = rd dev 4 s (used_id (qdevice d) (ucast (devidx d) mod q));
              (s, a) = rd dev 8 s (desc_addr (qdesc d) id);
              (s, e) = rd dev 8 s a;
              ((m, r), _) = ring_push (mem (hw (mm s)), r) e;
              s = s\<lparr>mm := (mm s)\<lparr>hw := (hw (mm s))\<lparr>mem := m\<rparr>\<rparr>\<rparr>;
              (s, i) = rd dev 2 s (avail_idx (qdriver d));
              s = wr 2 s (avail_idx (qdriver d)) (i + 1)
          in drain_input dev s r (d\<lparr>devidx := devidx d + 1\<rparr>)
      else Some (s, r, d))"

text \<open>The five devices in turn; \<open>None\<close> as the answer is the end of the function without a \<open>return\<close>.\<close>

definition ask_devices :: "device \<Rightarrow> 'a os_scheme \<Rightarrow> ('a os_scheme, bool option) outcome" where
  "ask_devices dev s =
     (let (s, e) = queue_interrupt dev s (isr_cap (pci_entropy_device s)) in
      if e then
        Ret (say ''Entropy Device queue interrupt cleared'' (clear_queue_interrupt dev s (isr_cap (pci_entropy_device s)))) (Some True)
      else
        let (s, b) = queue_interrupt dev s (isr_cap (pci_blk_device s)) in
        if b then (case virtio_disk_isr dev s of None \<Rightarrow> Hang | Some s \<Rightarrow> Ret s (Some True))
        else
          let (s, g) = queue_interrupt dev s (isr (gdev s)) in
          if g then
            (case catch_up dev (clear_queue_interrupt dev s (isr (gdev s))) (qdevice (gdev s)) (devidx (gdev s)) of
               None \<Rightarrow> Hang
             | Some (s, i) \<Rightarrow> Ret (s\<lparr>gdev := (gdev s)\<lparr>devidx := i\<rparr>\<rparr>) (Some True))
          else
            let (s, i) = queue_interrupt dev s (isr (ipt s)) in
            if i then
              (case ipt_ringbuf s of
                 None \<Rightarrow> Undef
               | Some r \<Rightarrow>
                   (case drain_input dev (clear_queue_interrupt dev s (isr (ipt s))) r (ipt s) of
                      None \<Rightarrow> Hang
                    | Some (s, r, d) \<Rightarrow>
                        Ret (say ''IPT Device queue interrupt cleared'' (s\<lparr>ipt := d, ipt_ringbuf := Some r\<rparr>)) (Some True)))
            else
              let (s, k) = queue_interrupt dev s (isr (keyboard s)) in
              if k then
                (case ipt_ringbuf s of
                   None \<Rightarrow> Undef
                 | Some r \<Rightarrow>
                     (case drain_input dev (clear_queue_interrupt dev s (isr (keyboard s))) r (keyboard s) of
                        None \<Rightarrow> Hang
                      | Some (s, r, d) \<Rightarrow>
                          Ret (say ''Keyboard Device queue interrupt cleared'' (s\<lparr>keyboard := d, ipt_ringbuf := Some r\<rparr>)) (Some True)))
              else Ret s None)"

fun claim_from :: "device \<Rightarrow> int \<Rightarrow> PciDriverListElem list \<Rightarrow> 'a os_scheme \<Rightarrow> ('a os_scheme, bool option) outcome" where
  "claim_from dev n [] s = Ret s None"
| "claim_from dev n (e # es) s =
     (if 32 + (int (unat (bus (elem_drv e))) + int (unat (slot (elem_drv e)))) mod 4 = n then
        and_then (ask_devices dev s) (\<lambda>s r. if r = None then claim_from dev n es s else Ret s r)
      else claim_from dev n es s)"

definition PciDriver_claim_irq :: "device \<Rightarrow> 'a os_scheme \<Rightarrow> int \<Rightarrow> ('a os_scheme, bool option) outcome" where
  "PciDriver_claim_irq dev s n = claim_from dev n (d_list_head s) s"

text \<open>\<open>pci_dispatch_irq\<close>; what a driver's \<open>claim_irq\<close> pointer does is the parameter \<open>call\<close>.\<close>

fun dispatch_from ::
  "(u64 \<Rightarrow> int \<Rightarrow> 's \<Rightarrow> 's \<times> bool) \<Rightarrow> int \<Rightarrow> PciDriverListElem list \<Rightarrow> 's \<Rightarrow> 's \<times> bool" where
  "dispatch_from call n [] s = (s, False)"
| "dispatch_from call n (e # es) s =
     (if claim_irq (elem_drv e) \<noteq> NULL then
        let (s, ok) = call (claim_irq (elem_drv e)) n s in if ok then (s, True) else dispatch_from call n es s
      else dispatch_from call n es s)"

definition pci_dispatch_irq :: "(u64 \<Rightarrow> int \<Rightarrow> 'a os_scheme \<Rightarrow> 'a os_scheme \<times> bool) \<Rightarrow> 'a os_scheme \<Rightarrow> int \<Rightarrow> 'a os_scheme \<times> bool" where
  "pci_dispatch_irq call s n = dispatch_from call n (d_list_head s) s"

section \<open>Lemmas\<close>

lemma bit_three: "bit (3 :: u64) k \<longleftrightarrow> k = 0 \<or> k = 1"
proof -
  have "(3 :: u64) = mask 2" by (simp add: mask_eq_exp_minus_1)
  then show ?thesis by (simp only: bit_mask_iff) auto
qed

lemma bit_ecam_base: "bit (0x30000000 :: u64) n \<longleftrightarrow> n = 28 \<or> n = 29"
proof -
  have e: "(0x30000000 :: u64) = push_bit 28 3" by simp
  show ?thesis unfolding e bit_push_bit_iff possible_bit_word bit_three by auto
qed

text \<open>
  C24. The address of configuration space encodes bus, slot, function and register in separate
  fields: each can be read back from it, so different functions have different addresses, and
  every address lies in the window at \<open>0x30000000\<close>.
\<close>

theorem ecam_roundtrip:
  "let a = pci_get_ecam b d f r in
     take_bit 8 (drop_bit 20 a) = ucast b \<and> take_bit 5 (drop_bit 15 a) = take_bit 5 (ucast d)
     \<and> take_bit 3 (drop_bit 12 a) = take_bit 3 (ucast f) \<and> take_bit 10 (drop_bit 2 a) = take_bit 10 (ucast r)
     \<and> 0x30000000 \<le> a \<and> a < 0x40000000"
proof -
  let ?a = "pci_get_ecam b d f r"
  have m: "0xFF = (mask 8 :: u64)" "0x1F = (mask 5 :: u64)" "0x7 = (mask 3 :: u64)" "0x3FF = (mask 10 :: u64)"
    by (simp_all add: mask_eq_exp_minus_1)
  define low where "low = push_bit 20 (ucast b :: u64) OR push_bit 15 (take_bit 5 (ucast d)) OR push_bit 12 (take_bit 3 (ucast f))
    OR push_bit 2 (take_bit 10 (ucast r))"
  have a: "?a = 0x30000000 OR low"
    by (rule bit_word_eqI) (auto simp: pci_get_ecam_def low_def m bit_simps Let_def dest: bit_imp_le_length)
  have bl: "\<not> bit low n" if "28 \<le> n" for n
    using that by (auto simp: low_def bit_simps dest: bit_imp_le_length)
  then have "low = low AND mask 28" by (intro bit_word_eqI) (auto simp: bit_simps not_le [symmetric])
  then have lt: "low < 2 ^ 28" using and_mask_less_size [of 28 low] by (simp add: word_size)
  have sum: "?a = 0x30000000 + low"
    unfolding a by (rule disjunctive_add [symmetric]) (use bit_ecam_base bl in auto)
  have "unat low < 2 ^ 28" using lt by (simp add: word_less_nat_alt)
  then have r: "0x30000000 \<le> ?a \<and> ?a < 0x40000000"
    by (simp add: sum word_less_nat_alt word_le_nat_alt unat_word_ariths)
  have f: "take_bit 8 (drop_bit 20 ?a) = ucast b" "take_bit 5 (drop_bit 15 ?a) = take_bit 5 (ucast d)"
    "take_bit 3 (drop_bit 12 ?a) = take_bit 3 (ucast f)" "take_bit 10 (drop_bit 2 ?a) = take_bit 10 (ucast r)"
    by (rule bit_word_eqI; auto simp: a low_def bit_or_iff bit_ecam_base bit_take_bit_iff bit_drop_bit_eq bit_push_bit_iff bit_ucast_iff
        dest: bit_imp_le_length)+
  show ?thesis using f r by (simp add: Let_def)
qed

text \<open>A 32-bit base address register of \<open>2 ^ k\<close> bytes: it keeps the bits from \<open>k\<close> on and reads 0 below.\<close>

definition bar_mask :: "nat \<Rightarrow> u64" where
  "bar_mask k = take_bit 32 (- (2 ^ k))"

definition bar32 :: "device \<Rightarrow> u64 \<Rightarrow> nat \<Rightarrow> bool" where
  "bar32 dev a k \<longleftrightarrow> (\<forall>h. dev h 4 a = (case last_write h 4 a of None \<Rightarrow> 0 | Some v \<Rightarrow> v AND bar_mask k))"

lemma bar_mask_facts:
  assumes "4 \<le> k" "k \<le> 31"
  shows "bar_mask k AND NOT 0xF = bar_mask k" "- bar_mask k AND 0xFFFFFFFF = 2 ^ k" "bar_mask k \<noteq> 0"
    "\<not> 0xFFFFFFFF < bar_mask k" "0xFFFFFFFF AND bar_mask k = bar_mask k"
proof -
  have "k \<in> {4,5,6,7,8,9,10,11,12,13,14,15,16,17,18,19,20,21,22,23,24,25,26,27,28,29,30,31}"
    using assms by (simp only: insert_iff empty_iff simp_thms) presburger
  then show "bar_mask k AND NOT 0xF = bar_mask k" "- bar_mask k AND 0xFFFFFFFF = 2 ^ k" "bar_mask k \<noteq> 0"
    "\<not> 0xFFFFFFFF < bar_mask k" "0xFFFFFFFF AND bar_mask k = bar_mask k"
    by (auto simp: bar_mask_def)
qed

lemma bar_mask_bit: "bit (bar_mask k) n \<longleftrightarrow> k \<le> n \<and> n < 32"
  unfolding bar_mask_def minus_exp_eq_not_mask by (auto simp: bit_simps)

lemma bar_type_mask: "4 \<le> k \<Longrightarrow> bar_type (v AND bar_mask k) = 0"
proof -
  assume "4 \<le> k"
  have "\<not> bit (drop_bit 1 (v AND bar_mask k) AND 3) n" for n
    unfolding bit_and_iff bit_drop_bit_eq bit_three bar_mask_bit comp_def using \<open>4 \<le> k\<close> by auto
  then show ?thesis unfolding bar_type_def by (intro bit_word_eqI) simp
qed

lemma bar_read:
  assumes "bar32 dev a k" "last_write (hist s) 4 a = Some v"
  shows "snd (rd dev 4 s a) = v AND bar_mask k"
proof -
  have "take_bit 32 (v AND bar_mask k) = v AND bar_mask k"
    by (rule bit_word_eqI) (auto simp: bit_simps bar_mask_bit)
  then show ?thesis using assms by (simp add: rd_eq bar32_def)
qed

lemma bar_type_read:
  assumes "bar32 dev a k" "4 \<le> k"
  shows "bar_type (snd (rd dev 4 s a)) = 0"
proof (cases "last_write (hist s) 4 a")
  case None
  then show ?thesis using assms by (simp add: rd_eq bar32_def bar_type_def)
next
  case (Some v)
  then show ?thesis using bar_read [OF assms(1) Some] bar_type_mask [OF assms(2)] by simp
qed

definition bar_addr :: "PciDriver \<Rightarrow> nat \<Rightarrow> u64" where
  "bar_addr d which = pci_get_ecam (bus d) (slot d) (function_no d) 0 + (16 + 4 * of_nat which)"

lemma ucast_u8_u16 [simp]: "ucast (ucast (x :: u8) :: u16) = x"
  by (rule bit_word_eqI) (auto simp: bit_simps)

lemma set_bar32:
  assumes "bar32 dev (bar_addr d which) k" "4 \<le> k" "which \<le> 5"
  shows "pci_set_bar dev s (ucast (bus d)) (ucast (slot d)) (ucast (function_no d)) (of_nat which) v
    = wr 4 (fst (rd dev 4 s (bar_addr d which))) (bar_addr d which) v"
proof -
  have "unat (of_nat which :: u16) = which" using assms(3) by (simp add: unat_of_nat)
  then show ?thesis using bar_type_read [OF assms(1,2), of s]
    by (simp add: pci_set_bar_def Let_def split_def ecam_get_def ecam_put_def bar_addr_def)
qed

lemma get_bar32:
  assumes "bar32 dev (bar_addr d which) k" "4 \<le> k" "which \<le> 5"
  shows "pci_get_bar dev s (ucast (bus d)) (ucast (slot d)) (ucast (function_no d)) (of_nat which)
    = rd dev 4 (fst (rd dev 4 s (bar_addr d which))) (bar_addr d which)"
proof -
  have "unat (of_nat which :: u16) = which" "\<not> 5 < (of_nat which :: u16)" using assms(3) by (simp_all add: unat_of_nat word_less_nat_alt)
  then show ?thesis using bar_type_read [OF assms(1,2), of s]
    by (simp add: pci_get_bar_def Let_def split_def ecam_get_def bar_addr_def)
qed

lemma bar_free_bus [simp]:
  "bar_address_free (wr n s a v) = bar_address_free s" "bar_address_free (fst (rd dev n s a)) = bar_address_free s"
  "bar_address_free (say t s) = bar_address_free s"
  by (simp_all add: wr_def emit_def rd_eq say_def)

lemma say_hist [simp]: "hist (say t s) = hist s" by (simp add: say_def)

lemma allocate_bar32:
  assumes "bar32 dev (bar_addr d which) k" "4 \<le> k" "k \<le> 31" "which \<le> 5"
  obtains s' where "pci_allocate_bar dev s d which = (s', 1)"
    and "bar_address_free s' = bar_address_free s + (2 ^ k + 0x10000)"
    and "\<And>n a. last_write (hist s') n a = (if n = 4 \<and> a = bar_addr d which then Some (take_bit 32 (bar_address_free s AND bar_mask k)) else last_write (hist s) n a)"
proof -
  let ?A = "bar_addr d which"
  define s1 where "s1 = wr 4 (fst (rd dev 4 s ?A)) ?A minus1UL"
  have v: "snd (rd dev 4 (fst (rd dev 4 s1 ?A)) ?A) = bar_mask k"
    using bar_read [OF assms(1), of "fst (rd dev 4 s1 ?A)" "0xFFFFFFFF"] bar_mask_facts(5) [OF assms(2,3)] by (simp add: s1_def)
  define s2 where "s2 = fst (rd dev 4 (fst (rd dev 4 s1 ?A)) ?A)"
  let ?s = "say ''Gave PCI Bar the free bar address'' (wr 4 (fst (rd dev 4 s2 ?A)) ?A (bar_address_free s AND bar_mask k))"
  have b: "bar_address_free s2 = bar_address_free s" by (simp add: s2_def s1_def)
  have "pci_allocate_bar dev s d which = (?s\<lparr>bar_address_free := bar_address_free s + (2 ^ k + 0x10000)\<rparr>, 1)"
    using bar_mask_facts [OF assms(2,3)]
    by (simp add: pci_allocate_bar_def set_bar32 [OF assms(1,2,4)] get_bar32 [OF assms(1,2,4)] s1_def [symmetric] s2_def [symmetric]
        Let_def split_def v b)
  then show ?thesis by (rule that) (auto simp: s2_def s1_def)
qed

lemma bar_base_nat:
  assumes "unat x < 2 ^ 32" "k \<le> 31"
  shows "unat (take_bit 32 (x AND bar_mask k)) = unat x div 2 ^ k * 2 ^ k"
proof -
  have b: "\<not> bit x n" if "32 \<le> n" for n by (rule small_bit [OF assms(1) that])
  have "take_bit 32 (x AND bar_mask k) = push_bit k (drop_bit k x)"
    by (rule bit_word_eqI) (use b in \<open>auto simp: bit_simps bar_mask_bit not_le [symmetric]\<close>)
  moreover have "unat x div 2 ^ k * 2 ^ k < 2 ^ 64"
  proof -
    have "unat x div 2 ^ k * 2 ^ k \<le> unat x" by simp
    also have "\<dots> < 2 ^ 64" using assms(1) by simp
    finally show ?thesis .
  qed
  moreover have "take_bit 64 (unat x) = unat x" using assms(1) by (simp add: take_bit_nat_eq_self)
  ultimately show ?thesis
    by (simp only: unsigned_push_bit_eq unsigned_drop_bit_eq) (simp add: push_bit_eq_mult drop_bit_eq_div take_bit_nat_eq_self)
qed


definition demo_bars :: device where
  "demo_bars h n a = (case last_write h n a of None \<Rightarrow> 0
     | Some v \<Rightarrow> v AND (if a = 0x30108014 then bar_mask 14 else bar_mask 12))"

definition demo_driver :: PciDriver where
  "demo_driver = \<lparr>vendor_id = 0x1AF4, device_id = 0x1042, bus = 1, slot = 1, function_no = 0, claim_irq = 0\<rparr>"


text \<open>The isr registers of the five devices the interrupt handler asks.\<close>

definition asked_isrs :: "'a os_scheme \<Rightarrow> u64 set" where
  "asked_isrs s = {isr_cap (pci_entropy_device s), isr_cap (pci_blk_device s), isr (gdev s), isr (ipt s), isr (keyboard s)}"

lemma asked_rd [simp]: "asked_isrs (fst (rd dev n s a)) = asked_isrs s"
  by (simp add: asked_isrs_def rd_eq emit_def)

lemma ask_devices_quiet:
  assumes "\<And>a h. a \<in> asked_isrs s \<Longrightarrow> \<not> bit (dev h 4 a) 0"
  shows "\<exists>s'. ask_devices dev s = Ret s' None \<and> written s' = written s \<and> asked_isrs s' = asked_isrs s"
proof -
  have q: "queue_interrupt dev t a = (fst (rd dev 4 t a), False)" if "a \<in> asked_isrs s" for a and t :: "'a os_scheme"
    using assms that by (simp add: queue_interrupt_def Let_def split_def rd_eq bit_take_bit_iff)
  have f: "pci_blk_device (fst (rd dev n t a)) = pci_blk_device t" "ipt (fst (rd dev n t a)) = ipt t"
    "keyboard (fst (rd dev n t a)) = keyboard t" for n a and t :: "'a os_scheme"
    by (simp_all add: rd_eq emit_def)
  have m: "isr_cap (pci_entropy_device s) \<in> asked_isrs s" "isr_cap (pci_blk_device s) \<in> asked_isrs s" "isr (gdev s) \<in> asked_isrs s"
    "isr (ipt s) \<in> asked_isrs s" "isr (keyboard s) \<in> asked_isrs s" by (simp_all add: asked_isrs_def)
  show ?thesis
    by (simp add: ask_devices_def q [OF m(1)] q [OF m(2)] q [OF m(3)] q [OF m(4)] q [OF m(5)] f)
qed

lemma unclaimed:
  assumes "\<And>a h. a \<in> asked_isrs s \<Longrightarrow> \<not> bit (dev h 4 a) 0"
  shows "\<exists>s'. PciDriver_claim_irq dev s n = Ret s' None \<and> written s' = written s"
proof -
  have "\<exists>s'. claim_from dev n es t = Ret s' None \<and> written s' = written t"
    if "asked_isrs t = asked_isrs s" for es and t :: "'a os_scheme"
    using that
  proof (induction es arbitrary: t)
    case (Cons e es)
    obtain t' where t': "ask_devices dev t = Ret t' None" "written t' = written t" "asked_isrs t' = asked_isrs t"
      using ask_devices_quiet [of t dev] assms Cons.prems by metis
    then show ?case using Cons.IH [of t] Cons.IH [of t'] Cons.prems by (auto simp del: of_nat_unat)
  qed simp
  then show ?thesis by (simp add: PciDriver_claim_irq_def)
qed

text \<open>
  The interrupt handler knows five devices. When none of them has its interrupt bit set, as
  when the Minix or the ext4 disk raised the interrupt, it writes no register, acknowledges
  nothing, and runs off its end without a return value; so those disks' interrupts stay raised.
\<close>

theorem unclaimed_interrupt:
  assumes "\<And>a h. a \<in> asked_isrs s \<Longrightarrow> \<not> bit (dev h 4 a) 0"
  shows "\<exists>s'. PciDriver_claim_irq dev s n = Ret s' None \<and> written s' = written s"
  using assms by (rule unclaimed)

lemma unclaimed_interrupt_witness:
  "\<exists>s'. PciDriver_claim_irq (\<lambda>h n a. if a = 0x40005000 then 1 else 0)
     (demo_os\<lparr>minix_blk_device := demo_loc\<lparr>isr_cap := 0x40005000\<rparr>, d_list_head := [\<lparr>vendorid = 0x1AF4, deviceid = 0x1042, elem_drv = demo_driver\<rparr>]\<rparr>) 34
     = Ret s' None \<and> written s' = []"
proof -
  let ?s = "demo_os\<lparr>minix_blk_device := demo_loc\<lparr>isr_cap := 0x40005000\<rparr>, d_list_head := [\<lparr>vendorid = 0x1AF4, deviceid = 0x1042, elem_drv = demo_driver\<rparr>]\<rparr>"
  have "asked_isrs ?s = {0x40001000}"
    by (simp add: asked_isrs_def demo_os_def Let_def demo_loc_def demo_ipt_def VirtioIptDevice.defs Virt_GPU_Device.defs)
  then show ?thesis
    using unclaimed_interrupt [of ?s "\<lambda>h n a. if a = 0x40005000 then 1 else 0" 34] by (simp add: written_def demo_os_def Let_def)
qed

end
