(* ===== verification/Ecall.thy ===== *)
theory Ecall
  imports Pci SbiHarts
begin

unbundle bit_operations_syntax

text \<open>
  The kernel's side of the firmware calls (src/src/sbi.c) and its driver of the interrupt
  controller (src/src/plic.c). The firmware is a function of the call number, the argument
  registers and its own state, so the kernel can be run on any firmware; \<open>sbi_firmware\<close> is the
  one of SbiHarts, entered by its trap handler as an \<open>ecall\<close> from supervisor mode does.
\<close>

section \<open>Firmware calls\<close>

type_synonym 'f firmware = "u64 \<Rightarrow> u64 list \<Rightarrow> 'f \<Rightarrow> ('f, u64) outcome"

record 'f kern = os +
  fw :: 'f

definition ecall :: "'f firmware \<Rightarrow> ('f, 'a) kern_scheme \<Rightarrow> u64 \<Rightarrow> u64 list \<Rightarrow> (('f, 'a) kern_scheme, u64) outcome" where
  "ecall F s a7 args =
     (case F a7 args (fw s) of
        Ret f a0 \<Rightarrow> Ret (s\<lparr>fw := f\<rparr>) a0
      | Jump f \<Rightarrow> Jump (s\<lparr>fw := f\<rparr>)
      | Hang \<Rightarrow> Hang
      | Undef \<Rightarrow> Undef)"

text \<open>A call whose result is not looked at, and one whose result is cut to a C type.\<close>

definition ecall_void :: "'f firmware \<Rightarrow> ('f, 'a) kern_scheme \<Rightarrow> u64 \<Rightarrow> u64 list \<Rightarrow> (('f, 'a) kern_scheme, unit) outcome" where
  "ecall_void F s a7 args = and_then (ecall F s a7 args) (\<lambda>s _. Ret s ())"

definition ecall_int :: "'f firmware \<Rightarrow> ('f, 'a) kern_scheme \<Rightarrow> u64 \<Rightarrow> u64 list \<Rightarrow> (('f, 'a) kern_scheme, u32) outcome" where
  "ecall_int F s a7 args = and_then (ecall F s a7 args) (\<lambda>s a0. Ret s (ucast a0))"

definition sbi_putchar :: "'f firmware \<Rightarrow> ('f, 'a) kern_scheme \<Rightarrow> u8 \<Rightarrow> (('f, 'a) kern_scheme, unit) outcome" where
  "sbi_putchar F s c = ecall_void F s 10 [ucast c]"

definition sbi_getchar :: "'f firmware \<Rightarrow> ('f, 'a) kern_scheme \<Rightarrow> (('f, 'a) kern_scheme, u8) outcome" where
  "sbi_getchar F s = and_then (ecall F s 11 []) (\<lambda>s a0. Ret s (ucast a0))"

definition sbi_hart_get_status :: "'f firmware \<Rightarrow> ('f, 'a) kern_scheme \<Rightarrow> u32 \<Rightarrow> (('f, 'a) kern_scheme, u32) outcome" where
  "sbi_hart_get_status F s hart = ecall_int F s 1 [ucast hart]"

definition sbi_hart_start ::
  "'f firmware \<Rightarrow> ('f, 'a) kern_scheme \<Rightarrow> u32 \<Rightarrow> u64 \<Rightarrow> u64 \<Rightarrow> (('f, 'a) kern_scheme, u32) outcome" where
  "sbi_hart_start F s hart target scr = ecall_int F s 2 [ucast hart, target, scr]"

text \<open>
  \<open>sbi_hart_stop\<close> moves its variable into \<open>a0\<close> instead of the other way round, so when the call
  comes back the result is what the variable's register held, \<open>stat\<close>.
\<close>

definition sbi_hart_stop :: "'f firmware \<Rightarrow> u32 \<Rightarrow> ('f, 'a) kern_scheme \<Rightarrow> (('f, 'a) kern_scheme, u32) outcome" where
  "sbi_hart_stop F stat s = and_then (ecall F s 3 []) (\<lambda>s _. Ret s stat)"

definition sbi_get_time :: "'f firmware \<Rightarrow> ('f, 'a) kern_scheme \<Rightarrow> (('f, 'a) kern_scheme, u64) outcome" where
  "sbi_get_time F s = ecall F s 5 []"

definition sbi_set_timecmp :: "'f firmware \<Rightarrow> ('f, 'a) kern_scheme \<Rightarrow> u32 \<Rightarrow> u64 \<Rightarrow> (('f, 'a) kern_scheme, unit) outcome" where
  "sbi_set_timecmp F s hart v = ecall_void F s 6 [ucast hart, v]"

definition sbi_add_timercmp :: "'f firmware \<Rightarrow> ('f, 'a) kern_scheme \<Rightarrow> u32 \<Rightarrow> u64 \<Rightarrow> (('f, 'a) kern_scheme, unit) outcome" where
  "sbi_add_timercmp F s hart v = ecall_void F s 7 [ucast hart, v]"

definition sbi_ack_timer :: "'f firmware \<Rightarrow> ('f, 'a) kern_scheme \<Rightarrow> (('f, 'a) kern_scheme, unit) outcome" where
  "sbi_ack_timer F s = ecall_void F s 12 []"

definition sbi_rtc_get_time :: "'f firmware \<Rightarrow> ('f, 'a) kern_scheme \<Rightarrow> (('f, 'a) kern_scheme, u64) outcome" where
  "sbi_rtc_get_time F s = ecall F s 8 []"

definition sbi_whoami :: "'f firmware \<Rightarrow> ('f, 'a) kern_scheme \<Rightarrow> (('f, 'a) kern_scheme, u32) outcome" where
  "sbi_whoami F s = ecall_int F s 9 []"

section \<open>The firmware of SbiHarts behind the calls\<close>

text \<open>
  An \<open>ecall\<close> of hart \<open>me\<close> saves the registers, sets \<open>mcause\<close> to 9 and enters the trap handler;
  registers that are not arguments keep what they held.
\<close>

definition trap_in :: "u32 \<Rightarrow> u64 \<Rightarrow> u64 list \<Rightarrow> sbi \<Rightarrow> sbi" where
  "trap_in me a7 args f =
     f\<lparr>csrs := (csrs f)(mcause := 9, mhartid := ucast me),
       frame_regs := (\<lambda>i. if i = XREG_A7 then a7
         else if XREG_A0 \<le> i \<and> i < XREG_A0 + length args then args ! (i - XREG_A0) else frame_regs f i)\<rparr>"

definition sbi_firmware :: "device \<Rightarrow> u32 \<Rightarrow> sbi firmware" where
  "sbi_firmware dev me a7 args f =
     (case SbiHarts.c_trap_handler dev (trap_in me a7 args f) of
        Ret f _ \<Rightarrow> Ret f (frame_regs f XREG_A0)
      | Jump f \<Rightarrow> Jump f
      | Hang \<Rightarrow> Hang
      | Undef \<Rightarrow> Undef)"

section \<open>The interrupt controller\<close>

definition plic_set_priority :: "'a world_scheme \<Rightarrow> int \<Rightarrow> u8 \<Rightarrow> 'a world_scheme" where
  "plic_set_priority s interrupt_id priority = wr 4 s (PLIC_PRIORITY interrupt_id) (ucast (priority AND 7))"

definition plic_set_threshold :: "'a world_scheme \<Rightarrow> int \<Rightarrow> u8 \<Rightarrow> 'a world_scheme" where
  "plic_set_threshold s hart priority =
     wr 4 s (PLIC_THRESHOLD hart PLIC_MODE_SUPERVISOR) (ucast (priority AND 7))"

definition plic_enable :: "device \<Rightarrow> 'a world_scheme \<Rightarrow> int \<Rightarrow> int \<Rightarrow> 'a world_scheme" where
  "plic_enable dev s hart interrupt_id =
     (let a = enable_word (PLIC_ENABLE hart PLIC_MODE_SUPERVISOR) interrupt_id; (s, v) = rd dev 4 s a
      in wr 4 s a (v OR enable_bit interrupt_id))"

definition plic_disable :: "device \<Rightarrow> 'a world_scheme \<Rightarrow> int \<Rightarrow> int \<Rightarrow> 'a world_scheme" where
  "plic_disable dev s hart interrupt_id =
     (let a = enable_word (PLIC_ENABLE hart PLIC_MODE_SUPERVISOR) interrupt_id; (s, v) = rd dev 4 s a
      in wr 4 s a (v AND NOT (enable_bit interrupt_id)))"

definition plic_claim :: "device \<Rightarrow> 'a world_scheme \<Rightarrow> int \<Rightarrow> 'a world_scheme \<times> u32" where
  "plic_claim dev s hart =
     (let (s, v) = rd dev 4 s (PLIC_CLAIM hart PLIC_MODE_SUPERVISOR) in (s, ucast v))"

definition plic_complete :: "'a world_scheme \<Rightarrow> int \<Rightarrow> u32 \<Rightarrow> 'a world_scheme" where
  "plic_complete s hart n = wr 4 s (PLIC_CLAIM hart PLIC_MODE_SUPERVISOR) (ucast n)"

definition plic_handle_irq :: "device \<Rightarrow> 'a os_scheme \<Rightarrow> int \<Rightarrow> ('a os_scheme, unit) outcome" where
  "plic_handle_irq dev s hart =
     (let (s, n) = plic_claim dev s hart in
      and_then (if n \<in> {32, 33, 34, 35} then and_then (PciDriver_claim_irq dev s (sint n)) (\<lambda>s _. Ret s ())
                else Ret s ())
        (\<lambda>s _. Ret (plic_complete s hart n) ()))"

section \<open>Lemmas\<close>

lemma trap_in_simps [simp]:
  "hart_data (trap_in me a7 args f) = hart_data f" "hart_lock (trap_in me a7 args f) = hart_lock f"
  "csrs (trap_in me a7 args f) mcause = 9" "csrs (trap_in me a7 args f) mhartid = ucast me"
  "con (trap_in me a7 args f) = con f"
  by (simp_all add: trap_in_def)

lemma trap_in_hart [simp]:
  "table_ok (trap_in me a7 args f) = table_ok f" "lock_free (trap_in me a7 args f) h = lock_free f h"
  "hart_of (trap_in me a7 args f) h = hart_of f h"
  by (simp_all add: hart_defs)

lemma trap_in_regs:
  "frame_regs (trap_in me a7 args f) 17 = a7"
  "frame_regs (trap_in me a7 [x] f) 10 = x"
  "frame_regs (trap_in me a7 [x, y, z] f) 10 = x" "frame_regs (trap_in me a7 [x, y, z] f) 11 = y"
  "frame_regs (trap_in me a7 [x, y, z] f) 12 = z"
  by (simp_all add: trap_in_def nth_Cons')

lemma set_a0_fields [simp]:
  "frame_regs (set_a0 s v) 10 = v" "hart_data (set_a0 s v) = hart_data s" "hart_lock (set_a0 s v) = hart_lock s"
  "hist (set_a0 s v) = hist s" "park (set_a0 s v) = park s" "con (set_a0 s v) = con s"
  by (simp_all add: set_a0_def)

lemma csr_write_fields [simp]:
  "frame_regs (CSR_WRITE s c v) = frame_regs s" "hart_data (CSR_WRITE s c v) = hart_data s"
  "hart_lock (CSR_WRITE s c v) = hart_lock s" "hist (CSR_WRITE s c v) = hist s" "park (CSR_WRITE s c v) = park s"
  "con (CSR_WRITE s c v) = con s"
  by (simp_all add: CSR_WRITE_def)

lemma ucast_32 [simp]: "ucast (ucast (x :: u32) :: u64) = x"
  by (rule bit_word_eqI) (auto simp: bit_simps)

lemma ucast_scast_32 [simp]: "ucast (scast (x :: u32) :: u64) = x"
  by (rule bit_word_eqI) (auto simp: bit_simps)

text \<open>What the firmware makes of a call is what \<open>svccall_handle\<close> makes of it.\<close>

lemma firmware_ret:
  assumes "svccall_handle dev (trap_in me a7 args f) me = Ret f' ()"
  shows "\<exists>g. sbi_firmware dev me a7 args f = Ret g (frame_regs f' 10) \<and> hart_data g = hart_data f'
    \<and> hart_lock g = hart_lock f' \<and> hist g = hist f' \<and> park g = park f' \<and> con g = con f'"
  using assms by (simp add: sbi_firmware_def SbiHarts.c_trap_handler_def Let_def)

text \<open>A status call answers the code of the hart's status and changes no hart.\<close>

lemma status_call:
  "\<exists>g. sbi_hart_get_status (sbi_firmware dev me) s h = Ret (s\<lparr>fw := g\<rparr>) (ucast (status_code (hart_get_status (fw s) h)))
     \<and> hart_data g = hart_data (fw s) \<and> hart_lock g = hart_lock (fw s) \<and> hist g = hist (fw s)"
proof -
  have "svccall_handle dev (trap_in me 1 [ucast h] (fw s)) me
      = Ret (set_a0 (trap_in me 1 [ucast h] (fw s)) (status_code (hart_get_status (fw s) h))) ()"
    by (simp add: svccall_handle_def Let_def trap_in_regs hart_get_status_def)
  from firmware_ret [OF this] show ?thesis
    by (auto simp: sbi_hart_get_status_def ecall_int_def ecall_def trap_in_def)
qed

lemma whoami_call:
  "\<exists>g. sbi_whoami (sbi_firmware dev me) s = Ret (s\<lparr>fw := g\<rparr>) me
     \<and> hart_data g = hart_data (fw s) \<and> hart_lock g = hart_lock (fw s) \<and> hist g = hist (fw s) \<and> con g = con (fw s)"
proof -
  have "svccall_handle dev (trap_in me 9 [] (fw s)) me = Ret (set_a0 (trap_in me 9 [] (fw s)) (scast me)) ()"
    by (simp add: svccall_handle_def Let_def trap_in_regs)
  from firmware_ret [OF this] show ?thesis
    by (auto simp: sbi_whoami_def ecall_int_def ecall_def trap_in_def)
qed

text \<open>A start call: the answer and the hart table after it.\<close>

lemma start_call:
  assumes "table_ok (fw s)" "h < 8" "lock_free (fw s) h"
  shows "\<exists>g. sbi_hart_start (sbi_firmware dev me) s h target scr
      = Ret (s\<lparr>fw := g\<rparr>) (if status (hart_of (fw s) h) = HS_STOPPED then 1 else 0)
    \<and> hart_data g = (if status (hart_of (fw s) h) = HS_STOPPED
         then (hart_data (fw s))[unat h := (hart_of (fw s) h)\<lparr>status := HS_STARTING, target_address := target, scratch := scr\<rparr>]
         else hart_data (fw s))
    \<and> hart_lock g = hart_lock (fw s)
    \<and> (\<forall>k. msip g k \<longleftrightarrow> (h = k \<and> status (hart_of (fw s) h) = HS_STOPPED) \<or> msip (fw s) k)"
proof -
  let ?t = "trap_in me 2 [ucast h, target, scr] (fw s)"
  have m: "msip ?t k = msip (fw s) k" for k by (simp add: msip_def trap_in_def)
  show ?thesis
  proof (cases "status (hart_of (fw s) h) = HS_STOPPED")
    case True
    then obtain f where f: "hart_start ?t h target scr = Ret f True" "hart_lock f = hart_lock ?t"
      "hart_data f = (hart_data ?t)[unat h := (hart_of ?t h)\<lparr>status := HS_STARTING, target_address := target, scratch := scr\<rparr>]"
      "\<forall>k. msip f k \<longleftrightarrow> h = k \<or> msip ?t k"
      using hart_start_stopped [of ?t h target scr] assms by auto
    have "svccall_handle dev ?t me = Ret (set_a0 f 1) ()"
      using f(1) by (simp add: svccall_handle_def Let_def trap_in_regs)
    from firmware_ret [OF this] show ?thesis
      using f(2-) True m by (auto simp: sbi_hart_start_def ecall_int_def ecall_def msip_def)
  next
    case False
    then have "hart_start ?t h target scr = Ret ?t False" using hart_start_other [of ?t h] assms by simp
    then have "svccall_handle dev ?t me = Ret (set_a0 ?t 0) ()"
      by (simp add: svccall_handle_def Let_def trap_in_regs)
    from firmware_ret [OF this] show ?thesis
      using False m by (auto simp: sbi_hart_start_def ecall_int_def ecall_def msip_def)
  qed
qed

text \<open>A serial port that is always ready: the firmware's putchar writes the character to it, and nothing else.\<close>

definition ready_port :: "device \<Rightarrow> bool" where
  "ready_port uart \<longleftrightarrow> (\<forall>h. take_bit 8 (uart h 1 (UART + 5)) AND push_bit 6 1 \<noteq> 0)"

lemma byte_kept: "take_bit 8 (ucast (c :: u8) :: u64) = ucast c"
  by (rule bit_word_eqI) (auto simp: bit_simps dest: bit_imp_le_length)

lemma uart_put_ready:
  assumes "ready_port uart"
  shows "\<exists>t'. uart_put uart t c = Some t' \<and> t' = wr 1 (fst (rd uart 1 t (UART + 5))) UART (ucast c)
    \<and> written t' = written t @ [W 1 UART (ucast c)]"
proof -
  have "snd (rd uart 1 t (UART + 5)) AND push_bit 6 1 \<noteq> 0" using assms by (simp add: rd_eq ready_port_def)
  then have "uart_wait uart t = Some (fst (rd uart 1 t (UART + 5)))"
    by (subst uart_wait.simps) (simp add: Let_def split_def del: One_nat_def)
  then show ?thesis
    using written_wr [of 1 "fst (rd uart 1 t (UART + 5))" UART "ucast c"]
    by (simp add: uart_put_def byte_kept written_rd del: One_nat_def)
qed

lemma putchar_call:
  assumes "ready_port uart"
  shows "\<exists>g. sbi_putchar (sbi_firmware uart me) s c = Ret (s\<lparr>fw := g\<rparr>) () \<and> hart_data g = hart_data (fw s)
    \<and> hart_lock g = hart_lock (fw s) \<and> con g = con (fw s) \<and> written g = written (fw s) @ [W 1 UART (ucast c)]"
proof -
  let ?t = "trap_in me 10 [ucast c] (fw s)"
  obtain t' where t': "uart_put uart ?t c = Some t'" "t' = wr 1 (fst (rd uart 1 ?t (UART + 5))) UART (ucast c)"
    "written t' = written ?t @ [W 1 UART (ucast c)]"
    using uart_put_ready [OF assms] by blast
  then have "svccall_handle uart ?t me = Ret t' ()"
    by (simp add: svccall_handle_def Let_def trap_in_regs ucast_back del: One_nat_def)
  from firmware_ret [OF this] obtain g r where g: "sbi_firmware uart me 10 [ucast c] (fw s) = Ret g r"
    "hart_data g = hart_data (fw s)" "hart_lock g = hart_lock (fw s)" "hist g = hist t'" "con g = con (fw s)"
    using t'(2) by (auto simp: rd_eq wr_def emit_fields)
  have "written g = written (fw s) @ [W 1 UART (ucast c)]" using g(4) t'(3) by (simp add: written_def trap_in_def)
  then show ?thesis using g by (auto simp: sbi_putchar_def ecall_void_def ecall_def)
qed

text \<open>The firmware's getchar gives the oldest character of its ring, or 0xff.\<close>

lemma getchar_call:
  assumes "ring_get (con (fw s)) = Some (r, c)"
  shows "\<exists>g. sbi_getchar (sbi_firmware dev me) s = Ret (s\<lparr>fw := g\<rparr>) c \<and> hist g = hist (fw s) \<and> con g = r"
proof -
  have "svccall_handle dev (trap_in me 11 [] (fw s)) me = Ret (set_a0 ((trap_in me 11 [] (fw s))\<lparr>con := r\<rparr>) (ucast c)) ()"
    using assms by (simp add: svccall_handle_def Let_def trap_in_regs)
  from firmware_ret [OF this] show ?thesis
    by (auto simp: sbi_getchar_def ecall_def trap_in_def ucast_back)
qed

section \<open>Properties\<close>

text \<open>
  C7. The kernel's start call does what the firmware's hart table specifies: it answers 1 and turns
  the hart to \<open>HS_STARTING\<close> with the target and scratch value given, its software interrupt
  pending, exactly when the hart was stopped; otherwise it answers 0 and nothing changes. Nothing
  of the kernel's own state changes, and the status call that follows sees the new status.
\<close>

theorem start_call_refines:
  assumes "table_ok (fw s)" "h < 8" "lock_free (fw s) h" "hart_of (fw s) h = d"
  shows "\<exists>g g'. sbi_hart_start (sbi_firmware dev me) s h target scr = Ret (s\<lparr>fw := g\<rparr>) (if status d = HS_STOPPED then 1 else 0)
    \<and> hart_data g = (if status d = HS_STOPPED
         then (hart_data (fw s))[unat h := d\<lparr>status := HS_STARTING, target_address := target, scratch := scr\<rparr>]
         else hart_data (fw s))
    \<and> (\<forall>k. msip g k \<longleftrightarrow> (h = k \<and> status d = HS_STOPPED) \<or> msip (fw s) k)
    \<and> sbi_hart_get_status (sbi_firmware dev me) (s\<lparr>fw := g\<rparr>) h
        = Ret (s\<lparr>fw := g'\<rparr>) (ucast (status_code (if status d = HS_STOPPED then HS_STARTING else status d)))"
proof -
  obtain g where g: "sbi_hart_start (sbi_firmware dev me) s h target scr
      = Ret (s\<lparr>fw := g\<rparr>) (if status d = HS_STOPPED then 1 else 0)"
    "hart_data g = (if status d = HS_STOPPED
         then (hart_data (fw s))[unat h := d\<lparr>status := HS_STARTING, target_address := target, scratch := scr\<rparr>]
         else hart_data (fw s))" "\<forall>k. msip g k \<longleftrightarrow> (h = k \<and> status d = HS_STOPPED) \<or> msip (fw s) k"
    using start_call [OF assms(1-3), of dev me target scr] assms(4) by auto
  have "hart_get_status g h = (if status d = HS_STOPPED then HS_STARTING else status d)"
    using g(2) assms small_hart [OF assms(2)] by (auto simp: hart_get_status_def hart_of_def table_ok_def not_le)
  then obtain g' where "sbi_hart_get_status (sbi_firmware dev me) (s\<lparr>fw := g\<rparr>) h
      = Ret (s\<lparr>fw := g'\<rparr>) (ucast (status_code (if status d = HS_STOPPED then HS_STARTING else status d)))"
    using status_call [of dev me "s\<lparr>fw := g\<rparr>" h] by auto
  then show ?thesis using g by blast
qed

text \<open>A kernel on the firmware as it is after the boot.\<close>

definition demo_kern :: "sbi kern" where
  "demo_kern = os.extend demo_os (kern.fields demo_sbi)"

lemma demo_kern_fw [simp]: "fw demo_kern = demo_sbi"
  by (simp add: demo_kern_def kern.defs os.defs)

lemma start_call_refines_witness:
  "\<exists>g g'. sbi_hart_start (sbi_firmware (\<lambda>_ _ _. 0) 0) demo_kern 3 0x80060000 7 = Ret (demo_kern\<lparr>fw := g\<rparr>) 1
     \<and> sbi_hart_get_status (sbi_firmware (\<lambda>_ _ _. 0) 0) (demo_kern\<lparr>fw := g\<rparr>) 3 = Ret (demo_kern\<lparr>fw := g'\<rparr>) 2"
  using start_call_refines [of demo_kern 3 _ "\<lambda>_ _ _. 0" 0 "0x80060000" 7, OF _ _ _ refl] demo_table(1) demo_hart [of 3]
  by (auto simp: hart_get_status_def)

text \<open>
  Every interrupt claimed is completed with its own number, and nothing else is written: when the
  controller hands out a number that is not one of the four of the PCI bus, or when none of the
  devices asked reports an interrupt of its own.
\<close>

theorem plic_irq_completed:
  assumes "dev (hist s) 4 (PLIC_CLAIM hart PLIC_MODE_SUPERVISOR) = n" "n < 2 ^ 32"
    and "n \<in> {32, 33, 34, 35} \<Longrightarrow> (\<And>a h. a \<in> asked_isrs s \<Longrightarrow> \<not> bit (dev h 4 a) 0)"
  shows "\<exists>s'. plic_handle_irq dev s hart = Ret s' ()
    \<and> written s' = written s @ [W 4 (PLIC_CLAIM hart PLIC_MODE_SUPERVISOR) n]"
proof -
  have t: "take_bit 32 n = n"
    using assms(2) by (simp add: word_unat_eq_iff unsigned_take_bit_eq take_bit_nat_eq_self_iff word_less_nat_alt)
  then have n: "ucast (ucast n :: u32) = n" "take_bit 32 n = n" by (simp_all add: unsigned_ucast_eq)
  let ?s = "fst (rd dev 4 s (PLIC_CLAIM hart PLIC_MODE_SUPERVISOR))"
  have c: "plic_claim dev s hart = (?s, ucast n)"
    using assms(1) n by (simp add: plic_claim_def rd_eq)
  have a: "asked_isrs ?s = asked_isrs s" by simp
  show ?thesis
  proof (cases "ucast n \<in> ({32, 33, 34, 35} :: u32 set)")
    case True
    then have "n \<in> {32, 33, 34, 35}" using n(1) by auto
    then obtain s1 where "PciDriver_claim_irq dev ?s (sint (ucast n :: u32)) = Ret s1 None" "written s1 = written ?s"
      using unclaimed [of ?s dev "sint (ucast n :: u32)"] assms(3) a by metis
    then show ?thesis using c True n by (simp add: plic_handle_irq_def plic_complete_def)
  next
    case False
    then show ?thesis using c n by (simp add: plic_handle_irq_def plic_complete_def)
  qed
qed

lemma plic_irq_completed_witness:
  "\<exists>s'. plic_handle_irq (\<lambda>h n a. if a = PLIC_CLAIM 0 PLIC_MODE_SUPERVISOR then 33 else 0) demo_os 0 = Ret s' ()
     \<and> written s' = [W 4 0x0c201004 33]"
proof -
  have "asked_isrs demo_os = {0x40001000}"
    by (simp add: asked_isrs_def demo_os_def Let_def demo_loc_def demo_ipt_def VirtioIptDevice.defs Virt_GPU_Device.defs)
  then show ?thesis
    using plic_irq_completed [of "\<lambda>h n a. if a = PLIC_CLAIM 0 PLIC_MODE_SUPERVISOR then 33 else 0" demo_os 0 33]
    by (simp add: written_def demo_os_def Let_def PLIC_CLAIM_def PLIC_THRESHOLD_def)
qed

end
