(* ===== verification/Process.thy ===== *)
theory Process
  imports Ecall RbTree
begin

unbundle bit_operations_syntax

text \<open>
  Processes: src/src/include/process.h and src/src/process.c. A process is the structure at the
  address of its page, kept in the map \<open>procs\<close> from addresses to structures; everything a process
  owns beside it (stack, image, page table) is memory of the page allocator. The functions that
  start a process end in \<open>Jump\<close> when the hart leaves the kernel for the process.
\<close>

section \<open>State\<close>

record ProcFrame =
  gpregs :: "nat \<Rightarrow> u64"
  fr_sepc :: u64
  fr_sstatus :: u64
  fr_sie :: u64
  fr_satp :: u64
  fr_sscratch :: u64
  fr_stvec :: u64
  fr_trap_satp :: u64
  fr_trap_stack :: u64

record Process =
  frame :: ProcFrame
  p_state :: P_STATE
  priority :: u64
  quantum :: u16
  q_mult :: u64
  v_runtime :: u64
  start_time :: u64
  sleep_until :: u64
  pid :: u16
  image_pg_num :: u64
  stack_pg_num :: u64
  heap_pg_num :: u64
  ptable :: u64
  image :: u64
  stack :: u64
  p_heap :: u64
  hart_num :: u32
  kmode :: bool

abbreviation (input) P_DEFAULT_CTXTMR :: u64 where "P_DEFAULT_CTXTMR \<equiv> 10000"
abbreviation (input) P_DEFAULT_QUANTUM :: u16 where "P_DEFAULT_QUANTUM \<equiv> 100"
abbreviation (input) P_DEFAULT_STACK_POINTER :: u64 where "P_DEFAULT_STACK_POINTER \<equiv> 0x1cafe0000"
abbreviation (input) XREG_SP :: nat where "XREG_SP \<equiv> 2"
abbreviation (input) KERNEL_ASID :: u64 where "KERNEL_ASID \<equiv> 0xFFFF"
abbreviation (input) SSTATUS_SPP_USER :: u64 where "SSTATUS_SPP_USER \<equiv> 0"
abbreviation (input) SSTATUS_SPP_SUPERVISOR :: u64 where "SSTATUS_SPP_SUPERVISOR \<equiv> push_bit 8 1"
abbreviation (input) SSTATUS_SPIE :: u64 where "SSTATUS_SPIE \<equiv> push_bit 5 1"
abbreviation (input) SSTATUS_FS_INITIAL :: u64 where "SSTATUS_FS_INITIAL \<equiv> push_bit 13 1"
abbreviation (input) SIE_SEIE :: u64 where "SIE_SEIE \<equiv> push_bit 9 1"
abbreviation (input) SIE_STIE :: u64 where "SIE_STIE \<equiv> push_bit 5 1"
abbreviation (input) SIE_SSIE :: u64 where "SIE_SSIE \<equiv> push_bit 1 1"

text \<open>A page of zeros, as a process structure.\<close>

definition zero_process :: Process where
  "zero_process = \<lparr>frame = \<lparr>gpregs = (\<lambda>_. 0), fr_sepc = 0, fr_sstatus = 0, fr_sie = 0, fr_satp = 0, fr_sscratch = 0,
       fr_stvec = 0, fr_trap_satp = 0, fr_trap_stack = 0\<rparr>,
     p_state = P_DEAD, priority = 0, quantum = 0, q_mult = 0, v_runtime = 0, start_time = 0, sleep_until = 0, pid = 0,
     image_pg_num = 0, stack_pg_num = 0, heap_pg_num = 0, ptable = 0, image = 0, stack = 0, p_heap = 0, hart_num = 0,
     kmode = False\<rparr>"

text \<open>The CSRs of supervisor mode the kernel reads and writes, on the hart it runs on.\<close>

datatype scsr = scause | sepc | sscratch | sip | satp

text \<open>
  The symbols of src/asm/spawn.S are chosen by the linker. The three arrays have eight entries, one
  per hart. \<open>sched_tree\<close> is the structure \<open>p_scheduling_tree\<close> points to (Scheduling).
\<close>

record 'f osk = "'f kern" +
  scsrs :: "scsr \<Rightarrow> u64"
  procs :: "u64 \<Rightarrow> Process"
  p_current :: "u64 list"
  p_trap_stacks :: "u64 list"
  main_idle_processes :: "u64 list"
  scheduling_mutex :: u32
  SCHED_MODE :: nat
  sched_tree :: "rbnode option"
  spawn_thread_start :: u64
  spawn_thread_end :: u64
  spawn_trap_start :: u64
  spawn_trap_end :: u64

definition upd_p :: "u64 \<Rightarrow> (Process \<Rightarrow> Process) \<Rightarrow> ('f, 'a) osk_scheme \<Rightarrow> ('f, 'a) osk_scheme" where
  "upd_p p f s = s\<lparr>procs := (procs s)(p := f (procs s p))\<rparr>"

definition SCSR_WRITE :: "('f, 'a) osk_scheme \<Rightarrow> scsr \<Rightarrow> u64 \<Rightarrow> ('f, 'a) osk_scheme" where
  "SCSR_WRITE s c v = s\<lparr>scsrs := (scsrs s)(c := v)\<rparr>"

definition map_pages :: "'a kernel_scheme \<Rightarrow> u64 \<Rightarrow> u64 \<Rightarrow> u64 \<Rightarrow> u64 \<Rightarrow> u64 \<Rightarrow> 'a kernel_scheme option" where
  "map_pages s table v_start p_start bytes bits =
     map_option (\<lambda>m. s\<lparr>mm := m\<rparr>) (mmu_map_multiple (mm s) table v_start p_start bytes bits)"

section \<open>Creation\<close>

text \<open>
  The mappings of the spawn code, the trap code and the trap frame: the end addresses are passed as
  the physical start and the physical addresses as the sizes, as in the code.
\<close>

definition map_spawn :: "('f, 'a) osk_scheme \<Rightarrow> u64 \<Rightarrow> ('f, 'a) osk_scheme option" where
  "map_spawn s p =
     (let pt = ptable (procs s p); phys = translate s (spawn_thread_start s) in
      Option.bind (map_pages s pt (spawn_thread_start s) (spawn_thread_end s) phys PB_EXECUTE) (\<lambda>s.
      let phys = translate s (spawn_trap_start s) in
      Option.bind (map_pages s pt (spawn_trap_start s) (spawn_trap_end s) phys PB_EXECUTE) (\<lambda>s.
      let phys = translate s p in
      map_pages s pt p (p + 576) phys (PB_READ OR PB_WRITE))))"

definition p_init :: "('f, 'a) osk_scheme \<Rightarrow> u64 \<Rightarrow> (('f, 'a) osk_scheme \<times> u64) option" where
  "p_init s p =
     (if p = NULL then Some (s, NULL)
      else
        let s = upd_p p (\<lambda>q. q\<lparr>p_state := P_UNINT\<rparr>) s;
            (s, pt) = znalloc s 1; s = upd_p p (\<lambda>q. q\<lparr>ptable := pt\<rparr>) s;
            (s, st) = znalloc s 1;
            s = upd_p p (\<lambda>q. q\<lparr>stack := st, stack_pg_num := 1, quantum := P_DEFAULT_QUANTUM, hart_num := - 1,
                  priority := 0, q_mult := 1, v_runtime := 0\<rparr>) s
        in Option.bind (map_spawn s p) (\<lambda>s. Some
             (upd_p p (\<lambda>q. q\<lparr>frame := (frame q)
                \<lparr>gpregs := (gpregs (frame q))(XREG_SP := P_DEFAULT_STACK_POINTER + stack_pg_num q * PAGE_SIZE),
                 fr_sie := SIE_SEIE OR SIE_SSIE OR SIE_STIE, fr_sscratch := p, fr_stvec := spawn_trap_start s,
                 fr_trap_satp := SATP (kernel_mmu_table s) KERNEL_ASID\<rparr>\<rparr>) s, p)))"

definition p_new :: "('f, 'a) osk_scheme \<Rightarrow> bool \<Rightarrow> (('f, 'a) osk_scheme \<times> u64) option" where
  "p_new s user =
     (let (s, p) = znalloc s 1; s = (if p = NULL then s else upd_p p (\<lambda>_. zero_process) s) in
      Option.bind (p_init s p) (\<lambda>(s, p).
      if p = NULL then Some (s, NULL)
      else
        let st = stack (procs s p);
            (mode, bits) = (if user then (SSTATUS_SPP_USER, PB_USER OR PB_READ OR PB_WRITE)
                            else (SSTATUS_SPP_SUPERVISOR, PB_READ OR PB_WRITE));
            s = upd_p p (\<lambda>q. q\<lparr>kmode := \<not> user,
                  frame := (frame q)\<lparr>fr_sstatus := SSTATUS_FS_INITIAL OR SSTATUS_SPIE OR mode\<rparr>\<rparr>) s
        in map_option (\<lambda>s. (s, p))
             (map_pages s (ptable (procs s p)) P_DEFAULT_STACK_POINTER
                (P_DEFAULT_STACK_POINTER + stack_pg_num (procs s p) * PAGE_SIZE) st bits)))"

section \<open>Removal\<close>

text \<open>A call into the page allocator or the page tables; \<open>None\<close> never returns or is undefined.\<close>

definition with_hw :: "(machine \<Rightarrow> machine option) \<Rightarrow> 'a kernel_scheme \<Rightarrow> 'a kernel_scheme option" where
  "with_hw f s = map_option (\<lambda>h. s\<lparr>mm := (mm s)\<lparr>hw := h\<rparr>\<rparr>) (f (hw (mm s)))"

definition free_page :: "u64 \<Rightarrow> 'a kernel_scheme \<Rightarrow> 'a kernel_scheme option" where
  "free_page a s = (if a \<noteq> NULL then with_hw (\<lambda>h. cpage_free h a) s else Some s)"

definition p_free :: "('f, 'a) osk_scheme \<Rightarrow> u64 \<Rightarrow> ('f, 'a) osk_scheme option" where
  "p_free s p =
     (if p = NULL then Some s
      else
        let s = upd_p p (\<lambda>q. q\<lparr>p_state := P_DEAD\<rparr>) s in
        Option.bind (free_page (stack (procs s p)) s) (\<lambda>s.
        Option.bind (free_page (image (procs s p)) s) (\<lambda>s.
        Option.bind (if ptable (procs s p) \<noteq> NULL then with_hw (\<lambda>h. mmu_free h (ptable (procs s p))) s else Some s) (\<lambda>s.
        with_hw (\<lambda>h. cpage_free h p) s))))"

section \<open>Starting a process on a hart\<close>

text \<open>
  \<open>None\<close> of \<open>hart_index\<close> is an index outside the arrays of eight. The call has one result when the
  hart is the caller's own: the hart leaves for \<open>spawn_thread_start\<close>.
\<close>

definition hart_index :: "u32 \<Rightarrow> nat option" where
  "hart_index hart = (if hart < 8 then Some (unat hart) else None)"

definition set_running :: "('f, 'a) osk_scheme \<Rightarrow> u64 \<Rightarrow> u32 \<Rightarrow> nat \<Rightarrow> ('f, 'a) osk_scheme" where
  "set_running s p hart h =
     (let s = upd_p p (\<lambda>q. q\<lparr>hart_num := hart, frame := (frame q)\<lparr>fr_trap_stack := p_trap_stacks s ! h\<rparr>\<rparr>) s
      in s\<lparr>p_current := (p_current s)[h := p]\<rparr>)"

definition p_spawn_on_hart :: "'f firmware \<Rightarrow> ('f, 'a) osk_scheme \<Rightarrow> u64 \<Rightarrow> u32 \<Rightarrow> (('f, 'a) osk_scheme, bool) outcome" where
  "p_spawn_on_hart F s p hart =
     and_then (sbi_whoami F s) (\<lambda>s whoami.
     and_then (if hart \<noteq> whoami then and_then (sbi_hart_get_status F s hart) (\<lambda>s st. Ret s (st \<noteq> 1)) else Ret s False)
       (\<lambda>s refuse.
        if refuse then Ret s False
        else if p = NULL then Undef
        else case hart_index hart of
            None \<Rightarrow> Undef
          | Some h \<Rightarrow>
              let s = set_running s p hart h in
              and_then (sbi_add_timercmp F s hart (ucast (quantum (procs s p)) * P_DEFAULT_CTXTMR)) (\<lambda>s _.
              let s = say ''Frame data'' s in
              if whoami = hart then Jump (SCSR_WRITE s sscratch (fr_sscratch (frame (procs s p))))
              else
                let phys = mmu_translate (mem (hw (mm s))) (ptable (procs s p)) (fr_sscratch (frame (procs s p))) in
                if phys = minus1UL then Ret s False
                else and_then (sbi_hart_start F s hart (spawn_thread_start s) phys) (\<lambda>s r. Ret s (r \<noteq> 0)))))"

definition p_spawn :: "'f firmware \<Rightarrow> ('f, 'a) osk_scheme \<Rightarrow> u64 \<Rightarrow> (('f, 'a) osk_scheme, bool) outcome" where
  "p_spawn F s p = and_then (sbi_whoami F s) (\<lambda>s me. p_spawn_on_hart F s p me)"

section \<open>Lemmas\<close>

lemma hart_index_simps [simp]: "hart_index hart = Some h \<longleftrightarrow> hart < 8 \<and> h = unat hart"
  by (auto simp: hart_index_def)

text \<open>A firmware call changes nothing but the firmware.\<close>

lemma mm_fw [simp]: "mm (s\<lparr>fw := g\<rparr>) = mm s" "procs (s'\<lparr>fw := g\<rparr>) = procs s'"
  by simp_all

lemma add_timercmp_call:
  "\<exists>g. sbi_add_timercmp (sbi_firmware dev me) s h v = Ret (s\<lparr>fw := g\<rparr>) ()
     \<and> hart_data g = hart_data (fw s) \<and> hart_lock g = hart_lock (fw s)"
proof -
  let ?t = "trap_in me 7 [ucast h, v] (fw s)"
  have r: "frame_regs ?t 10 = ucast h" "frame_regs ?t 11 = v" by (simp_all add: trap_in_def)
  have "svccall_handle dev ?t me = Ret (clint_add_mtimecmp dev ?t h v) ()"
    by (simp add: svccall_handle_def Let_def trap_in_regs r)
  moreover have "hart_data (clint_add_mtimecmp dev ?t h v) = hart_data (fw s)"
    "hart_lock (clint_add_mtimecmp dev ?t h v) = hart_lock (fw s)"
    by (simp_all add: clint_add_mtimecmp_def clint_get_time_def clint_set_mtimecmp_def wr_def rd_eq Let_def split_def)
  ultimately show ?thesis
    using firmware_ret [of dev me 7 "[ucast h, v]" "fw s"] by (auto simp: sbi_add_timercmp_def ecall_void_def ecall_def)
qed

text \<open>The two calls that set a stopped hart off, on a kernel that has recorded the process as the hart's.\<close>

lemma set_off:
  assumes "table_ok (fw t)" "h < 8" "lock_free (fw t) h" "status (hart_of (fw t) h) = HS_STOPPED"
  shows "\<exists>g g'. sbi_add_timercmp (sbi_firmware dev me) (set_running t p h k) h v = Ret (set_running t p h k\<lparr>fw := g\<rparr>) ()
    \<and> sbi_hart_start (sbi_firmware dev me) (say l (set_running t p h k\<lparr>fw := g\<rparr>)) h target x
      = Ret (say l (set_running t p h k\<lparr>fw := g\<rparr>)\<lparr>fw := g'\<rparr>) 1
    \<and> hart_data g' = (hart_data (fw t))[unat h := (hart_of (fw t) h)\<lparr>status := HS_STARTING, target_address := target, scratch := x\<rparr>]"
proof -
  let ?s = "set_running t p h k"
  have f: "fw ?s = fw t" by (simp add: set_running_def upd_p_def)
  obtain g where g: "sbi_add_timercmp (sbi_firmware dev me) ?s h v = Ret (?s\<lparr>fw := g\<rparr>) ()"
    "hart_data g = hart_data (fw t)" "hart_lock g = hart_lock (fw t)"
    using add_timercmp_call [of dev me ?s h v] f by auto
  let ?s3 = "say l (?s\<lparr>fw := g\<rparr>)"
  have fw3: "fw ?s3 = g" by (simp add: say_def)
  have ok: "table_ok (fw ?s3)" "lock_free (fw ?s3) h" "hart_of (fw ?s3) h = hart_of (fw t) h"
    using assms(1,3) g(2,3) by (simp_all add: hart_defs fw3)
  show ?thesis
    using start_call [OF ok(1) assms(2) ok(2), of dev me target x] ok(3) assms(4) g fw3 by auto
qed

section \<open>Properties\<close>

text \<open>
  C14. Starting a process on another hart. When that hart is stopped, the call answers true; the
  firmware then has the hart starting at the spawn code with the physical address of the
  process's frame, the process is the current one of the hart and has its trap stack. When the
  hart is not stopped the call answers false, and neither the kernel nor the hart table changes.
\<close>

theorem spawn_starts_hart:
  assumes "table_ok (fw s)" "h < 8" "lock_free (fw s) h" "h \<noteq> me" "p \<noteq> NULL"
    and "length (p_current s) = 8"
    and "mmu_translate (mem (hw (mm s))) (ptable (procs s p)) (fr_sscratch (frame (procs s p))) = phys" "phys \<noteq> minus1UL"
  shows "\<exists>s' g. p_spawn_on_hart (sbi_firmware dev me) s p h = Ret s' (status (hart_of (fw s) h) = HS_STOPPED)
    \<and> (if status (hart_of (fw s) h) = HS_STOPPED
       then hart_of (fw s') h = (hart_of (fw s) h)\<lparr>status := HS_STARTING, target_address := spawn_thread_start s, scratch := phys\<rparr>
         \<and> p_current s' = (p_current s)[unat h := p] \<and> hart_num (procs s' p) = h
         \<and> fr_trap_stack (frame (procs s' p)) = p_trap_stacks s ! unat h
       else s' = s\<lparr>fw := g\<rparr> \<and> hart_data g = hart_data (fw s))"
proof -
  let ?F = "sbi_firmware dev me"
  have u: "unat h < 8" using assms(2) by (rule small_hart)
  obtain g1 where g1: "sbi_whoami ?F s = Ret (s\<lparr>fw := g1\<rparr>) me" "hart_data g1 = hart_data (fw s)" "hart_lock g1 = hart_lock (fw s)"
    using whoami_call [of dev me s] by blast
  obtain g2 where g2: "sbi_hart_get_status ?F (s\<lparr>fw := g1\<rparr>) h = Ret (s\<lparr>fw := g2\<rparr>) (ucast (status_code (hart_get_status g1 h)))"
    "hart_data g2 = hart_data g1" "hart_lock g2 = hart_lock g1"
    using status_call [of dev me "s\<lparr>fw := g1\<rparr>" h] by auto
  have st: "hart_get_status g1 h = status (hart_of (fw s) h)" "hart_of g2 h = hart_of (fw s) h"
    using g1(2) g2(2) assms(2) by (auto simp: hart_get_status_def hart_of_def dest: leD)
  show ?thesis
  proof (cases "status (hart_of (fw s) h) = HS_STOPPED")
    case False
    then have "(ucast (status_code (status (hart_of (fw s) h))) :: u32) \<noteq> 1"
      by (cases "status (hart_of (fw s) h)") simp_all
    then show ?thesis
      using False g1 g2 assms(4) st by (auto simp: p_spawn_on_hart_def)
  next
    case True
    let ?s = "set_running (s\<lparr>fw := g2\<rparr>) p h (unat h)"
    have t: "table_ok g2" "lock_free g2 h" using assms(1,3) g1 g2 by (simp_all add: hart_defs)
    obtain g3 g4 where g3: "sbi_add_timercmp ?F ?s h (ucast (quantum (procs ?s p)) * P_DEFAULT_CTXTMR) = Ret (?s\<lparr>fw := g3\<rparr>) ()"
      and g4: "sbi_hart_start ?F (say ''Frame data'' (?s\<lparr>fw := g3\<rparr>)) h (spawn_thread_start s) phys = Ret (say ''Frame data'' (?s\<lparr>fw := g3\<rparr>)\<lparr>fw := g4\<rparr>) 1"
      "hart_data g4 = (hart_data g2)[unat h := (hart_of (fw s) h)\<lparr>status := HS_STARTING, target_address := spawn_thread_start s, scratch := phys\<rparr>]"
      using set_off [of "s\<lparr>fw := g2\<rparr>" h] t assms(2) True st(2) by fastforce
    let ?s3 = "say ''Frame data'' (?s\<lparr>fw := g3\<rparr>)"
    have f: "mm ?s3 = mm s" "ptable (procs ?s3 p) = ptable (procs s p)"
      "fr_sscratch (frame (procs ?s3 p)) = fr_sscratch (frame (procs s p))" "spawn_thread_start ?s3 = spawn_thread_start s"
      by (simp_all add: set_running_def say_def upd_p_def)
    have "p_spawn_on_hart ?F s p h = Ret (?s3\<lparr>fw := g4\<rparr>) True"
      using g1(1) g2(1) g3(1) g4(1) assms st True f
      by (simp add: p_spawn_on_hart_def Let_def hart_index_def)
    moreover have "hart_of (fw (?s3\<lparr>fw := g4\<rparr>)) h = (hart_of (fw s) h)\<lparr>status := HS_STARTING,
        target_address := spawn_thread_start s, scratch := phys\<rparr>"
      using g4(2) t(1) u by (simp add: hart_of_def table_ok_def)
    moreover have "p_current (?s3\<lparr>fw := g4\<rparr>) = (p_current s)[unat h := p]"
      "hart_num (procs (?s3\<lparr>fw := g4\<rparr>) p) = h" "fr_trap_stack (frame (procs (?s3\<lparr>fw := g4\<rparr>) p)) = p_trap_stacks s ! unat h"
      by (simp_all add: set_running_def say_def upd_p_def)
    ultimately show ?thesis using True by auto
  qed
qed

text \<open>
  A kernel with one process, at \<open>0x80002000\<close>, whose page table maps its third gigabyte to itself, and
  harts 1 to 7 stopped.
\<close>

definition demo_process :: Process where
  "demo_process = zero_process\<lparr>p_state := P_UNINT, quantum := 100, ptable := 0x11000,
     frame := (frame zero_process)\<lparr>fr_sscratch := 0x80002000\<rparr>\<rparr>"

definition demo_osk :: "sbi osk" where
  "demo_osk = kern.extend (demo_kern\<lparr>mm := (mm demo_kern)\<lparr>hw := (hw (mm demo_kern))\<lparr>mem := store64 (\<lambda>a. if a = 0x10000 then 3 else 0) 0x11010 0x2000000F\<rparr>\<rparr>\<rparr>)
     (osk.fields (\<lambda>_. 0) (\<lambda>a. if a = 0x80002000 then demo_process else zero_process) (replicate 8 0)
        (replicate 8 0x80009000) (replicate 8 0) 0 0 None 0x80003000 0x80003080 0x80003100 0x80003200)"

lemma demo_osk_simps [simp]:
  "fw demo_osk = demo_sbi" "procs demo_osk 0x80002000 = demo_process" "p_current demo_osk = replicate 8 0"
  "mem (hw (mm demo_osk)) = store64 (\<lambda>a. if a = 0x10000 then 3 else 0) 0x11010 0x2000000F" "spawn_thread_start demo_osk = 0x80003000"
  "p_trap_stacks demo_osk = replicate 8 0x80009000" "main_idle_processes demo_osk = replicate 8 0"
  "scheduling_mutex demo_osk = 0" "sched_tree demo_osk = None"
  by (simp_all add: demo_osk_def demo_kern_def os.defs kern.defs osk.defs)

lemma demo_osk_pages: "snd (znalloc demo_osk 1) = 0x12000"
proof -
  let ?h = "hw (mm demo_osk)"
  have l: "heap_start ?h = 0x10000" "heap_end ?h = 0x28000"
    by (simp_all add: demo_osk_def demo_kern_def os.defs kern.defs osk.defs demo_os_def Let_def demo_kernel_def demo_mmu_def)
  then have bk: "bk_bytes ?h = 24" by (simp add: bk_bytes_def)
  have b: "cur_byte ?h 0 = 3" "cur_byte ?h 1 = 0" "cur_byte ?h 2 = 0"
    by (simp_all add: cur_byte_def l store64_def)
  have "taken ?h 0" "\<not> taken ?h 1" "\<not> taken ?h 2" by (simp_all only: taken_def b taken_bit_def) simp_all
  moreover have "unat (bk_bytes ?h) = 24" by (simp add: bk)
  ultimately have "free_pair ?h 1" "\<not> free_pair ?h 0" by (simp_all add: free_pair_def numeral_2_eq_2)
  then have "first_pair ?h 1" by (auto simp: first_pair_def)
  then show ?thesis
    using cpage_znalloc_small [of 1 ?h 1] by (simp add: znalloc_def page_addr_def bk l split_def Let_def)
qed

lemma demo_translate: "mmu_translate (store64 (\<lambda>a. if a = 0x10000 then 3 else 0) 0x11010 0x2000000F) 0x11000 0x80002000 = 0x80002000"
  by (simp add: mmu_translate_def numeral_3_eq_3 vpns_def pt_entry_def leaf_address_def Let_def)

lemma spawn_starts_hart_witness:
  "\<exists>s'. p_spawn_on_hart (sbi_firmware (\<lambda>_ _ _. 0) 0) demo_osk 0x80002000 3 = Ret s' True
     \<and> target_address (hart_of (fw s') 3) = 0x80003000 \<and> scratch (hart_of (fw s') 3) = 0x80002000"
proof -
  have d: "ptable demo_process = 0x11000" "fr_sscratch (frame demo_process) = 0x80002000"
    by (simp_all add: demo_process_def)
  show ?thesis
    using spawn_starts_hart [of demo_osk 3 0 "0x80002000" "0x80002000" "\<lambda>_ _ _. 0"] demo_table(1) demo_hart [of 3] d demo_translate
    by auto
qed

end
