(* ===== verification/Scheduling.thy ===== *)
theory Scheduling
  imports Process
begin

unbundle bit_operations_syntax

text \<open>
  The scheduler of src/src/p_scheduling.c. It hands \<open>&p_scheduling_tree\<close>, the address of a pointer
  variable, to functions that expect a \<open>RBTree *\<close>; so what they take for the root of the tree is the
  \<open>RBTree\<close> structure itself, read as a node. \<open>sched_tree\<close> is that structure: after \<open>rb_new\<close>, a node
  of zeros. The search for the next process reads \<open>p_scheduling_tree->root\<close>, the first eight bytes
  of the structure, which are the key of the node.
\<close>

section \<open>The tree\<close>

definition zero_node :: rbnode where
  "zero_node = RBNode Black NULLNODE 0 0 NULLNODE"

definition lock_sched :: "('f, 'a) osk_scheme \<Rightarrow> ('f, 'a) osk_scheme option" where
  "lock_sched s = map_option (\<lambda>l. s\<lparr>scheduling_mutex := l\<rparr>) (mutex_spinlock (scheduling_mutex s))"

definition unlock_sched :: "('f, 'a) osk_scheme \<Rightarrow> ('f, 'a) osk_scheme" where
  "unlock_sched s = s\<lparr>scheduling_mutex := mutex_unlock (scheduling_mutex s)\<rparr>"

definition scheduling_init :: "('f, 'a) osk_scheme \<Rightarrow> int \<Rightarrow> ('f, 'a) osk_scheme option" where
  "scheduling_init s mode =
     Option.bind (lock_sched s) (\<lambda>s.
     let s = (if mode = 0 then s\<lparr>SCHED_MODE := 0\<rparr>
              else
                let (h, t) = rb_new (hw (mm s))
                in s\<lparr>SCHED_MODE := 1, mm := (mm s)\<lparr>hw := h\<rparr>, sched_tree := map_option (\<lambda>_. zero_node) t\<rparr>)
     in Some (unlock_sched s))"

text \<open>\<open>tree->root\<close> for \<open>tree = &p_scheduling_tree\<close>, read and written.\<close>

definition sched_root :: "('f, 'a) osk_scheme \<Rightarrow> rbnode" where
  "sched_root s = (case sched_tree s of None \<Rightarrow> NULLNODE | Some n \<Rightarrow> n)"

definition set_sched_root :: "rbnode \<Rightarrow> ('f, 'a) osk_scheme \<Rightarrow> ('f, 'a) osk_scheme" where
  "set_sched_root n s = s\<lparr>sched_tree := (if n = NULLNODE then None else Some n)\<rparr>"

text \<open>\<open>rb_insert\<close> takes a page for the new node when the key is not in the tree.\<close>

definition sched_insert :: "('f, 'a) osk_scheme \<Rightarrow> u64 \<Rightarrow> u64 \<Rightarrow> ('f, 'a) osk_scheme option" where
  "sched_insert s key v =
     (let (s, page) = (if rb_find (Some (sched_root s)) key = None then (let (s, a) = znalloc s 1 in (s, a \<noteq> NULL))
                       else (s, False)) in
      case rb_insert page (Some (sched_root s)) key v of
        Some (Some n) \<Rightarrow> Some (set_sched_root n s)
      | _ \<Rightarrow> None)"

definition sched_delete :: "('f, 'a) osk_scheme \<Rightarrow> u64 \<Rightarrow> ('f, 'a) osk_scheme option" where
  "sched_delete s key =
     (case rb_delete (Some (sched_root s)) key of
        Some (Some n) \<Rightarrow> Some (set_sched_root n s)
      | _ \<Rightarrow> None)"

text \<open>\<open>Hang\<close>: the mutex is taken; \<open>Undef\<close>: a NULL node is dereferenced in the tree.\<close>

definition schedule_add :: "('f, 'a) osk_scheme \<Rightarrow> u64 \<Rightarrow> (('f, 'a) osk_scheme, unit) outcome" where
  "schedule_add s p =
     (case lock_sched s of
        None \<Rightarrow> Hang
      | Some s \<Rightarrow>
          if p = NULL then Undef
          else
            let s = upd_p p (\<lambda>q. q\<lparr>p_state := P_RUNNING\<rparr>) s in
            (case sched_insert s (v_runtime (procs s p)) p of
               None \<Rightarrow> Undef
             | Some s \<Rightarrow> Ret (unlock_sched s) ()))"

definition schedule_remove :: "('f, 'a) osk_scheme \<Rightarrow> u64 \<Rightarrow> (('f, 'a) osk_scheme, unit) outcome" where
  "schedule_remove s p =
     (case lock_sched s of
        None \<Rightarrow> Hang
      | Some s \<Rightarrow>
          if p = NULL then Undef
          else case sched_delete s (v_runtime (procs s p)) of
              None \<Rightarrow> Undef
            | Some s \<Rightarrow> Ret (unlock_sched s) ())"

section \<open>The next process\<close>

text \<open>
  \<open>while (temp && temp->left != NULL) temp = temp->left\<close>. The node \<open>temp\<close> starts from is at an address
  that is really a key; what the memory there holds, read as a node, is the argument \<open>node_at\<close>.
\<close>

fun leftmost :: "rbnode \<Rightarrow> rbnode" where
  "leftmost NULLNODE = NULLNODE"
| "leftmost (RBNode c l k v r) = (if l = NULLNODE then RBNode c l k v r else leftmost l)"

definition take_next :: "'f firmware \<Rightarrow> ('f, 'a) osk_scheme \<Rightarrow> u64 \<Rightarrow> (('f, 'a) osk_scheme, u64) outcome" where
  "take_next F s p =
     and_then (sbi_whoami F s) (\<lambda>s hart.
     and_then (sbi_get_time F s) (\<lambda>s t.
     let s = upd_p p (\<lambda>q. q\<lparr>start_time := t, hart_num := hart\<rparr>) s in
     case sched_delete s (v_runtime (procs s p)) of
       None \<Rightarrow> Undef
     | Some s \<Rightarrow>
         (case hart_index hart of
            None \<Rightarrow> Undef
          | Some h \<Rightarrow> Ret (unlock_sched (s\<lparr>p_current := (p_current s)[h := p]\<rparr>)) p)))"

definition schedule_find_next ::
  "'f firmware \<Rightarrow> (u64 \<Rightarrow> rbnode) \<Rightarrow> ('f, 'a) osk_scheme \<Rightarrow> u32 \<Rightarrow> (('f, 'a) osk_scheme, u64) outcome" where
  "schedule_find_next F node_at s hart =
     (case lock_sched s of
        None \<Rightarrow> Hang
      | Some s \<Rightarrow>
          (case sched_tree s of
             None \<Rightarrow> Undef
           | Some n \<Rightarrow>
               let temp = (if nkey n = NULL then NULLNODE else leftmost (node_at (nkey n))) in
               if temp = NULLNODE then Undef
               else
                 let p = nvalue temp in
                 if p = NULL then Undef
                 else if p_state (procs s p) = P_RUNNING then take_next F s p
                 else Ret (unlock_sched s) NULL))"

definition schedule_hart_check :: "'f firmware \<Rightarrow> ('f, 'a) osk_scheme \<Rightarrow> u32 \<Rightarrow> (('f, 'a) osk_scheme, unit) outcome" where
  "schedule_hart_check F s hart =
     (case hart_index hart of
        None \<Rightarrow> Undef
      | Some h \<Rightarrow>
          let p = p_current s ! h in
          if p = NULL then Ret s ()
          else
            and_then
              (if p \<noteq> main_idle_processes s ! h then
                 and_then (sbi_get_time F s) (\<lambda>s t.
                   schedule_add (upd_p p (\<lambda>q. q\<lparr>v_runtime := v_runtime q + (t - start_time q)\<rparr>) s) p)
               else Ret s ())
              (\<lambda>s _. Ret (upd_p p (\<lambda>q. q\<lparr>frame := (frame q)\<lparr>fr_sepc := scsrs s sepc\<rparr>, hart_num := - 1\<rparr>) s) ()))"

definition schedule_hart_spawn ::
  "'f firmware \<Rightarrow> (u64 \<Rightarrow> rbnode) \<Rightarrow> ('f, 'a) osk_scheme \<Rightarrow> u32 \<Rightarrow> (('f, 'a) osk_scheme, unit) outcome" where
  "schedule_hart_spawn F node_at s hart =
     and_then (schedule_hart_check F s hart) (\<lambda>s _.
     and_then (schedule_find_next F node_at s hart) (\<lambda>s n.
     case hart_index hart of
       None \<Rightarrow> Undef
     | Some h \<Rightarrow>
         let n = (if n = NULL then main_idle_processes s ! h else n)
         in and_then (p_spawn_on_hart F s n hart) (\<lambda>s _. Ret s ())))"

text \<open>\<open>scheduler\<close> calls it for ever; \<open>None\<close> is a round that returns and goes on without end.\<close>

partial_function (option) scheduler_loop ::
  "'f firmware \<Rightarrow> (u64 \<Rightarrow> rbnode) \<Rightarrow> ('f, 'a) osk_scheme \<Rightarrow> u32 \<Rightarrow> (('f, 'a) osk_scheme, unit) outcome option" where
  "scheduler_loop F node_at s hart =
     (case schedule_hart_spawn F node_at s hart of
        Ret s _ \<Rightarrow> scheduler_loop F node_at s hart
      | r \<Rightarrow> Some r)"

definition scheduler :: "'f firmware \<Rightarrow> (u64 \<Rightarrow> rbnode) \<Rightarrow> ('f, 'a) osk_scheme \<Rightarrow> (('f, 'a) osk_scheme, unit) outcome" where
  "scheduler F node_at s =
     and_then (sbi_whoami F s) (\<lambda>s hart.
       case scheduler_loop F node_at s hart of None \<Rightarrow> Hang | Some r \<Rightarrow> r)"

section \<open>Lemmas\<close>

lemma lock_free_sched: "scheduling_mutex s = 0 \<Longrightarrow> lock_sched s = Some (s\<lparr>scheduling_mutex := 1\<rparr>)"
  by (simp add: lock_sched_def mutex_spinlock.simps mutex_trylock_def amoswap_w_def)

lemma unlock_sched_fields [simp]:
  "scheduling_mutex (unlock_sched s) = 0" "sched_tree (unlock_sched s) = sched_tree s" "procs (unlock_sched s) = procs s"
  "sched_root (unlock_sched s) = sched_root s" "p_current (unlock_sched s) = p_current s"
  by (simp_all add: unlock_sched_def mutex_unlock_def amoswap_w_def sched_root_def)

text \<open>The page is not looked at when the key is in the tree.\<close>

lemma insert_known_key: "find_from t k \<noteq> None \<Longrightarrow> insert_this pg t k v = insert_this True t k v"
proof (induction t)
  case (RBNode c l k' w r)
  then show ?case by (auto simp: Let_def split: if_splits cong: Option.bind_cong)
qed simp

lemma sched_root_set [simp]: "sched_root (set_sched_root n s) = n"
  by (simp add: sched_root_def set_sched_root_def)

lemma sched_insert_ok:
  assumes "rb_ok (sched_root s)" "snd (znalloc s 1) \<noteq> NULL"
  shows "\<exists>s'. sched_insert s key v = Some s' \<and> procs s' = procs s \<and> scheduling_mutex s' = scheduling_mutex s
    \<and> fw s' = fw s \<and> scsrs s' = scsrs s \<and> p_current s' = p_current s \<and> rb_ok (sched_root s')
    \<and> (\<forall>x. rb_find (Some (sched_root s')) x = (if x = key then Some v else rb_find (Some (sched_root s)) x))"
proof -
  obtain t' where t': "rb_insert True (Some (sched_root s)) key v = Some (Some t')" "rb_ok t'" "entries t' = put_entry key v (entries (sched_root s))"
    using rb_insert_eq [OF assms(1)] by blast
  have find: "rb_find (Some t') x = (if x = key then Some v else rb_find (Some (sched_root s)) x)" for x
    using rb_find_entries map_of_put [of "entries (sched_root s)" key v] assms(1) t' by (auto simp: rb_ok_def ordered_iff)
  obtain s1 a where z: "znalloc s 1 = (s1, a)" by fastforce
  have s1: "procs s1 = procs s" "scheduling_mutex s1 = scheduling_mutex s" "fw s1 = fw s" "scsrs s1 = scsrs s"
    "p_current s1 = p_current s" "sched_root s1 = sched_root s"
    using z by (auto simp: znalloc_def sched_root_def split: prod.splits)
  have "rb_insert False (Some (sched_root s)) key v = rb_insert True (Some (sched_root s)) key v"
    if "rb_find (Some (sched_root s)) key \<noteq> None"
    using insert_known_key [of "sched_root s" key False v] that by (simp add: rb_insert_def rb_find_def)
  then have "sched_insert s key v = Some (set_sched_root t' (if rb_find (Some (sched_root s)) key = None then s1 else s))"
    using t'(1) z s1(6) assms(2) by (auto simp: sched_insert_def Let_def)
  then show ?thesis using s1 t'(2) find by (auto simp: set_sched_root_def sched_root_def split: if_splits)
qed

text \<open>The structure \<open>rb_new\<close> gave, as long as only the key 0 has been inserted.\<close>

definition only_zero :: "rbnode option \<Rightarrow> bool" where
  "only_zero t \<longleftrightarrow> t = None \<or> (\<exists>v. t = Some (RBNode Black NULLNODE 0 v NULLNODE))"

lemma insert_zero:
  assumes "only_zero (sched_tree s)"
  shows "\<exists>s'. sched_insert s 0 v = Some s' \<and> only_zero (sched_tree s') \<and> procs s' = procs s
    \<and> scheduling_mutex s' = scheduling_mutex s"
proof -
  obtain s1 a where z: "znalloc s 1 = (s1, a)" by fastforce
  have s1: "procs s1 = procs s" "scheduling_mutex s1 = scheduling_mutex s" "sched_root s1 = sched_root s"
    using z by (auto simp: znalloc_def sched_root_def split: prod.splits)
  from assms consider "sched_root s = NULLNODE" | w where "sched_root s = RBNode Black NULLNODE 0 w NULLNODE"
    by (auto simp: only_zero_def sched_root_def)
  then show ?thesis
  proof cases
    case 1
    then show ?thesis
      using z s1 by (auto simp: sched_insert_def rb_find_def rb_insert_def create_node_def set_sched_root_def only_zero_def)
  next
    case 2
    then show ?thesis
      using s1 by (auto simp: sched_insert_def rb_find_def rb_insert_def lean_left_def fix_left_left_def split_four_def
          set_sched_root_def only_zero_def key_compare_def)
  qed
qed

fun add_all :: "('f, 'a) osk_scheme \<Rightarrow> u64 list \<Rightarrow> (('f, 'a) osk_scheme, unit) outcome" where
  "add_all s [] = Ret s ()"
| "add_all s (p # ps) = and_then (schedule_add s p) (\<lambda>s _. add_all s ps)"

lemma add_new_processes:
  assumes "only_zero (sched_tree s)" "scheduling_mutex s = 0" "\<forall>p \<in> set ps. p \<noteq> NULL \<and> v_runtime (procs s p) = 0"
  shows "\<exists>s'. add_all s ps = Ret s' () \<and> only_zero (sched_tree s') \<and> scheduling_mutex s' = 0"
  using assms
proof (induction ps arbitrary: s)
  case (Cons p ps)
  let ?s = "upd_p p (\<lambda>q. q\<lparr>p_state := P_RUNNING\<rparr>) (s\<lparr>scheduling_mutex := 1\<rparr>)"
  have st: "sched_tree ?s = sched_tree s" "v_runtime (procs ?s q) = v_runtime (procs s q)" for q
    by (simp_all add: upd_p_def)
  obtain s1 where s1: "sched_insert ?s 0 p = Some s1" "only_zero (sched_tree s1)" "procs s1 = procs ?s"
    using insert_zero [of ?s p] Cons.prems(1) st by auto
  have "schedule_add s p = Ret (unlock_sched s1) ()"
    using Cons.prems s1(1) st(2) [of p] by (simp add: schedule_add_def lock_free_sched)
  moreover obtain s' where "add_all (unlock_sched s1) ps = Ret s' ()" "only_zero (sched_tree s')" "scheduling_mutex s' = 0"
    using Cons.IH [of "unlock_sched s1"] Cons.prems(3) s1 st(2) by auto
  ultimately show ?case by simp
qed simp

section \<open>Properties\<close>

text \<open>
  C28. The first search for a process dereferences NULL. After \<open>scheduling_init\<close>, adding any new
  processes (their virtual run time is 0) succeeds, but the next process is looked for at the address
  that is the key of the structure, and that is 0.
\<close>

theorem first_schedule_faults:
  assumes "scheduling_init s0 1 = Some s1" "\<forall>p \<in> set ps. p \<noteq> NULL \<and> v_runtime (procs s1 p) = 0"
  shows "\<exists>s2. add_all s1 ps = Ret s2 () \<and> schedule_find_next F node_at s2 hart = Undef"
proof -
  have "only_zero (sched_tree s1)" "scheduling_mutex s1 = 0"
    using assms(1) by (auto simp: scheduling_init_def Let_def only_zero_def zero_node_def split: prod.splits bind_splits)
  then obtain s2 where s2: "add_all s1 ps = Ret s2 ()" "only_zero (sched_tree s2)" "scheduling_mutex s2 = 0"
    using add_new_processes assms(2) by blast
  have "schedule_find_next F node_at s2 hart = Undef"
    using s2 by (auto simp: schedule_find_next_def lock_free_sched only_zero_def)
  then show ?thesis using s2(1) by blast
qed

lemma first_schedule_faults_witness:
  "\<exists>s1 s2. scheduling_init demo_osk 1 = Some s1 \<and> add_all s1 [0x80002000] = Ret s2 ()
     \<and> schedule_find_next (sbi_firmware (\<lambda>_ _ _. 0) 0) (\<lambda>_. NULLNODE) s2 0 = Undef"
proof -
  obtain s1 where s1: "scheduling_init demo_osk 1 = Some s1" "procs s1 = procs demo_osk"
    by (simp add: scheduling_init_def lock_free_sched Let_def split_def)
  then have "v_runtime (procs s1 0x80002000) = 0" by (simp add: demo_process_def zero_process_def)
  then show ?thesis using s1 first_schedule_faults [of demo_osk s1 "[0x80002000]"] by auto
qed

text \<open>
  A process that exits or sleeps is put back into the tree as a running one. Whatever state the
  process on the hart was given before (\<open>P_DEAD\<close> by exit, \<open>P_SLEEPING\<close> by sleep), the check that every
  rescheduling begins with makes it \<open>P_RUNNING\<close>, charges it the time since it started, and enters it in
  the tree under its new run time, where a search finds it; the mutex is free again.
\<close>

theorem dead_process_requeued:
  assumes "hart < 8" "p_current s ! unat hart = p" "p \<noteq> NULL" "p \<noteq> main_idle_processes s ! unat hart"
    and "scheduling_mutex s = 0" "rb_ok (sched_root s)" "snd (znalloc s 1) \<noteq> NULL"
    and "sbi_get_time F (upd_p p (\<lambda>q. q\<lparr>p_state := st\<rparr>) s) = Ret (upd_p p (\<lambda>q. q\<lparr>p_state := st\<rparr>) s\<lparr>fw := g\<rparr>) t"
  shows "\<exists>s'. schedule_hart_check F (upd_p p (\<lambda>q. q\<lparr>p_state := st\<rparr>) s) hart = Ret s' ()
    \<and> p_state (procs s' p) = P_RUNNING \<and> hart_num (procs s' p) = - 1 \<and> scheduling_mutex s' = 0
    \<and> v_runtime (procs s' p) = v_runtime (procs s p) + (t - start_time (procs s p))
    \<and> rb_find (Some (sched_root s')) (v_runtime (procs s' p)) = Some p"
proof -
  let ?k = "v_runtime (procs s p) + (t - start_time (procs s p))"
  let ?s1 = "upd_p p (\<lambda>q. q\<lparr>v_runtime := v_runtime q + (t - start_time q)\<rparr>) (upd_p p (\<lambda>q. q\<lparr>p_state := st\<rparr>) s\<lparr>fw := g\<rparr>)"
  let ?s2 = "upd_p p (\<lambda>q. q\<lparr>p_state := P_RUNNING\<rparr>) (?s1\<lparr>scheduling_mutex := 1\<rparr>)"
  have f: "sched_root ?s2 = sched_root s" "v_runtime (procs ?s2 p) = ?k" "p_state (procs ?s2 p) = P_RUNNING"
    "scheduling_mutex ?s1 = 0" using assms(5) by (simp_all add: upd_p_def sched_root_def)
  have z: "snd (znalloc ?s2 1) \<noteq> NULL" using assms(7) by (simp add: znalloc_def upd_p_def split_def Let_def)
  obtain s3 where s3: "sched_insert ?s2 ?k p = Some s3" "procs s3 = procs ?s2"
    "\<forall>x. rb_find (Some (sched_root s3)) x = (if x = ?k then Some p else rb_find (Some (sched_root ?s2)) x)"
    using sched_insert_ok [of ?s2 ?k p] assms(6) f(1) z by auto
  have "schedule_add ?s1 p = Ret (unlock_sched s3) ()"
    using s3(1) assms(3) f by (simp add: schedule_add_def lock_free_sched)
  then have c: "schedule_hart_check F (upd_p p (\<lambda>q. q\<lparr>p_state := st\<rparr>) s) hart
      = Ret (upd_p p (\<lambda>q. q\<lparr>frame := (frame q)\<lparr>fr_sepc := scsrs (unlock_sched s3) sepc\<rparr>, hart_num := - 1\<rparr>) (unlock_sched s3)) ()"
    using assms(1-4,8) by (simp add: schedule_hart_check_def hart_index_def upd_p_def)
  show ?thesis
    unfolding c using s3(2,3) f by (auto simp: upd_p_def sched_root_def unlock_sched_def mutex_unlock_def amoswap_w_def)
qed

lemma dead_process_requeued_witness:
  "\<exists>s'. schedule_hart_check (\<lambda>a7 args f. Ret f 500)
       (upd_p 0x80002000 (\<lambda>q. q\<lparr>p_state := P_DEAD\<rparr>) (demo_osk\<lparr>p_current := replicate 8 0x80002000\<rparr>)) 2 = Ret s' ()
     \<and> p_state (procs s' 0x80002000) = P_RUNNING \<and> rb_find (Some (sched_root s')) 500 = Some 0x80002000"
proof -
  let ?s = "demo_osk\<lparr>p_current := replicate 8 0x80002000\<rparr>"
  have z: "snd (znalloc ?s 1) \<noteq> NULL" using demo_osk_pages by (simp add: znalloc_def split_def Let_def)
  have t: "sbi_get_time (\<lambda>a7 args f. Ret f 500) (upd_p 0x80002000 (\<lambda>q. q\<lparr>p_state := P_DEAD\<rparr>) ?s)
      = Ret (upd_p 0x80002000 (\<lambda>q. q\<lparr>p_state := P_DEAD\<rparr>) ?s\<lparr>fw := demo_sbi\<rparr>) 500"
    by (simp add: sbi_get_time_def ecall_def upd_p_def demo_osk_def demo_kern_def os.defs kern.defs osk.defs)
  have r: "rb_ok (sched_root ?s)" "v_runtime demo_process = 0" "start_time demo_process = 0"
    by (simp_all add: sched_root_def rb_ok_def demo_process_def zero_process_def)
  show ?thesis
    using dead_process_requeued [OF _ _ _ _ _ r(1) z t, of 2] r(2,3) by auto
qed

end
