(* ===== verification/Trap.thy ===== *)
theory Trap
  imports Scheduling
begin

unbundle bit_operations_syntax

text \<open>
  The kernel's trap handler (src/src/trap.c) and the system calls (src/src/syscall.c). The saved
  registers of the process that trapped are the \<open>gpregs\<close> at the address in \<open>sscratch\<close>.
\<close>

section \<open>System calls\<close>

abbreviation (input) EINVAL :: u64 where "EINVAL \<equiv> 22"
abbreviation (input) VIRT_TIMER_FREQ :: u64 where "VIRT_TIMER_FREQ \<equiv> 100000"
abbreviation (input) NUM_SYSCALLS :: u64 where "NUM_SYSCALLS \<equiv> 5"

definition XREG :: "('f, 'a) osk_scheme \<Rightarrow> u64 \<Rightarrow> nat \<Rightarrow> u64" where
  "XREG s scr x = gpregs (frame (procs s scr)) x"

definition set_XREG :: "u64 \<Rightarrow> nat \<Rightarrow> u64 \<Rightarrow> ('f, 'a) osk_scheme \<Rightarrow> ('f, 'a) osk_scheme" where
  "set_XREG scr x v s = upd_p scr (\<lambda>q. q\<lparr>frame := (frame q)\<lparr>gpregs := (gpregs (frame q))(x := v)\<rparr>\<rparr>) s"

definition syscall_exit ::
  "'f firmware \<Rightarrow> (u64 \<Rightarrow> rbnode) \<Rightarrow> ('f, 'a) osk_scheme \<Rightarrow> u32 \<Rightarrow> (('f, 'a) osk_scheme, unit) outcome" where
  "syscall_exit F node_at s hart =
     (case hart_index hart of
        None \<Rightarrow> Undef
      | Some h \<Rightarrow>
          let p = p_current s ! h; s = (if p \<noteq> NULL then upd_p p (\<lambda>q. q\<lparr>p_state := P_DEAD\<rparr>) s else s)
          in schedule_hart_spawn F node_at s hart)"

definition syscall_putchar :: "'f firmware \<Rightarrow> ('f, 'a) osk_scheme \<Rightarrow> u64 \<Rightarrow> (('f, 'a) osk_scheme, unit) outcome" where
  "syscall_putchar F s scr = sbi_putchar F s (ucast (XREG s scr XREG_A0))"

definition syscall_getchar :: "'f firmware \<Rightarrow> ('f, 'a) osk_scheme \<Rightarrow> u64 \<Rightarrow> (('f, 'a) osk_scheme, unit) outcome" where
  "syscall_getchar F s scr = and_then (sbi_getchar F s) (\<lambda>s c. Ret (set_XREG scr XREG_A0 (ucast c) s) ())"

definition syscall_yield ::
  "'f firmware \<Rightarrow> (u64 \<Rightarrow> rbnode) \<Rightarrow> ('f, 'a) osk_scheme \<Rightarrow> u32 \<Rightarrow> (('f, 'a) osk_scheme, unit) outcome" where
  "syscall_yield F node_at s hart = schedule_hart_spawn F node_at s hart"

definition syscall_sleep ::
  "'f firmware \<Rightarrow> (u64 \<Rightarrow> rbnode) \<Rightarrow> ('f, 'a) osk_scheme \<Rightarrow> u32 \<Rightarrow> u64 \<Rightarrow> (('f, 'a) osk_scheme, unit) outcome" where
  "syscall_sleep F node_at s hart scr =
     (case hart_index hart of
        None \<Rightarrow> Undef
      | Some h \<Rightarrow>
          let current = p_current s ! h in
          and_then
            (if current = NULL then Ret (say ''Error!'' s) ()
             else and_then (sbi_get_time F s) (\<lambda>s tm.
               Ret (upd_p current (\<lambda>q. q\<lparr>sleep_until := XREG s scr XREG_A0 * VIRT_TIMER_FREQ + tm, p_state := P_SLEEPING\<rparr>) s) ()))
            (\<lambda>s _. schedule_hart_spawn F node_at s hart))"

text \<open>The number is compared as a signed one with the size of the table only from above.\<close>

definition syscall_handle ::
  "'f firmware \<Rightarrow> (u64 \<Rightarrow> rbnode) \<Rightarrow> ('f, 'a) osk_scheme \<Rightarrow> u32 \<Rightarrow> u64 \<Rightarrow> u64 \<Rightarrow> (('f, 'a) osk_scheme, unit) outcome" where
  "syscall_handle F node_at s hart epc scr =
     (let s = SCSR_WRITE s sepc (epc + 4); a7 = XREG s scr XREG_A7 in
      if NUM_SYSCALLS \<le>s a7 then Ret (set_XREG scr XREG_A0 (- EINVAL) s) ()
      else if a7 = 0 then syscall_exit F node_at s hart
      else if a7 = 1 then syscall_putchar F s scr
      else if a7 = 2 then syscall_getchar F s scr
      else if a7 = 3 then syscall_yield F node_at s hart
      else if a7 = 4 then syscall_sleep F node_at s hart scr
      else Undef)"

section \<open>The trap handler\<close>

definition os_c_trap_handler ::
  "device \<Rightarrow> 'f firmware \<Rightarrow> (u64 \<Rightarrow> rbnode) \<Rightarrow> ('f, 'a) osk_scheme \<Rightarrow> (('f, 'a) osk_scheme, unit) outcome" where
  "os_c_trap_handler dev F node_at s =
     (let cause = scsrs s scause; scr = scsrs s sscratch; epc = scsrs s sepc in
      and_then (sbi_whoami F s) (\<lambda>s hart.
      let is_async = bit cause 63; cause = cause AND 0xff in
      if is_async then
        if cause = 1 then Ret (SCSR_WRITE (say ''SSIP'' s) sip 0) ()
        else if cause = 5 then
          and_then (sbi_ack_timer F s) (\<lambda>s _.
          and_then (schedule_hart_spawn F node_at s hart) (\<lambda>s _.
            plic_handle_irq dev s (sint hart)))
        else if cause = 9 then plic_handle_irq dev s (sint hart)
        else Ret (say ''OS: Unhandled Asynchronous interrupt'' s) ()
      else if cause = 8 then syscall_handle F node_at s hart epc scr
      else Hang))"

section \<open>Lemmas\<close>

lemma XREG_fields [simp]:
  "XREG (SCSR_WRITE s c v) scr x = XREG s scr x" "XREG (s\<lparr>fw := g\<rparr>) scr x = XREG s scr x"
  "XREG (set_XREG scr x v s) a y = (if a = scr \<and> y = x then v else XREG s a y)"
  "scsrs (set_XREG scr x v s) = scsrs s" "fw (set_XREG scr x v s) = fw s" "scsrs (SCSR_WRITE s c v) = (scsrs s)(c := v)"
  "fw (SCSR_WRITE s c v) = fw s"
  by (simp_all add: XREG_def set_XREG_def upd_p_def SCSR_WRITE_def)

text \<open>An environment call of a process reaches \<open>syscall_handle\<close>.\<close>

lemma trap_syscall:
  assumes "scsrs s scause = 8" "sbi_whoami F s = Ret (s\<lparr>fw := g\<rparr>) me"
  shows "os_c_trap_handler dev F node_at s = syscall_handle F node_at (s\<lparr>fw := g\<rparr>) me (scsrs s sepc) (scsrs s sscratch)"
  using assms by (simp add: os_c_trap_handler_def Let_def)

lemma fw_SCSR_WRITE: "SCSR_WRITE s c v\<lparr>fw := g\<rparr> = SCSR_WRITE (s\<lparr>fw := g\<rparr>) c v"
  by (simp add: SCSR_WRITE_def)

lemma low_byte: "ucast (ucast (x :: u64) :: u8) = take_bit 8 x"
  by (rule bit_word_eqI) (auto simp: bit_simps)

text \<open>The \<open>putchar\<close> and \<open>getchar\<close> calls of a process, with the firmware of SbiHarts below the kernel.\<close>

lemma putchar_trap:
  assumes "scsrs s scause = 8" "scsrs s sscratch = scr" "XREG s scr XREG_A7 = 1" "ready_port uart"
  shows "\<exists>g. os_c_trap_handler dev (sbi_firmware uart me) node_at s = Ret (SCSR_WRITE (s\<lparr>fw := g\<rparr>) sepc (scsrs s sepc + 4)) ()
    \<and> con g = con (fw s) \<and> written g = written (fw s) @ [W 1 UART (take_bit 8 (XREG s scr XREG_A0))]"
proof -
  obtain g where g: "sbi_whoami (sbi_firmware uart me) s = Ret (s\<lparr>fw := g\<rparr>) me" "hist g = hist (fw s)" "con g = con (fw s)"
    using whoami_call [of uart me s] by auto
  let ?c = "ucast (XREG s scr XREG_A0) :: u8"
  obtain g' where g': "sbi_putchar (sbi_firmware uart me) (SCSR_WRITE (s\<lparr>fw := g\<rparr>) sepc (scsrs s sepc + 4)) ?c
      = Ret ((SCSR_WRITE (s\<lparr>fw := g\<rparr>) sepc (scsrs s sepc + 4))\<lparr>fw := g'\<rparr>) ()"
    "written g' = written g @ [W 1 UART (ucast ?c)]" "con g' = con g"
    using putchar_call [of uart me "SCSR_WRITE (s\<lparr>fw := g\<rparr>) sepc (scsrs s sepc + 4)" ?c] assms(4) by auto
  have w: "written g' = written (fw s) @ [W 1 UART (take_bit 8 (XREG s scr XREG_A0))]"
    using g(2) g'(2) by (simp add: written_def low_byte)
  show ?thesis
    using assms(3) g(1,3) g'(1,3) w
    by (auto simp: trap_syscall [OF assms(1) g(1)] assms(2) syscall_handle_def Let_def syscall_putchar_def fw_SCSR_WRITE word_sle_eq)
qed

lemma getchar_trap:
  assumes "scsrs s scause = 8" "scsrs s sscratch = scr" "XREG s scr XREG_A7 = 2" "ring_get (con (fw s)) = Some (r, c)"
  shows "\<exists>g. os_c_trap_handler dev (sbi_firmware uart me) node_at s
      = Ret (set_XREG scr XREG_A0 (ucast c) (SCSR_WRITE (s\<lparr>fw := g\<rparr>) sepc (scsrs s sepc + 4))) ()
    \<and> con g = r \<and> written g = written (fw s)"
proof -
  obtain g where g: "sbi_whoami (sbi_firmware uart me) s = Ret (s\<lparr>fw := g\<rparr>) me" "hist g = hist (fw s)" "con g = con (fw s)"
    using whoami_call [of uart me s] by auto
  obtain g' where g': "sbi_getchar (sbi_firmware uart me) (SCSR_WRITE (s\<lparr>fw := g\<rparr>) sepc (scsrs s sepc + 4))
      = Ret ((SCSR_WRITE (s\<lparr>fw := g\<rparr>) sepc (scsrs s sepc + 4))\<lparr>fw := g'\<rparr>) c" "hist g' = hist g" "con g' = r"
    using getchar_call [of "SCSR_WRITE (s\<lparr>fw := g\<rparr>) sepc (scsrs s sepc + 4)" r c uart me] assms(4) g(3) by auto
  show ?thesis
    using assms(3) g(1,2) g'
    by (auto simp: trap_syscall [OF assms(1) g(1)] assms(2) syscall_handle_def Let_def syscall_getchar_def fw_SCSR_WRITE word_sle_eq written_def)
qed

section \<open>Properties\<close>

text \<open>
  C29. A system call whose number is not in the table. From 5 up the process gets \<open>-EINVAL\<close> in its saved
  \<open>a0\<close> and resumes behind the call; no other saved register, no process and no device is touched. A
  negative number passes the test and indexes the table outside its bounds.
\<close>

theorem syscall_rejects:
  assumes "scsrs s scause = 8" "sbi_whoami F s = Ret (s\<lparr>fw := g\<rparr>) me"
    and "scsrs s sscratch = scr" "XREG s scr XREG_A7 = n"
  shows "if 5 \<le>s n then os_c_trap_handler dev F node_at s
       = Ret (set_XREG scr XREG_A0 (- 22) (SCSR_WRITE (s\<lparr>fw := g\<rparr>) sepc (scsrs s sepc + 4))) ()
     else n <s 0 \<longrightarrow> os_c_trap_handler dev F node_at s = Undef"
proof -
  have "n <s 0 \<Longrightarrow> n \<notin> {0, 1, 2, 3, 4}" by (auto simp: word_sless_alt)
  then show ?thesis
    using assms by (auto simp: trap_syscall [OF assms(1,2)] syscall_handle_def Let_def)
qed

lemma syscall_rejects_witness:
  "\<exists>s'. os_c_trap_handler (\<lambda>_ _ _. 0) (\<lambda>a7 args f. Ret f 0) (\<lambda>_. NULLNODE)
       (set_XREG 0x80002000 17 5 (demo_osk\<lparr>scsrs := (\<lambda>_. 0)(scause := 8, sscratch := 0x80002000, sepc := 0x400100)\<rparr>)) = Ret s' ()
     \<and> XREG s' 0x80002000 10 = - 22 \<and> scsrs s' sepc = 0x400104"
proof -
  let ?s = "set_XREG 0x80002000 17 5 (demo_osk\<lparr>scsrs := (\<lambda>_. 0)(scause := 8, sscratch := 0x80002000, sepc := 0x400100)\<rparr>)"
  have w: "sbi_whoami (\<lambda>a7 args f. Ret f 0) ?s = Ret (?s\<lparr>fw := demo_sbi\<rparr>) 0"
    by (simp add: sbi_whoami_def ecall_int_def ecall_def set_XREG_def upd_p_def demo_osk_def demo_kern_def os.defs kern.defs osk.defs)
  show ?thesis
    using syscall_rejects [OF _ w, of "0x80002000" 5 "\<lambda>_ _ _. 0" "\<lambda>_. NULLNODE"] by (simp add: word_sle_eq)
qed

text \<open>
  From a process to the serial port. With the firmware of SbiHarts below the kernel and a port that is
  ready, the \<open>putchar\<close> call of a process returns to it behind the call; the one thing written to a device is
  the low byte of its \<open>a0\<close>, to the port's data register, and its saved registers are as they were.
\<close>

theorem putchar_reaches_port:
  assumes "scsrs s scause = 8" "scsrs s sscratch = scr" "XREG s scr XREG_A7 = 1"
    and "steady uart 1 (UART + 5) st" "st AND push_bit 6 1 \<noteq> 0"
  shows "\<exists>g. os_c_trap_handler dev (sbi_firmware uart me) node_at s = Ret (SCSR_WRITE (s\<lparr>fw := g\<rparr>) sepc (scsrs s sepc + 4)) ()
    \<and> written g = written (fw s) @ [W 1 UART (take_bit 8 (XREG s scr XREG_A0))]"
  using putchar_trap [of s scr uart dev me node_at] assms by (auto simp: ready_port_def steady_def)

lemma putchar_reaches_port_witness:
  "\<exists>g. os_c_trap_handler (\<lambda>_ _ _. 0) (sbi_firmware (\<lambda>_ _ _. 0x60) 0) (\<lambda>_. NULLNODE)
       (set_XREG 0x80002000 10 0x141 (set_XREG 0x80002000 17 1 (demo_osk\<lparr>scsrs := (\<lambda>_. 0)(scause := 8, sscratch := 0x80002000, sepc := 0x400100)\<rparr>)))
     = Ret (SCSR_WRITE ((set_XREG 0x80002000 10 0x141 (set_XREG 0x80002000 17 1
         (demo_osk\<lparr>scsrs := (\<lambda>_. 0)(scause := 8, sscratch := 0x80002000, sepc := 0x400100)\<rparr>)))\<lparr>fw := g\<rparr>) sepc 0x400104) ()
     \<and> written g = [W 1 UART 0x41]"
  using putchar_reaches_port [of "set_XREG 0x80002000 10 0x141 (set_XREG 0x80002000 17 1 (demo_osk\<lparr>scsrs := (\<lambda>_. 0)(scause := 8, sscratch := 0x80002000, sepc := 0x400100)\<rparr>))"
      "0x80002000" "\<lambda>_ _ _. 0x60" "0x60" "\<lambda>_ _ _. 0" 0 "\<lambda>_. NULLNODE"]
  by (simp add: steady_def written_def demo_sbi_def)

end
