(* ===== verification/UserMem.thy ===== *)
theory UserMem
  imports Process
begin

unbundle bit_operations_syntax

text \<open>
  Copies between the kernel and the address space of a process (src/src/uaccess.c). The loops are
  functions to \<open>option\<close>: \<open>None\<close> is a loop that never ends. The theorem says what each call does, for
  every input: it returns only when nothing is to be done, when the first byte is not mapped, or when
  the user address is not the start of a page.
\<close>

section \<open>uaccess.c\<close>

definition till_next_page :: "u64 \<Rightarrow> u32 \<Rightarrow> u32" where
  "till_next_page user_addr i = ucast (ALIGN_UP_POT (user_addr + scast i) PAGE_SIZE - user_addr - scast i)"

text \<open>The two loops differ in the direction of the copy: \<open>copy m phys i n\<close> is the call of \<open>memcpy\<close>.\<close>

partial_function (option) user_copy ::
  "(mem \<Rightarrow> u64 \<Rightarrow> u32 \<Rightarrow> int \<Rightarrow> mem) \<Rightarrow> u64 \<Rightarrow> u64 \<Rightarrow> u32 \<Rightarrow> mem \<Rightarrow> u32 \<Rightarrow> (mem \<times> u32) option" where
  "user_copy copy table user_addr bytes m i =
     (if i <s bytes then
        let till = till_next_page user_addr i; phys = mmu_translate m table (user_addr + scast i) in
        if phys = minus1UL then Some (m, i)
        else user_copy copy table user_addr bytes (copy m phys i (sint (if bytes - i <s till then bytes - i else till))) (i + till)
      else Some (m, i))"

definition copy_from_user :: "mem \<Rightarrow> u64 \<Rightarrow> Process \<Rightarrow> u64 \<Rightarrow> u32 \<Rightarrow> (mem \<times> u32) option" where
  "copy_from_user m kernel_addr p user_addr bytes =
     user_copy (\<lambda>m phys i n. memcpy m (kernel_addr + scast i) phys n) (ptable p) user_addr bytes m 0"

definition copy_to_user :: "mem \<Rightarrow> Process \<Rightarrow> u64 \<Rightarrow> u64 \<Rightarrow> u32 \<Rightarrow> (mem \<times> u32) option" where
  "copy_to_user m p user_addr kernel_addr bytes =
     user_copy (\<lambda>m phys i n. memcpy m phys (kernel_addr + scast i) n) (ptable p) user_addr bytes m 0"

section \<open>Lemmas\<close>

lemma ucast_minus_32: "ucast (x - y :: u64) = (ucast x - ucast y :: u32)"
  by (simp add: word_uint_eq_iff uint_word_ariths unsigned_ucast_eq take_bit_eq_mod mod_mod_cancel mod_diff_eq)

text \<open>The distance to the end of the page: 0 at its start.\<close>

lemma till_offset:
  "till_next_page ua i = (if aligned 12 (ua + scast i) then 0 else 4096 - ucast (take_bit 12 (ua + scast i)))"
proof -
  obtain b where b: "aligned 12 b" "ua + scast i = b + take_bit 12 (ua + scast i)" "unat (take_bit 12 (ua + scast i)) < 4096"
    by (rule page_split)
  define t where "t = take_bit 12 (ua + scast i)"
  have x: "ua + scast i = b + t" using b(2) by (simp add: t_def)
  have "ALIGN_UP_POT (ua + scast i) PAGE_SIZE - ua - scast i = (if t = 0 then b else b + 4096) - (b + t)"
    unfolding ALIGN_UP_POT_def diff_diff_eq x using round_up [OF b(1), of t] b(3)
    by (simp add: t_def [symmetric] add.commute [of 4095])
  also have "\<dots> = (if t = 0 then 0 else 4096 - t)" by simp
  finally show ?thesis by (simp add: till_next_page_def aligned_def ucast_minus_32 flip: t_def)
qed

text \<open>What is left to copy is positive.\<close>

lemma left_to_copy: "0 \<le> sint i \<Longrightarrow> sint i < sint bytes \<Longrightarrow> sint (bytes - i :: u32) = sint bytes - sint i"
proof -
  assume a: "0 \<le> sint i" "sint i < sint bytes"
  have "bytes - i = of_int (sint bytes - sint i)" by simp
  moreover have "sint (of_int (sint bytes - sint i) :: u32) = sint bytes - sint i"
    using a sint_lt [of bytes] by (intro sint_of_int32) simp_all
  ultimately show ?thesis by simp
qed

text \<open>At the start of a mapped page the loop makes no progress.\<close>

lemma user_copy_stuck:
  assumes "\<And>phys i. copy m phys i 0 = m" "0 \<le> sint i" "i <s bytes" "aligned 12 (ua + scast i)"
    and "mmu_translate m table (ua + scast i) \<noteq> minus1UL"
  shows "user_copy copy table ua bytes m i = None"
proof (rule ccontr)
  assume "user_copy copy table ua bytes m i \<noteq> None"
  then obtain r where r: "user_copy copy table ua bytes m i = Some r" by blast
  have l: "0 < sint (bytes - i)" using left_to_copy [of i bytes] assms(2,3) by (simp add: word_sless_alt)
  have "\<not> (table' = table \<and> ua' = ua \<and> bytes' = bytes \<and> m' = m \<and> i' = i)"
    if "user_copy copy table' ua' bytes' m' i' = Some r" for table' ua' bytes' m' i' r
    by (rule user_copy.raw_induct [where P = "\<lambda>c table' ua' bytes' m' i' r.
          c = copy \<longrightarrow> \<not> (table' = table \<and> ua' = ua \<and> bytes' = bytes \<and> m' = m \<and> i' = i)", rule_format, OF _ that refl])
      (use assms l in \<open>auto simp: till_offset word_sless_alt Let_def split: if_splits\<close>)
  then show False using r by blast
qed

lemma till_pos:
  assumes "\<not> aligned 12 ua"
  obtains k where "till_next_page ua 0 = of_nat k" "0 < k" "k < 4096" "k = 4096 - unat (take_bit 12 ua)"
proof -
  have "unat (take_bit 12 ua) < 4096" using page_split [of ua] by blast
  moreover have "0 < unat (take_bit 12 ua)" using assms by (simp add: aligned_def unat_gt_0)
  moreover have "(4096 - ucast (take_bit 12 ua) :: u32) = of_nat (4096 - unat (take_bit 12 ua))"
    using calculation(1) by (simp add: of_nat_diff)
  ultimately show ?thesis using assms that [of "4096 - unat (take_bit 12 ua)"] by (simp add: till_offset)
qed

lemma sum_4096: "ua = b + t \<Longrightarrow> ua + (4096 - t) = b + (4096 :: u64)"
  by simp

text \<open>Where the first page ends, the next one begins.\<close>

lemma next_page:
  assumes "\<not> aligned 12 ua"
  shows "aligned 12 (ua + scast (till_next_page ua 0))" "0 < sint (till_next_page ua 0)"
proof -
  obtain k where k: "till_next_page ua 0 = of_nat k" "0 < k" "k < 4096" "k = 4096 - unat (take_bit 12 ua)"
    using till_pos [OF assms] .
  have s: "sint (of_nat k :: u32) = int k" using sint_of_int32 [of "int k"] k(3) by simp
  then show "0 < sint (till_next_page ua 0)" unfolding k(1) using k(2) by simp
  obtain b where b: "aligned 12 b" "ua = b + take_bit 12 ua" "unat (take_bit 12 ua) < 4096" by (rule page_split)
  have "scast (of_nat k :: u32) = (of_nat k :: u64)" using s by (simp add: scast_eq)
  also have "\<dots> = 4096 - take_bit 12 ua" using k(4) b(3) by (simp add: of_nat_diff)
  finally have "scast (till_next_page ua 0) = 4096 - take_bit 12 ua" using k(1) by simp
  then have "ua + scast (till_next_page ua 0) = b + 4096" using sum_4096 [OF b(2)] by simp
  then show "aligned 12 (ua + scast (till_next_page ua 0))"
    using aligned_add [OF b(1), of 4096] by (simp add: aligned_def take_bit_eq_mod)
qed

text \<open>The first round and, when the address is not the start of a page, the end.\<close>

lemma user_copy_result:
  assumes "\<And>m phys i. copy m phys i 0 = m" "till = till_next_page ua 0"
    and "m' = copy m (mmu_translate m table ua) 0 (sint (if bytes <s till then bytes else till))"
  shows "user_copy copy table ua bytes m 0 =
    (if sint bytes \<le> 0 \<or> mmu_translate m table ua = minus1UL then Some (m, 0)
     else if aligned 12 ua then None
     else if bytes \<le>s till \<or> mmu_translate m' table (ua + scast till) = minus1UL then Some (m', till)
     else None)"
proof (cases "sint bytes \<le> 0 \<or> mmu_translate m table ua = minus1UL")
  case True
  then show ?thesis by (subst user_copy.simps) (auto simp: word_sless_alt Let_def)
next
  case False
  show ?thesis
  proof (cases "aligned 12 ua")
    case True
    then show ?thesis using False user_copy_stuck [of copy m 0 bytes ua table] assms(1) by (simp add: word_sless_alt)
  next
    case not: False
    have first: "user_copy copy table ua bytes m 0 = user_copy copy table ua bytes m' till"
      using False assms(2,3) by (subst user_copy.simps) (simp add: word_sless_alt Let_def)
    have t: "aligned 12 (ua + scast till)" "0 < sint till" using next_page [OF not] assms(2) by simp_all
    show ?thesis
    proof (cases "bytes \<le>s till \<or> mmu_translate m' table (ua + scast till) = minus1UL")
      case True
      then have "user_copy copy table ua bytes m' till = Some (m', till)"
        by (subst user_copy.simps) (auto simp: word_sless_alt word_sle_eq Let_def)
      then show ?thesis using first False not True by simp
    next
      case stuck: False
      then have "user_copy copy table ua bytes m' till = None"
        using user_copy_stuck [of copy m' till bytes ua table] assms(1) t by (simp add: word_sless_alt word_sle_eq)
      then show ?thesis using first False not stuck by simp
    qed
  qed
qed

section \<open>Properties\<close>

text \<open>
  C13. What the copies between kernel and process do, for every input: nothing when there is nothing to copy
  or the address is not mapped; from an address that is the start of a page they never return; from
  any other address they copy at most up to the end of the page and return the distance to
  that end, even where it is more than was asked for, and with more to copy they return only
  when the next page is not mapped.
\<close>

theorem user_copies:
  "let translated = (\<lambda>m. mmu_translate m (ptable p)); till = till_next_page ua 0;
       n = sint (if bytes <s till then bytes else till);
       fetched = memcpy m ka (translated m ua) n; stored = memcpy m (translated m ua) ka n
   in copy_from_user m ka p ua bytes =
        (if sint bytes \<le> 0 \<or> translated m ua = minus1UL then Some (m, 0)
         else if aligned 12 ua then None
         else if bytes \<le>s till \<or> translated fetched (ua + scast till) = minus1UL then Some (fetched, till) else None)
      \<and> copy_to_user m p ua ka bytes =
        (if sint bytes \<le> 0 \<or> translated m ua = minus1UL then Some (m, 0)
         else if aligned 12 ua then None
         else if bytes \<le>s till \<or> translated stored (ua + scast till) = minus1UL then Some (stored, till) else None)"
  unfolding copy_from_user_def copy_to_user_def Let_def
  by (subst (1 2) user_copy_result [OF _ refl refl]) (simp_all add: memcpy_def)

end
