(* ===== verification/Elf.thy ===== *)
theory Elf
  imports Process
begin

unbundle bit_operations_syntax

text \<open>
  The program loader: src/src/elf.c with the two structures of src/src/include/elf.h it reads. A
  structure in memory is read as a record of its fields at the offsets the ABI gives them. The
  theorems say which files are refused, which range of addresses is taken for the image, and what
  becomes of a file with one loadable segment.
\<close>

section \<open>The structures\<close>

record Elf64_Ehdr =
  e_ident :: "u8 list"
  e_type :: u16
  e_machine :: u16
  e_version :: u32
  e_entry :: u64
  e_phoff :: u64
  e_shoff :: u64
  e_flags :: u32
  e_ehsize :: u16
  e_phentsize :: u16
  e_phnum :: u16
  e_shentsize :: u16
  e_shnum :: u16
  e_shstrndx :: u16

definition ehdr_at :: "mem \<Rightarrow> u64 \<Rightarrow> Elf64_Ehdr" where
  "ehdr_at m a =
     \<lparr>e_ident = List.map (\<lambda>k. m (a + of_nat k)) [0..<16], e_type = load16 m (a + 16), e_machine = load16 m (a + 18),
      e_version = load32 m (a + 20), e_entry = load64 m (a + 24), e_phoff = load64 m (a + 32), e_shoff = load64 m (a + 40),
      e_flags = load32 m (a + 48), e_ehsize = load16 m (a + 52), e_phentsize = load16 m (a + 54),
      e_phnum = load16 m (a + 56), e_shentsize = load16 m (a + 58), e_shnum = load16 m (a + 60), e_shstrndx = load16 m (a + 62)\<rparr>"

record Elf64_Phdr =
  p_type :: u32
  p_flags :: u32
  p_offset :: u64
  p_vaddr :: u64
  p_paddr :: u64
  p_filesz :: u64
  p_memsz :: u64
  p_align :: u64

definition phdr_at :: "mem \<Rightarrow> u64 \<Rightarrow> Elf64_Phdr" where
  "phdr_at m a =
     \<lparr>p_type = load32 m a, p_flags = load32 m (a + 4), p_offset = load64 m (a + 8), p_vaddr = load64 m (a + 16),
      p_paddr = load64 m (a + 24), p_filesz = load64 m (a + 32), p_memsz = load64 m (a + 40), p_align = load64 m (a + 48)\<rparr>"

abbreviation (input) EM_RISCV :: u16 where "EM_RISCV \<equiv> 243"
abbreviation (input) ET_EXEC :: u16 where "ET_EXEC \<equiv> 2"
abbreviation (input) PT_LOAD :: u32 where "PT_LOAD \<equiv> 1"

definition ELFMAG :: "u8 list" where
  "ELFMAG = [0x7f, 0x45, 0x4c, 0x46]"

section \<open>elf.c\<close>

text \<open>The header test, and the first loop: \<open>(adr_start, adr_end, check_load)\<close> over the program headers.\<close>

definition elf_refused :: "Elf64_Ehdr \<Rightarrow> bool" where
  "elf_refused e \<longleftrightarrow> take 4 (e_ident e) \<noteq> ELFMAG \<or> e_machine e \<noteq> EM_RISCV \<or> e_type e \<noteq> ET_EXEC"

definition phdrs :: "mem \<Rightarrow> u64 \<Rightarrow> u16 \<Rightarrow> Elf64_Phdr list" where
  "phdrs m phdr n = List.map (\<lambda>i. phdr_at m (phdr + 56 * of_nat i)) [0..<unat n]"

definition range_step :: "u64 \<times> u64 \<times> bool \<Rightarrow> Elf64_Phdr \<Rightarrow> u64 \<times> u64 \<times> bool" where
  "range_step = (\<lambda>(adr_start, adr_end, check_load) ph.
     if p_type ph = PT_LOAD then
       if \<not> check_load then (p_vaddr ph, p_vaddr ph, True)
       else if p_vaddr ph < adr_start then (p_vaddr ph, adr_end, check_load)
       else if adr_end < p_vaddr ph + p_memsz ph then (adr_start, p_vaddr ph + p_memsz ph, check_load)
       else (adr_start, adr_end, check_load)
     else (adr_start, adr_end, check_load))"

definition load_range :: "Elf64_Phdr list \<Rightarrow> u64 \<times> u64 \<times> bool" where
  "load_range = foldl range_step (0, 0, False)"

definition image_pages :: "u64 \<Rightarrow> u64 \<Rightarrow> u64" where
  "image_pages adr_start adr_end = (ALIGN_UP_POT adr_end PAGE_SIZE - ALIGN_DOWN_POT adr_start PAGE_SIZE) div PAGE_SIZE"

text \<open>
  The second loop reads the headers again from the memory it writes; \<open>e_phnum\<close> has 16 bits, so it ends.
\<close>

lemma phnum_less: "unat (e_phnum e) < 2 ^ 16"
proof -
  have "unat (e_phnum e) < 2 ^ LENGTH(16)" by (rule unsigned_less)
  then show ?thesis by simp
qed

function load_segments :: "mem \<Rightarrow> u64 \<Rightarrow> u64 \<Rightarrow> u64 \<Rightarrow> u64 \<Rightarrow> nat \<Rightarrow> mem" where
  "load_segments m elf phdr img adr_start i =
     (if i < unat (e_phnum (ehdr_at m elf)) then
        let ph = phdr_at m (phdr + 56 * of_nat i) in
        load_segments
          (if p_type ph = PT_LOAD then memcpy m (img + p_vaddr ph - adr_start) (elf + p_offset ph) (sint (p_memsz ph)) else m)
          elf phdr img adr_start (Suc i)
      else m)"
  by pat_completeness auto
termination
proof (relation "measure (\<lambda>(m, elf, phdr, img, adr_start, i). 2 ^ 16 - i)")
  fix m elf i
  assume "i < unat (e_phnum (ehdr_at m elf))"
  then show "((m', elf, phdr, img, adr_start, Suc i), (m, elf, phdr, img, adr_start, i))
      \<in> measure (\<lambda>(m, elf, phdr, img, adr_start, i). 2 ^ 16 - i)" for m' phdr img adr_start
    using phnum_less [of "ehdr_at m elf"] by simp
qed simp

declare load_segments.simps [simp del]

definition elf_load :: "('f, 'a) osk_scheme \<Rightarrow> u64 \<Rightarrow> u64 \<Rightarrow> (('f, 'a) osk_scheme, bool) outcome" where
  "elf_load s p elf =
     (let m = mem (hw (mm s)); ehdr = ehdr_at m elf; phdr = elf + e_phoff ehdr in
      if elf_refused ehdr then Ret s False
      else
        let (adr_start, adr_end, check_load) = load_range (phdrs m phdr (e_phnum ehdr)) in
        if \<not> check_load then Ret s False
        else if p = NULL then Undef
        else
          let n = image_pages adr_start adr_end;
              s = upd_p p (\<lambda>q. q\<lparr>frame := (frame q)\<lparr>fr_sepc := e_entry ehdr\<rparr>, image_pg_num := n\<rparr>) s;
              (s, img) = znalloc s (sint (ucast n :: u32));
              s = upd_p p (\<lambda>q. q\<lparr>image := img\<rparr>) s;
              s = s\<lparr>mm := (mm s)\<lparr>hw := (hw (mm s))\<lparr>mem := load_segments (mem (hw (mm s))) elf phdr img adr_start 0\<rparr>\<rparr>\<rparr>
          in case map_pages s (ptable (procs s p)) adr_start (adr_start + n * PAGE_SIZE) img
                    (PB_USER OR PB_READ OR PB_WRITE OR PB_EXECUTE) of
               None \<Rightarrow> Hang
             | Some s \<Rightarrow> Ret s True)"

section \<open>Lemmas\<close>

text \<open>Only the loadable headers matter for the range.\<close>

definition loadable :: "Elf64_Phdr \<Rightarrow> bool" where
  "loadable ph \<longleftrightarrow> p_type ph = PT_LOAD"

definition seg_end :: "Elf64_Phdr \<Rightarrow> u64" where
  "seg_end ph = p_vaddr ph + p_memsz ph"

lemma range_filter: "foldl range_step r phs = foldl range_step r (filter loadable phs)"
  by (induction phs arbitrary: r) (auto simp: range_step_def loadable_def split: prod.splits)

text \<open>Segments in ascending order that do not wrap around.\<close>

definition laid_out :: "Elf64_Phdr list \<Rightarrow> bool" where
  "laid_out phs \<longleftrightarrow> sorted_wrt (\<lambda>x y. p_vaddr x \<le> p_vaddr y \<and> seg_end x \<le> seg_end y) phs \<and> (\<forall>x \<in> set phs. p_vaddr x \<le> seg_end x)"

lemma range_loadable:
  assumes "\<forall>ph \<in> set ls. loadable ph" "ls \<noteq> []"
  shows "\<exists>a e. load_range ls = (a, e, True) \<and> a \<in> p_vaddr ` set ls \<and> (\<forall>x \<in> set ls. a \<le> p_vaddr x)
    \<and> (laid_out ls \<longrightarrow> a = p_vaddr (hd ls) \<and> e = (if length ls = 1 then p_vaddr (hd ls) else seg_end (last ls)))"
  using assms
proof (induction ls rule: rev_induct)
  case (snoc ph ls)
  show ?case
  proof (cases "ls = []")
    case True
    then show ?thesis using snoc.prems by (simp add: load_range_def range_step_def loadable_def)
  next
    case False
    then obtain a e where ae: "load_range ls = (a, e, True)" "a \<in> p_vaddr ` set ls" "\<forall>x \<in> set ls. a \<le> p_vaddr x"
      "laid_out ls \<longrightarrow> a = p_vaddr (hd ls) \<and> e = (if length ls = 1 then p_vaddr (hd ls) else seg_end (last ls))"
      using snoc by auto
    have step: "load_range (ls @ [ph]) = (if p_vaddr ph < a then (p_vaddr ph, e, True)
        else if e < seg_end ph then (a, seg_end ph, True) else (a, e, True))"
      using ae(1) snoc.prems by (simp add: load_range_def range_step_def loadable_def seg_end_def)
    have lo: "a = p_vaddr (hd ls) \<and> \<not> p_vaddr ph < a \<and> e \<le> seg_end ph" if "laid_out (ls @ [ph])"
    proof -
      have l: "laid_out ls" "\<forall>x \<in> set ls. p_vaddr x \<le> p_vaddr ph \<and> seg_end x \<le> seg_end ph \<and> p_vaddr x \<le> seg_end x"
        using that by (auto simp: laid_out_def sorted_wrt_append)
      then have "a = p_vaddr (hd ls)" "e \<le> seg_end (last ls)"
        using ae(4) False by (auto simp: length_Suc_conv)
      moreover have "p_vaddr (hd ls) \<le> p_vaddr ph" "seg_end (last ls) \<le> seg_end ph"
        using l(2) hd_in_set [OF False] last_in_set [OF False] by blast+
      ultimately show ?thesis by (simp add: not_less)
    qed
    have len: "length (ls @ [ph]) \<noteq> 1" "hd (ls @ [ph]) = hd ls" "last (ls @ [ph]) = ph" using False by simp_all
    consider "p_vaddr ph < a" | "\<not> p_vaddr ph < a" "e < seg_end ph" | "\<not> p_vaddr ph < a" "\<not> e < seg_end ph" by blast
    then show ?thesis
    proof cases
      case 1
      then have "\<forall>x \<in> set ls. p_vaddr ph \<le> p_vaddr x" using ae(3) by force
      then show ?thesis using 1 step lo by auto
    next
      case 2
      then show ?thesis using step ae(2,3) lo len by auto
    next
      case 3
      then have "laid_out (ls @ [ph]) \<longrightarrow> e = seg_end ph" using lo by auto
      then show ?thesis using 3 step ae(2,3) lo len by auto
    qed
  qed
qed simp

text \<open>The second loop passes over headers that are not loadable.\<close>

lemma load_skip:
  assumes "i \<le> k" "k \<le> unat (e_phnum (ehdr_at m elf))" "\<forall>j \<in> {i..<k}. \<not> loadable (phdr_at m (phdr + 56 * of_nat j))"
  shows "load_segments m elf phdr img a i = load_segments m elf phdr img a k"
  using assms
proof (induction "k - i" arbitrary: i)
  case (Suc d)
  then have "i < unat (e_phnum (ehdr_at m elf))" "\<not> loadable (phdr_at m (phdr + 56 * of_nat i))" by auto
  then have "load_segments m elf phdr img a i = load_segments m elf phdr img a (Suc i)"
    by (subst load_segments.simps) (simp add: loadable_def Let_def)
  also have "\<dots> = load_segments m elf phdr img a k" using Suc by (intro Suc.hyps) auto
  finally show ?case .
qed simp

lemma load_end: "load_segments m elf phdr img a (unat (e_phnum (ehdr_at m elf))) = m"
  by (subst load_segments.simps) simp

lemma load_one:
  assumes "filter loadable (phdrs m phdr n) = [ph]" "n = e_phnum (ehdr_at m elf)"
    and "m' = memcpy m (img + p_vaddr ph - a) (elf + p_offset ph) (sint (p_memsz ph))"
    and "ehdr_at m' elf = ehdr_at m elf" "phdrs m' phdr n = phdrs m phdr n"
  shows "load_segments m elf phdr img a 0 = m'"
proof -
  let ?P = "phdrs m phdr n" and ?ph = "\<lambda>m j. phdr_at m (phdr + 56 * of_nat j)"
  have len: "length ?P = unat n" by (simp add: phdrs_def)
  have nth: "?P ! j = ?ph m j" "?P ! j = ?ph m' j" if "j < unat n" for j
    using that assms(5) unfolding phdrs_def by (simp, metis (lifting) that add_0 diff_zero length_upt nth_map nth_upt)
  obtain us vs where uv: "?P = us @ ph # vs" "filter loadable us = []" "filter loadable vs = []" "loadable ph"
    using assms(1) by (auto simp: filter_eq_Cons_iff)
  let ?k = "length us"
  have k: "?k < unat n" using uv(1) len by simp
  have before: "\<forall>j \<in> {0..<?k}. \<not> loadable (?ph m j)"
  proof
    fix j assume "j \<in> {0..<?k}"
    then have "?P ! j \<in> set us" "j < unat n" using uv(1) k by (simp_all add: nth_append)
    then show "\<not> loadable (?ph m j)" using uv(2) nth by (auto simp: filter_empty_conv)
  qed
  have after: "\<forall>j \<in> {Suc ?k..<unat n}. \<not> loadable (?ph m' j)"
  proof
    fix j assume j: "j \<in> {Suc ?k..<unat n}"
    then have v: "?P ! j = vs ! (j - Suc ?k)" and "j - Suc ?k < length vs"
      using uv(1) len [symmetric] by (auto simp: nth_append nth_Cons')
    then have "vs ! (j - Suc ?k) \<in> set vs" by simp
    then show "\<not> loadable (?ph m' j)" using v uv(3) nth(2) [of j] j by (simp add: filter_empty_conv)
  qed
  have "load_segments m elf phdr img a 0 = load_segments m elf phdr img a ?k"
    using before k assms(2) by (intro load_skip) auto
  also have "\<dots> = load_segments m' elf phdr img a (Suc ?k)"
    using k uv(1,4) nth(1) [OF k] assms(2,3) by (subst load_segments.simps) (simp add: loadable_def Let_def)
  also have "\<dots> = load_segments m' elf phdr img a (unat n)"
    using after k assms(2,4) by (intro load_skip) auto
  also have "\<dots> = m'" using load_end [of m' elf] assms(2,4) by simp
  finally show ?thesis .
qed

lemma range_empty: "filter loadable phs = [] \<Longrightarrow> load_range phs = (0, 0, False)"
  by (simp add: load_range_def range_filter [of _ phs])

lemma range_found:
  assumes "filter loadable phs \<noteq> []"
  shows "\<exists>a e. load_range phs = (a, e, True) \<and> a \<in> p_vaddr ` set (filter loadable phs) \<and> (\<forall>x \<in> set (filter loadable phs). a \<le> p_vaddr x)
    \<and> (laid_out (filter loadable phs) \<longrightarrow> a = p_vaddr (hd (filter loadable phs))
        \<and> e = (if length (filter loadable phs) = 1 then p_vaddr (hd (filter loadable phs)) else seg_end (last (filter loadable phs))))"
  using range_loadable [of "filter loadable phs"] assms range_filter [of _ phs]
  by (simp add: load_range_def)

lemma map_no_pages: "map_pages s pt v p 0 bits = Some s"
  by (simp add: map_pages_def mmu_map_multiple_def map_multiple_from.simps)

lemma no_image_pages: "aligned 12 v \<Longrightarrow> image_pages v v = 0"
  using aligned_down [of v 4095] aligned_down [of v 0]
  by (simp add: image_pages_def ALIGN_UP_POT_def ALIGN_DOWN_POT_def add.commute [of 4095])

section \<open>Properties\<close>


text \<open>
  The range of addresses an image is given. It starts at the lowest address of a loadable segment. For
  segments in ascending order it ends where the last one ends, as long as there is more than one; for a
  file with one segment it ends where that segment begins.
\<close>

theorem elf_range:
  "case load_range phs of (a, e, found) \<Rightarrow>
     let ls = filter loadable phs in
     if ls = [] then \<not> found
     else found \<and> a = Min (p_vaddr ` set ls)
       \<and> (if laid_out ls then e = (if length ls = 1 then p_vaddr (hd ls) else seg_end (last ls)) else True)"
proof (cases "filter loadable phs = []")
  case False
  then obtain a e where ae: "load_range phs = (a, e, True)" "a \<in> p_vaddr ` set (filter loadable phs)"
    "\<forall>x \<in> set (filter loadable phs). a \<le> p_vaddr x"
    "laid_out (filter loadable phs) \<longrightarrow> e = (if length (filter loadable phs) = 1 then p_vaddr (hd (filter loadable phs)) else seg_end (last (filter loadable phs)))"
    using range_found by blast
  have "a = Min (p_vaddr ` set (filter loadable phs))"
    using ae(2,3) by (intro Min_eqI [symmetric]) auto
  then show ?thesis unfolding ae(1) Let_def using ae(4) False by auto
qed (simp add: range_empty)

text \<open>
  A file with one loadable segment that starts a page is loaded without memory: no page is taken, the
  image is at address 0, the bytes of the segment are copied there over whatever the memory holds, nothing
  is mapped for the process, and the loader still answers true.
\<close>

theorem elf_single_segment:
  assumes "p \<noteq> NULL" "m = mem (hw (mm s))" "ehdr_at m elf = e" "\<not> elf_refused e"
    and "filter loadable (phdrs m (elf + e_phoff e) (e_phnum e)) = [ph]" "aligned 12 (p_vaddr ph)"
    and "m' = memcpy m 0 (elf + p_offset ph) (sint (p_memsz ph))"
    and "ehdr_at m' elf = e" "phdrs m' (elf + e_phoff e) (e_phnum e) = phdrs m (elf + e_phoff e) (e_phnum e)"
  shows "\<exists>s'. elf_load s p elf = Ret s' True \<and> hw (mm s') = (hw (mm s))\<lparr>mem := m'\<rparr>
    \<and> image (procs s' p) = NULL \<and> image_pg_num (procs s' p) = 0 \<and> fr_sepc (frame (procs s' p)) = e_entry e"
proof -
  let ?P = "phdrs m (elf + e_phoff e) (e_phnum e)"
  have r: "load_range ?P = (p_vaddr ph, p_vaddr ph, True)"
  proof -
    have "ph \<in> set (filter loadable ?P)" using assms(5) by simp
    then have "p_type ph = PT_LOAD" by (simp add: loadable_def)
    then show ?thesis by (simp only: load_range_def range_filter [of _ ?P] assms(5)) (simp add: range_step_def)
  qed
  have l: "load_segments m elf (elf + e_phoff e) 0 (p_vaddr ph) 0 = m'"
    using assms by (intro load_one [where ph = ph and n = "e_phnum e"]) simp_all
  let ?s = "upd_p p (\<lambda>q. q\<lparr>frame := (frame q)\<lparr>fr_sepc := e_entry e\<rparr>, image_pg_num := 0\<rparr>) s"
  have z: "znalloc ?s 0 = (?s, NULL)" by (simp add: znalloc_def cpage_znalloc_def upd_p_def)
  let ?s' = "upd_p p (\<lambda>q. q\<lparr>image := NULL\<rparr>) ?s\<lparr>mm := (mm s)\<lparr>hw := (hw (mm s))\<lparr>mem := m'\<rparr>\<rparr>\<rparr>"
  have "elf_load s p elf = Ret ?s' True"
    using assms(1-4) r l z no_image_pages [OF assms(6)]
    by (simp add: elf_load_def Let_def map_no_pages) (simp add: upd_p_def)
  then show ?thesis by (auto simp: upd_p_def)
qed

text \<open>A file at \<open>0x20000\<close> with one segment of 16 bytes for the address \<open>0x400000\<close>.\<close>

definition demo_file :: mem where
  "demo_file = (\<lambda>_. 0)
     (0x20000 := 0x7f, 0x20001 := 0x45, 0x20002 := 0x4c, 0x20003 := 0x46, 0x20010 := 2, 0x20012 := 243,
      0x2001a := 0x40, 0x20020 := 64, 0x20038 := 1, 0x20040 := 1, 0x20049 := 0x10, 0x20052 := 0x40, 0x20068 := 16)"

definition demo_loader :: "sbi osk" where
  "demo_loader = demo_osk\<lparr>mm := (mm demo_osk)\<lparr>hw := (hw (mm demo_osk))\<lparr>mem := demo_file\<rparr>\<rparr>\<rparr>"

lemma demo_file_fields:
  "e_ident (ehdr_at demo_file 0x20000) = [0x7f, 0x45, 0x4c, 0x46, 0, 0, 0, 0, 0, 0, 0, 0, 0, 0, 0, 0]"
  "e_machine (ehdr_at demo_file 0x20000) = 243" "e_type (ehdr_at demo_file 0x20000) = 2"
  "e_phoff (ehdr_at demo_file 0x20000) = 64" "e_phnum (ehdr_at demo_file 0x20000) = 1"
  "p_type (phdr_at demo_file 0x20040) = 1" "p_vaddr (phdr_at demo_file 0x20040) = 0x400000"
  "p_offset (phdr_at demo_file 0x20040) = 0x1000" "p_memsz (phdr_at demo_file 0x20040) = 16"
  by (simp_all add: ehdr_at_def phdr_at_def load16_def load32_def load64_def demo_file_def upt_rec)


lemma demo_copy:
  assumes "\<not> within a 0 16"
  shows "memcpy demo_file 0 0x21000 16 a = demo_file a"
proof -
  have "\<not> within (0x21000 + of_nat k) 0 16" if "k < 16" for k
  proof -
    have "unat (0x21000 + of_nat k :: u64) = 0x21000 + k" using that by (simp add: unat_word_ariths unsigned_of_nat take_bit_nat_eq_self)
    then show ?thesis by (simp add: within_def)
  qed
  then show ?thesis using memcpy_apply [of 16 "0x21000" 0 demo_file a] assms by simp
qed

lemma elf_single_segment_witness:
  "\<exists>s'. elf_load demo_loader 0x80002000 0x20000 = Ret s' True \<and> image (procs s' 0x80002000) = 0 \<and> image_pg_num (procs s' 0x80002000) = 0"
proof -
  let ?m' = "memcpy demo_file 0 0x21000 16"
  have e: "ehdr_at ?m' 0x20000 = ehdr_at demo_file 0x20000" "phdr_at ?m' 0x20040 = phdr_at demo_file 0x20040"
    by (simp_all add: ehdr_at_def phdr_at_def load16_def load32_def load64_def demo_copy within_def upt_rec)
  have p: "phdrs m 0x20040 1 = [phdr_at m 0x20040]" for m by (simp add: phdrs_def)
  have r: "\<not> elf_refused (ehdr_at demo_file 0x20000)"
    by (simp add: elf_refused_def ELFMAG_def demo_file_fields)
  have "aligned 12 (0x400000 :: u64)" by (simp add: aligned_def take_bit_eq_mod)
  then show ?thesis
    using elf_single_segment [of "0x80002000" demo_file demo_loader "0x20000" "ehdr_at demo_file 0x20000" "phdr_at demo_file 0x20040" ?m'] e p r
    by (auto simp: demo_loader_def loadable_def demo_file_fields)
qed

end
