(* ===== verification/LineEdit.thy ===== *)
theory LineEdit
  imports Strings
begin

text \<open>
  What the command lines of the kernel (src/src/main.c) and of the user program (src/user/console.c)
  have in common: a buffer of characters in memory, a position in it, and keys that add or
  delete a character. \<open>edit\<close> is the line as a list of characters, the specification of both loops.
\<close>

text \<open>A backspace or delete removes the last character; anything else is added while there is room.\<close>

definition erases :: "u8 \<Rightarrow> bool" where
  "erases c \<longleftrightarrow> c = 8 \<or> c = 127"

definition edit :: "nat \<Rightarrow> u8 list \<Rightarrow> u8 \<Rightarrow> u8 list" where
  "edit room line c = (if erases c then butlast line else if length line < room then line @ [c] else line)"

text \<open>The first bytes of the buffer are the line.\<close>

definition holds :: "mem \<Rightarrow> u64 \<Rightarrow> u8 list \<Rightarrow> bool" where
  "holds m buf line \<longleftrightarrow> (\<forall>k < length line. m (buf + of_nat k) = line ! k)"

definition chars :: "string \<Rightarrow> u8 list" where
  "chars = List.map of_char"

lemma edit_length: "length line \<le> room \<Longrightarrow> length (edit room line c) \<le> room"
  by (auto simp: edit_def)

lemma edits_length: "length line \<le> room \<Longrightarrow> length (foldl (edit room) line cs) \<le> room"
  by (induction cs arbitrary: line) (auto simp: edit_length)

lemma edits_set: "set (foldl (edit room) line cs) \<subseteq> set line \<union> set cs"
proof (induction cs arbitrary: line)
  case (Cons c cs)
  have "set (edit room line c) \<subseteq> insert c (set line)" by (auto simp: edit_def dest: in_set_butlastD)
  then show ?case using Cons.IH [of "edit room line c"] by auto
qed simp

lemma nat_eq_below: "i < n \<Longrightarrow> n < 2 ^ 64 \<Longrightarrow> (of_nat i :: u64) \<noteq> of_nat n"
  by (auto dest: arg_cong [of _ _ unat] simp: unsigned_of_nat take_bit_nat_eq_self)

lemma holds_Nil [simp]: "holds m buf []"
  by (simp add: holds_def)

lemma holds_add:
  assumes "holds m buf line" "length line < 2 ^ 64"
  shows "holds (m(buf + of_nat (length line) := c)) buf (line @ [c])"
  using assms nat_eq_below [of _ "length line"] by (auto simp: holds_def nth_append less_Suc_eq)

lemma holds_butlast: "holds m buf line \<Longrightarrow> holds m buf (butlast line)"
  by (auto simp: holds_def nth_butlast)

lemma cstring_holds:
  "holds m buf line \<Longrightarrow> 0 \<notin> set line \<Longrightarrow> m (buf + of_nat (length line)) = 0 \<Longrightarrow> cstring m buf line"
proof (induction line arbitrary: buf)
  case (Cons c line)
  have "m buf = c" using Cons.prems(1) by (force simp: holds_def)
  moreover have "holds m (buf + 1) line" using Cons.prems(1) by (force simp: holds_def add.assoc)
  moreover have "m (buf + 1 + of_nat (length line)) = 0" using Cons.prems(3) by (simp add: add.assoc)
  ultimately show ?case using Cons by simp
qed simp

text \<open>Ending the line gives the string.\<close>

lemma holds_terminated:
  assumes "holds m buf line" "0 \<notin> set line" "length line < 2 ^ 64"
  shows "cstring (m(buf + of_nat (length line) := 0)) buf line"
proof (rule cstring_holds)
  show "holds (m(buf + of_nat (length line) := 0)) buf line"
    using assms(1,3) nat_eq_below [of _ "length line"] by (auto simp: holds_def)
qed (use assms in simp_all)

text \<open>Two strings at one place are the same.\<close>

lemma cstring_unique: "cstring m a xs \<Longrightarrow> cstring m a ys \<Longrightarrow> xs = ys"
  by (induction m a xs arbitrary: ys rule: cstring.induct) (case_tac ys; auto)+

text \<open>Comparing with a string that stands somewhere in memory: equal exactly when the text is the same.\<close>

lemma strcmp_is_cstring:
  assumes "cstring m r ys"
  shows "\<exists>c. strcmp m l r = Some c \<and> (c = 0 \<longleftrightarrow> cstring m l ys)"
  using assms
proof (induction ys arbitrary: l r)
  case Nil
  then show ?case
    by (subst strcmp.simps) (auto simp: Let_def ucast_0_iff)
next
  case (Cons y ys)
  show ?case
  proof (cases "m l = y")
    case True
    then show ?thesis using Cons.IH [of "r + 1" "l + 1"] Cons.prems
      by (subst strcmp.simps) (simp add: Let_def ucast_0_iff)
  next
    case False
    then show ?thesis using Cons.prems
      by (subst strcmp.simps) (simp add: Let_def ucast_0_iff ucast_eq_iff)
  qed
qed

text \<open>A number read from a string of its digits, after a minus its negation.\<close>

lemma cstring_stored: "cstring m s xs \<Longrightarrow> stored m s xs \<and> m (s + of_nat (length xs)) = 0"
proof (induction xs arbitrary: s)
  case (Cons x xs)
  then show ?case using Cons.IH [of "s + 1"] by (simp add: add.assoc)
qed simp

lemma atoi_cstring:
  assumes "cstring m s ((if neg then [45] else []) @ xs)" "list_all is_digit xs" "length xs < 2 ^ 31"
  shows "atoi m s = Some (if neg then - decimal xs else decimal xs)"
proof -
  let ?s = "if neg then s + 1 else s"
  have c: "cstring m ?s xs" using assms(1) by (simp split: if_splits)
  have n: "m s = 45 \<longleftrightarrow> neg" using assms(1,2) by (cases xs) (auto simp: is_digit_def split: if_splits)
  have z: "\<not> is_digit 0" by (simp add: is_digit_def)
  show ?thesis
    using atoi_number [of m ?s xs neg] cstring_stored [OF c] assms(2,3) z n by (simp add: atoi_def split: if_splits)
qed

end
