(* ===== verification/UserConsole.thy ===== *)
theory UserConsole
  imports LineEdit Bus
begin

unbundle bit_operations_syntax

text \<open>
  The user programs: the system calls of their library (src/user/libc/os.c, stdio.c), the serial console
  (src/user/console.c) and the keyboard console (src/user/consolev.c). The kernel is a function of the call
  number, the argument registers and the program's state, which holds the kernel's own; a call may
  write the program's memory. What the serial console relies on is the locale \<open>console_kernel\<close>, which Machine interprets
  by the kernel of this development. \<open>printf\<close> is an entry of \<open>ulog\<close>; its model is in Printf and Machine.
\<close>

section \<open>The library\<close>

record 'k prog =
  kern_st :: 'k
  umem :: mem
  ulog :: "string list"
  shift :: bool

type_synonym 'k syscalls = "u64 \<Rightarrow> u64 list \<Rightarrow> 'k prog \<Rightarrow> ('k prog, u64) outcome"

definition print_u :: "string \<Rightarrow> 'k prog \<Rightarrow> 'k prog" where
  "print_u t s = s\<lparr>ulog := t # ulog s\<rparr>"

definition user_yield :: "'k syscalls \<Rightarrow> 'k prog \<Rightarrow> ('k prog, unit) outcome" where
  "user_yield K s = and_then (K 3 [] s) (\<lambda>s _. Ret s ())"

definition user_sleep :: "'k syscalls \<Rightarrow> 'k prog \<Rightarrow> u32 \<Rightarrow> ('k prog, unit) outcome" where
  "user_sleep K s tm = and_then (K 4 [scast tm] s) (\<lambda>s _. Ret s ())"

definition user_getchar :: "'k syscalls \<Rightarrow> 'k prog \<Rightarrow> ('k prog, u8) outcome" where
  "user_getchar K s = and_then (K 2 [] s) (\<lambda>s a0. Ret s (ucast a0))"

definition user_putchar :: "'k syscalls \<Rightarrow> 'k prog \<Rightarrow> u8 \<Rightarrow> ('k prog, unit) outcome" where
  "user_putchar K s c = and_then (K 1 [ucast c] s) (\<lambda>s _. Ret s ())"

definition get_events :: "'k syscalls \<Rightarrow> 'k prog \<Rightarrow> u64 \<Rightarrow> u32 \<Rightarrow> ('k prog, u32) outcome" where
  "get_events K s event_buffer max_events = and_then (K 5 [event_buffer, ucast max_events] s) (\<lambda>s a0. Ret s (ucast a0))"

section \<open>console.c\<close>

text \<open>
  The buffers are local arrays: \<open>command\<close> and \<open>events\<close> are their addresses. Comparing with a string
  constant is looking for its text (\<open>strcmp_is_cstring\<close>).
\<close>

fun report_events :: "nat \<Rightarrow> 'k prog \<Rightarrow> 'k prog" where
  "report_events 0 s = s"
| "report_events (Suc n) s = report_events n (print_u ''INPUT'' s)"

definition run_command :: "'k syscalls \<Rightarrow> u64 \<Rightarrow> 'k prog \<Rightarrow> u64 \<Rightarrow> ('k prog, unit) outcome" where
  "run_command K events s command =
     (if cstring (umem s) command (chars ''help'') then Ret (print_u ''Help is coming!'' s) ()
      else if cstring (umem s) command (chars ''gev'') then
        and_then (get_events K s events 64) (\<lambda>s num.
          Ret (print_u ''Processed'' (report_events (nat (sint num)) s)) ())
      else if umem s command \<noteq> 0 then Ret (print_u ''Unknown command'' s) ()
      else Ret s ())"

definition arrow :: "u8 \<Rightarrow> 'k prog \<Rightarrow> 'k prog" where
  "arrow esc2 s =
     (if esc2 = 0x41 then print_u ''UP'' s else if esc2 = 0x42 then print_u ''DOWN'' s
      else if esc2 = 0x43 then print_u ''RIGHT'' s else if esc2 = 0x44 then print_u ''LEFT'' s else s)"

definition console_round :: "'k syscalls \<Rightarrow> u64 \<Rightarrow> u64 \<Rightarrow> 'k prog \<Rightarrow> nat \<Rightarrow> ('k prog, nat) outcome" where
  "console_round K command events s at =
     and_then (user_getchar K s) (\<lambda>s c.
     if c = 13 \<or> c = 10 then
       and_then (run_command K events (print_u ''newline'' (s\<lparr>umem := (umem s)(command + of_nat at := 0)\<rparr>)) command) (\<lambda>s _.
         Ret (print_u ''~> '' s) 0)
     else if c = 8 \<or> c = 127 then
       Ret (if 0 < at then print_u ''rubout'' s else s) (if 0 < at then at - 1 else at)
     else if c = 0x1B then
       and_then (user_getchar K s) (\<lambda>s esc1.
       and_then (user_getchar K s) (\<lambda>s esc2. Ret (if esc1 = 0x5B then arrow esc2 s else s) at))
     else if c \<noteq> 255 then
       if at < 255 then
         and_then (user_putchar K (s\<lparr>umem := (umem s)(command + of_nat at := c)\<rparr>) c) (\<lambda>s _. Ret s (at + 1))
       else Ret s at
     else and_then (user_sleep K s 10) (\<lambda>s _. Ret s at))"

partial_function (option) console_loop :: "'k syscalls \<Rightarrow> u64 \<Rightarrow> u64 \<Rightarrow> 'k prog \<Rightarrow> nat \<Rightarrow> ('k prog, unit) outcome option" where
  "console_loop K command events s at =
     (case console_round K command events s at of
        Ret s at \<Rightarrow> console_loop K command events s at
      | Jump s \<Rightarrow> Some (Jump s)
      | Hang \<Rightarrow> Some Hang
      | Undef \<Rightarrow> Some Undef)"

definition console_main :: "'k syscalls \<Rightarrow> u64 \<Rightarrow> u64 \<Rightarrow> 'k prog \<Rightarrow> ('k prog, unit) outcome" where
  "console_main K command events s =
     (case console_loop K command events (print_u ''~> '' s) 0 of None \<Rightarrow> Hang | Some r \<Rightarrow> r)"

section \<open>consolev.c\<close>

text \<open>The initialisers of \<open>keys\<close> with the codes of src/user/libc/event.h; the others are 0.\<close>

definition key_names :: "(nat \<times> char) list" where
  "key_names =
     zip [30, 48, 46, 32, 18, 33, 34, 35, 23, 36, 37, 38, 50, 49, 24, 25, 16, 19, 31, 20, 22, 47, 17, 45, 21, 44]
       ''abcdefghijklmnopqrstuvwxyz''
     @ zip [11, 2, 3, 4, 5, 6, 7, 8, 9, 10] ''0123456789''
     @ [(28, CHR 0x0A), (14, CHR 0x08), (57, CHR '' '')]"

definition keys :: "u8 list" where
  "keys = List.map (\<lambda>k. case map_of key_names k of None \<Rightarrow> 0 | Some c \<Rightarrow> of_char c) [0..<58]"

definition num_shift_keys :: "u8 list" where
  "num_shift_keys = chars '')!@#$%^&*(''"

definition conv_key :: "bool \<Rightarrow> u32 \<Rightarrow> u8" where
  "conv_key sh code =
     (if code <s 58 then
        let ret = keys ! unat code in
        if sh then
          if of_char CHR ''a'' \<le> ret \<and> ret \<le> of_char CHR ''z'' then ret - 32
          else if of_char CHR ''0'' \<le> ret \<and> ret \<le> of_char CHR ''9'' then num_shift_keys ! unat (ret - of_char CHR ''0'')
          else ret
        else ret
      else 0)"

text \<open>The fields of the \<open>InputEvent\<close> at an address.\<close>

definition ev_type :: "mem \<Rightarrow> u64 \<Rightarrow> u16" where "ev_type m a = load16 m a"
definition ev_code :: "mem \<Rightarrow> u64 \<Rightarrow> u16" where "ev_code m a = load16 m (a + 2)"
definition ev_value :: "mem \<Rightarrow> u64 \<Rightarrow> u32" where "ev_value m a = load32 m (a + 4)"

text \<open>The loop of \<open>get_next_key\<close> at index \<open>i\<close>, \<open>n\<close> events before the end; the character is what \<open>ret\<close> gets.\<close>

fun next_key :: "nat \<Rightarrow> 'k prog \<Rightarrow> u64 \<Rightarrow> nat \<Rightarrow> u8 \<Rightarrow> 'k prog \<times> nat \<times> u8" where
  "next_key 0 s events i c = (s, i, c)"
| "next_key (Suc n) s events i c =
     (let ev = events + 8 * of_nat i; m = umem s in
      if ev_type m ev = 1 then
        if ev_code m ev = 54 \<or> ev_code m ev = 42 then next_key n (s\<lparr>shift := ev_value m ev \<noteq> 0\<rparr>) events (Suc i) c
        else if ev_value m ev = 1 then (s, i, conv_key (shift s) (ucast (ev_code m ev)))
        else next_key n s events (Suc i) c
      else next_key n s events (Suc i) c)"

definition get_next_key :: "'k prog \<Rightarrow> u64 \<Rightarrow> nat \<Rightarrow> nat \<Rightarrow> u8 \<Rightarrow> 'k prog \<times> nat \<times> u8" where
  "get_next_key s events at num c = (let (s, i, c) = next_key (num - at) s events at c in (s, i + 1, c))"

definition run_command_v :: "'k prog \<Rightarrow> u64 \<Rightarrow> 'k prog" where
  "run_command_v s command =
     (if cstring (umem s) command (chars ''help'') then print_u ''Help is coming!'' s
      else if umem s command \<noteq> 0 then print_u ''Unknown command'' s
      else s)"

text \<open>The loop that waits for events; the result is the count, and the next event is the first.\<close>

partial_function (option) await_events :: "'k syscalls \<Rightarrow> u64 \<Rightarrow> 'k prog \<Rightarrow> u32 \<Rightarrow> u32 \<Rightarrow> ('k prog, u32 \<times> u32) outcome option" where
  "await_events K events s atev sizeev =
     (if sizeev \<le>s atev then
        (case and_then (get_events K s events 1024) (\<lambda>s n. and_then (user_sleep K s 10) (\<lambda>s _. Ret s n)) of
           Ret s n \<Rightarrow> await_events K events s 0 n
         | Jump s \<Rightarrow> Some (Jump s)
         | Hang \<Rightarrow> Some Hang
         | Undef \<Rightarrow> Some Undef)
      else Some (Ret s (atev, sizeev)))"

text \<open>What a key does to the line; \<open>at\<close> is the number of characters.\<close>

definition typed_key :: "'k syscalls \<Rightarrow> u64 \<Rightarrow> 'k prog \<Rightarrow> nat \<Rightarrow> u8 \<Rightarrow> ('k prog, nat) outcome" where
  "typed_key K command s at c =
     (if c \<noteq> 0 \<and> c \<noteq> 255 then
        if c = 13 \<or> c = 10 then
          and_then (user_putchar K (s\<lparr>umem := (umem s)(command + of_nat at := 0)\<rparr>) 10) (\<lambda>s _.
            Ret (print_u ''newline ~> '' (run_command_v s command)) 0)
        else if c = 8 then
          if 0 < at then
            and_then (user_putchar K s 8) (\<lambda>s _. and_then (user_putchar K s 32) (\<lambda>s _.
            and_then (user_putchar K s 8) (\<lambda>s _. Ret s (at - 1))))
          else and_then (user_putchar K s 7) (\<lambda>s _. Ret s at)
        else if at < 24 then
          and_then (user_putchar K s c) (\<lambda>s _. Ret (s\<lparr>umem := (umem s)(command + of_nat at := c)\<rparr>) (at + 1))
        else Ret s at
      else Ret s at)"

partial_function (option) consolev_loop ::
  "'k syscalls \<Rightarrow> u64 \<Rightarrow> u64 \<Rightarrow> 'k prog \<Rightarrow> nat \<Rightarrow> u32 \<Rightarrow> u32 \<Rightarrow> ('k prog, unit) outcome option" where
  "consolev_loop K command events s at atev sizeev =
     Option.bind (await_events K events s atev sizeev) (\<lambda>r.
     case r of
       Ret s e \<Rightarrow>
         let (s, i, c) = get_next_key s events (nat (sint (fst e))) (nat (sint (snd e))) 0xFF in
         (case typed_key K command s at c of
            Ret s at \<Rightarrow> consolev_loop K command events s at (of_nat i) (snd e)
          | Jump s \<Rightarrow> Some (Jump s) | Hang \<Rightarrow> Some Hang | Undef \<Rightarrow> Some Undef)
     | Jump s \<Rightarrow> Some (Jump s) | Hang \<Rightarrow> Some Hang | Undef \<Rightarrow> Some Undef)"

definition consolev_main :: "'k syscalls \<Rightarrow> u64 \<Rightarrow> u64 \<Rightarrow> 'k prog \<Rightarrow> ('k prog, unit) outcome" where
  "consolev_main K command events s =
     (case consolev_loop K command events (print_u ''~> '' s) 0 0 0 of None \<Rightarrow> Hang | Some r \<Rightarrow> r)"

section \<open>Lemmas: the command line\<close>

fun console_rounds :: "'k syscalls \<Rightarrow> u64 \<Rightarrow> u64 \<Rightarrow> nat \<Rightarrow> 'k prog \<Rightarrow> nat \<Rightarrow> ('k prog, nat) outcome" where
  "console_rounds K command events 0 s at = Ret s at"
| "console_rounds K command events (Suc n) s at =
     and_then (console_round K command events s at) (\<lambda>s at. console_rounds K command events n s at)"

text \<open>The keys that edit the line, and the characters that come back while they are typed.\<close>

definition plain :: "u8 \<Rightarrow> bool" where
  "plain c \<longleftrightarrow> c \<notin> {13, 10, 0x1B, 255}"

fun echo :: "u8 list \<Rightarrow> u8 list \<Rightarrow> u8 list" where
  "echo line [] = []"
| "echo line (c # cs) = (if erases c \<or> 255 \<le> length line then [] else [c]) @ echo (edit 255 line c) cs"

lemma ucast_8_back [simp]: "(ucast (ucast (c :: u8) :: u64) :: u8) = c"
  by (rule bit_word_eqI) (auto simp: bit_simps)

text \<open>
  What the console needs of a kernel: its characters come one per call, and a character written changes nothing
  of those still to come.
\<close>

locale console_kernel =
  fixes K :: "'k syscalls" and ready :: "'k \<Rightarrow> bool" and input :: "'k \<Rightarrow> u8 list" and echoed :: "'k \<Rightarrow> u8 list"
  assumes get_law: "ready (kern_st s) \<Longrightarrow> input (kern_st s) = c # cs \<Longrightarrow>
      \<exists>k. K 2 [] s = Ret (s\<lparr>kern_st := k\<rparr>) (ucast c) \<and> ready k \<and> input k = cs \<and> echoed k = echoed (kern_st s)"
    and put_law: "ready (kern_st s) \<Longrightarrow>
      \<exists>k v. K 1 [ucast (c :: u8)] s = Ret (s\<lparr>kern_st := k\<rparr>) v \<and> ready k \<and> input k = input (kern_st s)
        \<and> echoed k = echoed (kern_st s) @ [c]"
begin

lemma getchar:
  "ready (kern_st s) \<Longrightarrow> input (kern_st s) = c # cs \<Longrightarrow>
     \<exists>k. user_getchar K s = Ret (s\<lparr>kern_st := k\<rparr>) c \<and> ready k \<and> input k = cs \<and> echoed k = echoed (kern_st s)"
  using get_law [of s c cs] by (auto simp: user_getchar_def)

lemma putchar:
  "ready (kern_st s) \<Longrightarrow>
     \<exists>k. user_putchar K s c = Ret (s\<lparr>kern_st := k\<rparr>) () \<and> ready k \<and> input k = input (kern_st s)
       \<and> echoed k = echoed (kern_st s) @ [c]"
  using put_law [of s c] by (auto simp: user_putchar_def)

lemma round_edit:
  assumes "ready (kern_st s)" "input (kern_st s) = c # cs" "plain c" "holds (umem s) command line" "length line \<le> 255"
  shows "\<exists>s'. console_round K command events s (length line) = Ret s' (length (edit 255 line c))
    \<and> holds (umem s') command (edit 255 line c) \<and> ready (kern_st s') \<and> input (kern_st s') = cs
    \<and> echoed (kern_st s') = echoed (kern_st s) @ echo line [c]"
proof -
  obtain k where k: "user_getchar K s = Ret (s\<lparr>kern_st := k\<rparr>) c" "ready k" "input k = cs" "echoed k = echoed (kern_st s)"
    using getchar [OF assms(1,2)] by blast
  show ?thesis
  proof (cases "c = 8 \<or> c = 127")
    case True
    then show ?thesis
      using assms k holds_butlast by (auto simp: console_round_def edit_def erases_def print_u_def plain_def)
  next
    case False
    let ?s = "s\<lparr>kern_st := k, umem := (umem s)(command + of_nat (length line) := c)\<rparr>"
    have e: "edit 255 line c = (if length line < 255 then line @ [c] else line)" using False by (simp add: edit_def erases_def)
    obtain k' where "user_putchar K ?s c = Ret (?s\<lparr>kern_st := k'\<rparr>) ()" "ready k'" "input k' = cs" "echoed k' = echoed (kern_st s) @ [c]"
      using putchar [of ?s c] k by auto
    then show ?thesis
      using assms False k e holds_add [of "umem s" command line c]
      by (auto simp: console_round_def plain_def erases_def)
  qed
qed

lemma rounds_edit:
  assumes "ready (kern_st s)" "input (kern_st s) = cs @ rest" "\<forall>c \<in> set cs. plain c" "holds (umem s) command line" "length line \<le> 255"
  shows "\<exists>s'. console_rounds K command events (length cs + n) s (length line)
      = console_rounds K command events n s' (length (foldl (edit 255) line cs))
    \<and> holds (umem s') command (foldl (edit 255) line cs) \<and> ready (kern_st s') \<and> input (kern_st s') = rest
    \<and> echoed (kern_st s') = echoed (kern_st s) @ echo line cs"
  using assms
proof (induction cs arbitrary: s line)
  case (Cons c cs)
  obtain s1 where s1: "console_round K command events s (length line) = Ret s1 (length (edit 255 line c))"
    "holds (umem s1) command (edit 255 line c)" "ready (kern_st s1)" "input (kern_st s1) = cs @ rest"
    "echoed (kern_st s1) = echoed (kern_st s) @ echo line [c]"
    using round_edit [of s c "cs @ rest" command line events] Cons.prems by auto
  obtain s' where "console_rounds K command events (length cs + n) s1 (length (edit 255 line c))
      = console_rounds K command events n s' (length (foldl (edit 255) (edit 255 line c) cs))"
    "holds (umem s') command (foldl (edit 255) (edit 255 line c) cs)" "ready (kern_st s')" "input (kern_st s') = rest"
    "echoed (kern_st s') = echoed (kern_st s1) @ echo (edit 255 line c) cs"
    using Cons.IH [OF s1(3,4) _ s1(2)] Cons.prems edit_length [of line 255 c] by auto
  then show ?case using s1(1,5) by auto
qed auto

lemma runs_line:
  assumes "ready (kern_st s)" "input (kern_st s) = cs @ 13 # rest" "\<forall>c \<in> set cs. plain c" "0 \<notin> set cs"
    and "line = foldl (edit 255) [] cs"
  shows "\<exists>s1. console_rounds K command events (Suc (length cs)) s 0
      = and_then (run_command K events s1 command) (\<lambda>s2 _. Ret (print_u ''~> '' s2) 0)
    \<and> cstring (umem s1) command line \<and> length line \<le> 255 \<and> ready (kern_st s1) \<and> input (kern_st s1) = rest
    \<and> echoed (kern_st s1) = echoed (kern_st s) @ echo [] cs"
proof -
  obtain s' where s': "console_rounds K command events (length cs + 1) s 0 = console_rounds K command events 1 s' (length line)"
    "holds (umem s') command line" "ready (kern_st s')" "input (kern_st s') = 13 # rest"
    "echoed (kern_st s') = echoed (kern_st s) @ echo [] cs"
    using rounds_edit [of s cs "13 # rest" command "[]" events 1] assms by auto
  have len: "length line \<le> 255" using edits_length [of "[]" 255 cs] assms(5) by simp
  have nz: "0 \<notin> set line" using edits_set [of 255 "[]" cs] assms(4,5) by auto
  obtain k where k: "user_getchar K s' = Ret (s'\<lparr>kern_st := k\<rparr>) 13" "ready k" "input k = rest" "echoed k = echoed (kern_st s')"
    using getchar [OF s'(3,4)] by blast
  let ?s1 = "print_u ''newline'' (s'\<lparr>kern_st := k, umem := (umem s')(command + of_nat (length line) := 0)\<rparr>)"
  have r: "and_then (and_then x (\<lambda>s _. Ret (print_u ''~> '' s) 0)) (console_rounds K command events 0) = and_then x (\<lambda>s _. Ret (print_u ''~> '' s) 0)"
    for x :: "('k prog, unit) outcome"
    by (cases x) simp_all
  have "console_rounds K command events 1 s' (length line)
      = and_then (run_command K events ?s1 command) (\<lambda>s2 _. Ret (print_u ''~> '' s2) 0)"
    using k(1) by (simp add: console_round_def r)
  moreover have "cstring (umem ?s1) command line" "kern_st ?s1 = k"
    using holds_terminated [OF s'(2) nz] len by (simp_all add: print_u_def)
  ultimately show ?thesis using s'(1,5) k len by (intro exI [of _ ?s1]) simp
qed

end

text \<open>A kernel whose state is just the characters still to come and those written.\<close>

definition terminal :: "(u8 list \<times> u8 list) syscalls \<Rightarrow> bool" where
  "terminal K \<longleftrightarrow>
     (\<forall>s c cs out. kern_st s = (c # cs, out) \<longrightarrow> K 2 [] s = Ret (s\<lparr>kern_st := (cs, out)\<rparr>) (ucast c))
     \<and> (\<forall>s c. \<exists>v. K 1 [ucast (c :: u8)] s = Ret (s\<lparr>kern_st := (fst (kern_st s), snd (kern_st s) @ [c])\<rparr>) v)"

lemma terminal_kernel: "terminal K \<Longrightarrow> console_kernel K (\<lambda>_. True) fst snd"
proof
  fix s :: "(u8 list \<times> u8 list) prog" and c cs
  assume "terminal K" "fst (kern_st s) = c # cs"
  then show "\<exists>k. K 2 [] s = Ret (s\<lparr>kern_st := k\<rparr>) (ucast c) \<and> True \<and> fst k = cs \<and> snd k = snd (kern_st s)"
    by (cases "kern_st s") (simp add: terminal_def)
qed (auto simp: terminal_def)

section \<open>Lemmas: the keyboard\<close>

text \<open>What a list of events types, starting with the shift state given.\<close>

fun typed :: "bool \<Rightarrow> (u16 \<times> u16 \<times> u32) list \<Rightarrow> u8 list" where
  "typed sh [] = []"
| "typed sh ((ty, code, v) # evs) =
     (if ty \<noteq> 1 then typed sh evs
      else if code = 54 \<or> code = 42 then typed (v \<noteq> 0) evs
      else if v = 1 then conv_key sh (ucast code) # typed sh evs
      else typed sh evs)"

definition event_list :: "mem \<Rightarrow> u64 \<Rightarrow> nat \<Rightarrow> nat \<Rightarrow> (u16 \<times> u16 \<times> u32) list" where
  "event_list m events at num =
     List.map (\<lambda>i. let a = events + 8 * of_nat i in (ev_type m a, ev_code m a, ev_value m a)) [at..<num]"

text \<open>All the keys of a buffer, as the main loop asks for them.\<close>

function all_keys :: "'k prog \<Rightarrow> u64 \<Rightarrow> nat \<Rightarrow> nat \<Rightarrow> u8 list" where
  "all_keys s events at num =
     (if at < num then
        let (s', at', c) = get_next_key s events at num 0xFF in (if at' \<le> num then [c] else []) @ all_keys s' events at' num
      else [])"
  by pat_completeness auto

lemma next_key_index: "next_key n s events i c = (s', j, c') \<Longrightarrow> i \<le> j \<and> j \<le> i + n \<and> umem s' = umem s"
  by (induction n arbitrary: s i) (auto simp: Let_def split: if_splits, (fastforce)+)

termination all_keys
  by (relation "measure (\<lambda>(s, events, at, num). num - at)")
    (auto simp: get_next_key_def split: prod.splits dest!: next_key_index)

declare all_keys.simps [simp del]

lemma next_key_typed:
  "next_key n s events i c = (s', j, c') \<Longrightarrow>
   typed (shift s) (event_list (umem s) events i (i + n)) =
     (if j < i + n then c' # typed (shift s') (event_list (umem s) events (Suc j) (i + n)) else [])"
proof (induction n arbitrary: s i)
  case (Suc n)
  have l: "event_list (umem s) events i (i + Suc n)
      = (let a = events + 8 * of_nat i in (ev_type (umem s) a, ev_code (umem s) a, ev_value (umem s) a)) # event_list (umem s) events (Suc i) (Suc i + n)"
    by (simp add: event_list_def upt_conv_Cons del: upt_Suc)
  show ?case
    using Suc.prems Suc.IH [of s "Suc i"] Suc.IH [of "s\<lparr>shift := x\<rparr>" "Suc i" for x]
    unfolding l by (auto simp: Let_def split: if_splits)
qed (simp add: event_list_def)

section \<open>Properties\<close>

text \<open>
  The command line of the serial console. Whatever plain keys are typed, in any number and with any
  backspaces between them, the line is what the list specification says, never longer than 255
  characters; enter then runs exactly that line as a string, and the next line starts empty.
\<close>

theorem console_runs_line:
  assumes "terminal K" "kern_st s = (cs @ 13 # rest, out)" "\<forall>c \<in> set cs. plain c" "0 \<notin> set cs"
    and "line = foldl (edit 255) [] cs"
  shows "\<exists>s1. console_rounds K command events (Suc (length cs)) s 0
      = and_then (run_command K events s1 command) (\<lambda>s2 _. Ret (print_u ''~> '' s2) 0)
    \<and> cstring (umem s1) command line \<and> length line \<le> 255 \<and> fst (kern_st s1) = rest"
  using console_kernel.runs_line [OF terminal_kernel [OF assms(1)], of s cs rest line command events] assms(2-) by auto

text \<open>A terminal, with "ho", a delete and "i" typed on it.\<close>

definition demo_terminal :: "(u8 list \<times> u8 list) syscalls" where
  "demo_terminal a7 args s =
     (if a7 = 2 then
        (case kern_st s of ([], out) \<Rightarrow> Ret s 255 | (c # cs, out) \<Rightarrow> Ret (s\<lparr>kern_st := (cs, out)\<rparr>) (ucast c))
      else if a7 = 1 then Ret (s\<lparr>kern_st := (fst (kern_st s), snd (kern_st s) @ [ucast (hd args)])\<rparr>) 0
      else Ret s 0)"

lemma console_runs_line_witness:
  "\<exists>s1. console_rounds demo_terminal 0x1000 0x2000 (Suc (length [104, 111, 127, 105 :: u8])) \<lparr>kern_st = ([104, 111, 127, 105, 13], []), umem = (\<lambda>_. 7), ulog = [], shift = False\<rparr> 0
      = and_then (run_command demo_terminal 0x2000 s1 0x1000) (\<lambda>s2 _. Ret (print_u ''~> '' s2) 0)
    \<and> cstring (umem s1) 0x1000 [104, 105]"
proof -
  have t: "terminal demo_terminal" by (simp add: terminal_def demo_terminal_def)
  have l: "foldl (edit 255) [] [104, 111, 127, 105] = [104, 105]" by (simp add: edit_def erases_def)
  have p: "\<forall>c \<in> set [104, 111, 127, 105]. plain c" by (simp add: plain_def)
  show ?thesis
    using console_runs_line [OF t, of "\<lparr>kern_st = ([104, 111, 127, 105, 13], []), umem = (\<lambda>_. 7), ulog = [], shift = False\<rparr>"
        "[104, 111, 127, 105]" "[]" "[]" "[104, 105]" "0x1000" "0x2000"] l p
    by (simp del: foldl_Cons length_Cons One_nat_def console_rounds.simps) blast
qed




end
