(* ===== verification/VfsPath.thy ===== *)
theory VfsPath
  imports LineEdit
begin

unbundle bit_operations_syntax

text \<open>
  The path functions of src/src/vfs.c. Both work in place on C strings: the first name of a path is
  copied with everything behind it and cut off at the next slash, the last one is found by
  going from slash to slash.
\<close>

abbreviation (input) slash :: u8 where "slash \<equiv> 47"

definition vfs_parse_first :: "mem \<Rightarrow> u64 \<Rightarrow> u64 \<Rightarrow> mem option" where
  "vfs_parse_first m path first =
     (let (m, p) = (if m path = slash then (if m (path + 1) = 0 then m(first := 0) else m, path + 1) else (m, path)) in
      Option.bind (strcpy m first p) (\<lambda>m.
      Option.bind (strchr m first (ucast slash)) (\<lambda>p2.
      Some (if p2 \<noteq> NULL then m(p2 := 0) else m))))"

partial_function (option) last_name :: "mem \<Rightarrow> u64 \<Rightarrow> u64 \<Rightarrow> u64 option" where
  "last_name m p p2 =
     (if p2 \<noteq> NULL then Option.bind (strchr m (p2 + 1) (ucast slash)) (\<lambda>p3. last_name m (p2 + 1) p3)
      else Some p)"

definition vfs_parse_last :: "mem \<Rightarrow> u64 \<Rightarrow> u64 \<Rightarrow> mem option" where
  "vfs_parse_last m path dest =
     Option.bind (strchr m path (ucast slash)) (\<lambda>p2.
     Option.bind (if p2 = NULL then strcpy m dest path else Some m) (\<lambda>m.
     Option.bind (last_name m path p2) (\<lambda>p. strcpy m dest p)))"

section \<open>Lemmas\<close>

text \<open>A string ends before the end of the address space, and a buffer for it lies elsewhere.\<close>

definition fits :: "u64 \<Rightarrow> nat \<Rightarrow> bool" where
  "fits a n \<longleftrightarrow> a \<noteq> NULL \<and> unat a + n < 2 ^ 64"

lemma fits_add: "fits a n \<Longrightarrow> k \<le> n \<Longrightarrow> unat (a + of_nat k) = unat a + k \<and> a + of_nat k \<noteq> NULL"
proof -
  assume a: "fits a n" "k \<le> n"
  have "unat (of_nat k :: u64) = k" using a by (simp add: fits_def unsigned_of_nat take_bit_nat_eq_self)
  then have u: "unat (a + of_nat k) = unat a + k" using a by (subst unat_word_ariths) (simp add: fits_def)
  moreover have "0 < unat a" using a(1) by (simp add: fits_def unat_gt_0)
  ultimately have "0 < unat (a + of_nat k)" by simp
  then show ?thesis using u by (metis unat_0 less_irrefl)
qed

lemma ucast_back_32: "(ucast (ucast (c :: u8) :: u32) :: u8) = c"
  by (rule bit_word_eqI) (auto simp: bit_simps)

lemma strcpy_memcpy:
  assumes "disjoint s d N" "N \<le> 2 ^ 64"
  shows "cstring m (s + of_nat j) xs \<Longrightarrow> j + length xs < N \<Longrightarrow>
    strcpy m (d + of_nat j) (s + of_nat j) = Some (memcpy_from (Suc (length xs)) m d s (of_nat j))"
proof (induction xs arbitrary: m j)
  case Nil
  then have z: "m (s + of_nat j) = 0" by simp
  show ?case by (subst strcpy.simps) (simp add: z)
next
  case (Cons x xs)
  let ?m = "m(d + of_nat j := m (s + of_nat j))"
  have same: "?m (s + of_nat k) = m (s + of_nat k)" if "k < N" for k
  proof -
    have "within (d + of_nat j) d N" using Cons.prems(2) assms(2)
      by (simp add: within_def unsigned_of_nat take_bit_nat_eq_self)
    then have "s + of_nat k \<noteq> d + of_nat j" using assms(1) that unfolding disjoint_def by metis
    then show ?thesis by simp
  qed
  have "cstring ?m (s + of_nat k) ys = cstring m (s + of_nat k) ys" if "k + length ys < N" for k ys
    using that
  proof (induction ys arbitrary: k)
    case (Cons y ys)
    then show ?case using same [of k] Cons.IH [of "Suc k"] by (simp add: ac_simps)
  qed (use same in auto)
  moreover have e: "s + of_nat (Suc j) = s + of_nat j + 1" by (simp add: ac_simps)
  ultimately have "cstring ?m (s + of_nat (Suc j)) xs"
    using Cons.prems by (metis add_Suc add_Suc_right cstring.simps(2) list.size(4) One_nat_def add.right_neutral)
  then have "strcpy ?m (d + of_nat (Suc j)) (s + of_nat (Suc j)) = Some (memcpy_from (Suc (length xs)) ?m d s (of_nat (Suc j)))"
    by (rule Cons.IH) (use Cons.prems(2) in simp)
  then show ?case using Cons.prems by (subst strcpy.simps) (simp add: ac_simps)
qed

text \<open>What the copy leaves: the string at its new place, and nothing else changed.\<close>

lemma strcpy_cstring:
  assumes "cstring m s xs" "disjoint s d (Suc (length xs))" "Suc (length xs) \<le> 2 ^ 64"
  shows "\<exists>m'. strcpy m d s = Some m' \<and> cstring m' d xs \<and> (\<forall>a. \<not> within a d (Suc (length xs)) \<longrightarrow> m' a = m a)"
proof -
  let ?m = "memcpy_from (Suc (length xs)) m d s 0"
  have c: "strcpy m d s = Some ?m"
    using strcpy_memcpy [OF assms(2,3), of m 0 xs] assms(1) by simp
  have ap: "?m a = (if within a d (Suc (length xs)) then m (s + (a - d)) else m a)" for a
    using memcpy_from_apply [OF assms(3), of s 0 d m a] assms(2) by (simp add: disjoint_def)
  have "cstring ?m (d + of_nat k) ys" if "cstring m (s + of_nat k) ys" "k + length ys \<le> length xs" for k ys
    using that
  proof (induction ys arbitrary: k)
    case (Cons y ys)
    have "within (d + of_nat k) d (Suc (length xs))" using Cons.prems(2) assms(3)
      by (simp add: within_def unsigned_of_nat take_bit_nat_eq_self)
    then show ?case using Cons.prems Cons.IH [of "Suc k"] ap [of "d + of_nat k"] by (simp add: ac_simps)
  next
    case Nil
    have "within (d + of_nat k) d (Suc (length xs))" using Nil.prems(2) assms(3)
      by (simp add: within_def unsigned_of_nat take_bit_nat_eq_self)
    then show ?case using Nil.prems ap [of "d + of_nat k"] by simp
  qed
  from this [of 0 xs] show ?thesis using c ap assms(1) by simp
qed

lemma strchr_cstring:
  "cstring m s xs \<Longrightarrow> c \<noteq> 0 \<Longrightarrow>
   strchr m s (ucast (c :: u8)) = Some (if c \<in> set xs then s + of_nat (length (takeWhile (\<lambda>x. x \<noteq> c) xs)) else NULL)"
proof (induction xs arbitrary: s)
  case Nil
  then show ?case by (subst strchr.simps) (simp add: ucast_back_32)
next
  case (Cons x xs)
  then show ?case by (subst strchr.simps) (auto simp: ucast_back_32 add.assoc)
qed

text \<open>Cutting a string off.\<close>

lemma cstring_nth: "cstring m s xs \<Longrightarrow> i < length xs \<Longrightarrow> m (s + of_nat i) = xs ! i"
proof (induction xs arbitrary: s i)
  case (Cons x xs)
  then show ?case using Cons.IH [of "s + 1" "i - 1"] by (cases i) (simp_all add: add.assoc)
qed simp

lemma cstring_cut:
  assumes "cstring m s xs" "k \<le> length xs" "length xs < 2 ^ 64"
  shows "cstring (m(s + of_nat k := 0)) s (take k xs)"
proof (rule cstring_holds)
  show "holds (m(s + of_nat k := 0)) s (take k xs)"
    using assms(2,3) nat_eq_below [of _ k] cstring_nth [OF assms(1)] by (auto simp: holds_def)
  have "0 \<notin> set xs" using assms(1) by (induction xs arbitrary: s) auto
  then show "0 \<notin> set (take k xs)" using set_take_subset by fastforce
qed (use assms(2) in simp)

lemma cstring_suffix: "cstring m s (xs @ ys) \<Longrightarrow> cstring m (s + of_nat (length xs)) ys"
proof (induction xs arbitrary: s)
  case (Cons x xs)
  then show ?case using Cons.IH [of "s + 1"] by (simp add: add.assoc)
qed simp

lemma takeWhile_before: "c \<notin> set us \<Longrightarrow> takeWhile (\<lambda>x. x \<noteq> c) (us @ c # vs) = us"
  by (induction us) auto

text \<open>The last name: what follows the last slash.\<close>

definition last_part :: "u8 list \<Rightarrow> u8 list" where
  "last_part xs = rev (takeWhile (\<lambda>c. c \<noteq> slash) (rev xs))"

lemma last_part_plain:
  assumes "slash \<notin> set xs"
  shows "last_part xs = xs"
proof -
  have "takeWhile (\<lambda>c. c \<noteq> slash) (rev xs) = rev xs" using assms by auto
  then show ?thesis unfolding last_part_def by (metis rev_rev_ident)
qed

lemma last_part_append: "last_part (us @ slash # vs) = last_part vs"
proof (cases "slash \<in> set vs")
  case True
  then show ?thesis using takeWhile_append1 [of slash "rev vs" "\<lambda>c. c \<noteq> slash" "[slash] @ rev us"] by (simp add: last_part_def)
next
  case False
  then have "takeWhile (\<lambda>c. c \<noteq> slash) (rev vs @ slash # rev us) = rev vs"
    using takeWhile_append2 [of "rev vs" "\<lambda>c. c \<noteq> slash" "slash # rev us"] by auto
  then show ?thesis using last_part_plain [OF False] by (simp add: last_part_def)
qed

lemma last_name_part:
  assumes "cstring m p xs" "fits p (length xs)"
    and "p2 = (if slash \<in> set xs then p + of_nat (length (takeWhile (\<lambda>x. x \<noteq> slash) xs)) else NULL)"
  shows "last_name m p p2 = Some (p + of_nat (length xs - length (last_part xs)))"
  using assms
proof (induction xs arbitrary: p p2 rule: length_induct)
  case (1 xs)
  show ?case
  proof (cases "slash \<in> set xs")
    case False
    then have "last_part xs = xs" by (rule last_part_plain)
    then show ?thesis using 1(4) False by (subst last_name.simps) simp
  next
    case True
    obtain us vs where xs: "xs = us @ slash # vs" and us: "slash \<notin> set us" using split_list_first [OF True] by blast
    have tw: "takeWhile (\<lambda>x. x \<noteq> slash) xs = us" unfolding xs by (rule takeWhile_before [OF us])
    define n where "n = length us"
    have len: "length xs = n + 1 + length vs" by (simp add: xs n_def)
    have p2: "p2 = p + of_nat n" "p2 \<noteq> NULL" using 1(4) True fits_add [OF 1(3), of n] len by (simp_all add: n_def tw)
    have "cstring m (p + of_nat (n + 1)) vs"
      using cstring_suffix [of m p "us @ [slash]" vs] 1(2) by (simp add: xs n_def)
    then have c: "cstring m (p2 + 1) vs" using p2(1) by (simp add: ac_simps)
    have f: "fits (p2 + 1) (length vs)"
      using fits_add [OF 1(3), of "n + 1"] 1(3) len p2(1) by (simp add: fits_def ac_simps)
    have lp: "last_part xs = last_part vs"
      unfolding xs by (rule last_part_append)
    have "length (last_part vs) \<le> length vs" unfolding last_part_def by (metis length_rev length_takeWhile_le)
    moreover have "last_name m (p2 + 1) (if slash \<in> set vs then p2 + 1 + of_nat (length (takeWhile (\<lambda>x. x \<noteq> slash) vs)) else NULL)
        = Some (p2 + 1 + of_nat (length vs - length (last_part vs)))"
      using 1(1) c f len by auto
    moreover have "strchr m (p2 + 1) (ucast slash) = Some (if slash \<in> set vs then p2 + 1 + of_nat (length (takeWhile (\<lambda>x. x \<noteq> slash) vs)) else NULL)"
      using strchr_cstring [OF c, of slash] by simp
    moreover have "length xs - length (last_part xs) = (n + 1) + (length vs - length (last_part vs))"
      using calculation(1) lp len by simp
    then have "p2 + 1 + of_nat (length vs - length (last_part vs)) = p + of_nat (length xs - length (last_part xs))"
      by (simp only: p2(1) of_nat_add of_nat_1 add.assoc)
    ultimately show ?thesis using p2(2) by (subst last_name.simps) simp
  qed
qed

text \<open>Copying a name and cutting it off at the next slash.\<close>

lemma copy_first:
  assumes "cstring m q ys" "disjoint q first (Suc (length ys))" "fits first (length ys)"
  shows "\<exists>m'. Option.bind (strcpy m first q) (\<lambda>m. Option.bind (strchr m first (ucast slash)) (\<lambda>p2.
      Some (if p2 \<noteq> NULL then m(p2 := 0) else m))) = Some m'
    \<and> cstring m' first (takeWhile (\<lambda>c. c \<noteq> slash) ys) \<and> (\<forall>a. \<not> within a first (Suc (length ys)) \<longrightarrow> m' a = m a)"
proof -
  have len: "length ys < 2 ^ 64" using assms(3) by (simp add: fits_def)
  obtain m2 where m2: "strcpy m first q = Some m2" "cstring m2 first ys" "\<forall>a. \<not> within a first (Suc (length ys)) \<longrightarrow> m2 a = m a"
    using strcpy_cstring [OF assms(1,2)] len by auto
  let ?n = "length (takeWhile (\<lambda>c. c \<noteq> slash) ys)"
  have st: "strchr m2 first (ucast slash) = Some (if slash \<in> set ys then first + of_nat ?n else NULL)"
    using strchr_cstring [OF m2(2), of slash] by simp
  show ?thesis
  proof (cases "slash \<in> set ys")
    case True
    have n: "?n \<le> length ys" by (rule length_takeWhile_le)
    then have nn: "first + of_nat ?n \<noteq> NULL" using fits_add [OF assms(3)] by blast
    have "within (first + of_nat ?n) first (Suc (length ys))"
      using n len by (simp add: within_def unsigned_of_nat take_bit_nat_eq_self)
    moreover have "cstring (m2(first + of_nat ?n := 0)) first (takeWhile (\<lambda>c. c \<noteq> slash) ys)"
      using cstring_cut [OF m2(2) n len] unfolding takeWhile_eq_take [symmetric] .
    ultimately show ?thesis using m2 st True nn by auto
  next
    case False
    then have e: "takeWhile (\<lambda>c. c \<noteq> slash) ys = ys" by auto
    show ?thesis unfolding e using m2 st False by simp
  qed
qed

lemma disjoint_suffix: "disjoint s d (k + n) \<Longrightarrow> disjoint (s + of_nat k) d n"
proof -
  assume a: "disjoint s d (k + n)"
  have "\<not> within (s + of_nat k + of_nat i) d n" if "i < n" for i
  proof -
    have "\<not> within (s + of_nat (k + i)) d (k + n)" using a that unfolding disjoint_def by (metis add_less_cancel_left)
    then show ?thesis by (simp add: within_def ac_simps)
  qed
  then show ?thesis by (simp add: disjoint_def)
qed

lemma cstring_other:
  "cstring m s xs \<Longrightarrow> (\<And>k. k \<le> length xs \<Longrightarrow> m' (s + of_nat k) = m (s + of_nat k)) \<Longrightarrow> cstring m' s xs"
proof (induction xs arbitrary: s)
  case (Cons x xs)
  have "m' (s + 1 + of_nat k) = m (s + 1 + of_nat k)" if "k \<le> length xs" for k
    using Cons.prems(2) [of "Suc k"] that by (simp add: add.assoc)
  then have "cstring m' (s + 1) xs" using Cons.IH [of "s + 1"] Cons.prems(1) by simp
  then show ?case using Cons.prems(1) Cons.prems(2) [of 0] by simp
next
  case Nil
  then show ?case using Nil.prems(2) [of 0] by simp
qed

lemma last_part_suffix: "\<exists>us. xs = us @ last_part xs"
proof -
  have "rev xs = takeWhile (\<lambda>c. c \<noteq> slash) (rev xs) @ dropWhile (\<lambda>c. c \<noteq> slash) (rev xs)" by simp
  then have "xs = rev (dropWhile (\<lambda>c. c \<noteq> slash) (rev xs)) @ last_part xs"
    unfolding last_part_def by (metis rev_append rev_rev_ident)
  then show ?thesis by blast
qed

section \<open>Properties\<close>

text \<open>
  The first name of a path. For a string in the path buffer and room for all of it in the other,
  \<open>vfs_parse_first\<close> leaves there the part before the next slash, a leading slash apart, and writes
  nothing outside that buffer.
\<close>

theorem first_name_parsed:
  assumes "cstring m p xs" "fits first (length xs)" "disjoint p first (Suc (length xs))"
  shows "\<exists>m'. vfs_parse_first m p first = Some m'
    \<and> cstring m' first (takeWhile (\<lambda>c. c \<noteq> slash) (if xs \<noteq> [] \<and> hd xs = slash then tl xs else xs))
    \<and> (\<forall>a. \<not> within a first (Suc (length xs)) \<longrightarrow> m' a = m a)"
proof (cases "m p = slash")
  case False
  then have n: "\<not> (xs \<noteq> [] \<and> hd xs = slash)" using assms(1) by (cases xs) auto
  show ?thesis unfolding if_not_P [OF n] using copy_first [OF assms(1,3,2)] False by (simp add: vfs_parse_first_def)
next
  case True
  then obtain ys where xs: "xs = slash # ys" "cstring m (p + 1) ys" using assms(1) by (cases xs) auto
  let ?m = "if m (p + 1) = 0 then m(first := 0) else m"
  have here: "within first first (Suc (length ys))" by (simp add: within_def)
  have d: "disjoint (p + 1) first (Suc (length ys))" using disjoint_suffix [of p first 1] assms(3) xs(1) by simp
  have "p + 1 \<noteq> first" using here spec [OF d [unfolded disjoint_def], of 0] by auto
  then have c: "cstring ?m (p + 1) ys" using xs(2) by (cases ys) auto
  have f: "fits first (length ys)" using assms(2) xs(1) by (simp add: fits_def)
  obtain m' where "Option.bind (strcpy ?m first (p + 1)) (\<lambda>m. Option.bind (strchr m first (ucast slash)) (\<lambda>p2.
      Some (if p2 \<noteq> NULL then m(p2 := 0) else m))) = Some m'" "cstring m' first (takeWhile (\<lambda>c. c \<noteq> slash) ys)"
    "\<forall>a. \<not> within a first (Suc (length ys)) \<longrightarrow> m' a = ?m a"
    using copy_first [OF c d f] by blast
  then show ?thesis using True xs(1) here by (auto simp: vfs_parse_first_def Let_def within_def)
qed

text \<open>
  C31. The last name of a path: \<open>vfs_parse_last\<close> leaves in the other buffer what follows the last slash, all
  of the path when there is none, and writes nothing outside that buffer.
\<close>

theorem last_name_parsed:
  assumes "cstring m p xs" "fits p (length xs)" "fits dest (length xs)" "disjoint p dest (Suc (length xs))"
  shows "\<exists>m'. vfs_parse_last m p dest = Some m' \<and> cstring m' dest (last_part xs)
    \<and> (\<forall>a. \<not> within a dest (Suc (length xs)) \<longrightarrow> m' a = m a)"
proof -
  have c: "strchr m p (ucast slash) = Some (if slash \<in> set xs then p + of_nat (length (takeWhile (\<lambda>x. x \<noteq> slash) xs)) else NULL)"
    using strchr_cstring [OF assms(1), of slash] by simp
  have len: "Suc (length xs) \<le> 2 ^ 64" using assms(2) by (simp add: fits_def)
  show ?thesis
  proof (cases "slash \<in> set xs")
    case True
    obtain us where us: "xs = us @ last_part xs" using last_part_suffix by blast
    have n: "length xs = length us + length (last_part xs)" using arg_cong [OF us, of length] by simp
    let ?q = "p + of_nat (length us)"
    have q: "last_name m p (p + of_nat (length (takeWhile (\<lambda>x. x \<noteq> slash) xs))) = Some ?q"
      using last_name_part [OF assms(1,2)] True n by simp
    have "cstring m ?q (last_part xs)" using cstring_suffix [of m p us "last_part xs"] assms(1) us by simp
    moreover have "disjoint ?q dest (Suc (length (last_part xs)))" using disjoint_suffix [of p dest "length us"] assms(4) n by simp
    ultimately obtain m' where "strcpy m dest ?q = Some m'" "cstring m' dest (last_part xs)"
      "\<forall>a. \<not> within a dest (Suc (length (last_part xs))) \<longrightarrow> m' a = m a"
      using strcpy_cstring [of m ?q "last_part xs" dest] len n by auto
    moreover have "p + of_nat (length (takeWhile (\<lambda>x. x \<noteq> slash) xs)) \<noteq> NULL"
      using fits_add [OF assms(2) length_takeWhile_le] by blast
    ultimately show ?thesis using c q True n by (auto simp: vfs_parse_last_def within_def)
  next
    case False
    then have l: "last_part xs = xs" by (rule last_part_plain)
    obtain m1 where m1: "strcpy m dest p = Some m1" "\<forall>a. \<not> within a dest (Suc (length xs)) \<longrightarrow> m1 a = m a"
      using strcpy_cstring [OF assms(1,4) len] by auto
    have "cstring m1 p xs" by (rule cstring_other [OF assms(1)]) (use m1(2) assms(4) in \<open>auto simp: disjoint_def\<close>)
    then obtain m2 where m2: "strcpy m1 dest p = Some m2" "cstring m2 dest xs" "\<forall>a. \<not> within a dest (Suc (length xs)) \<longrightarrow> m2 a = m1 a"
      using strcpy_cstring [OF _ assms(4) len] by blast
    have "last_name m1 p NULL = Some p" by (subst last_name.simps) simp
    then show ?thesis using c m1 m2 False l by (simp add: vfs_parse_last_def)
  qed
qed

text \<open>The path main tries the functions on.\<close>

definition demo_path :: mem where
  "demo_path = (\<lambda>a. if a - 0x1000 < 14 then chars ''/home/dev/last'' ! unat (a - 0x1000) else 0)"

lemma demo_path_string: "cstring demo_path 0x1000 (chars ''/home/dev/last'')"
  by (simp add: demo_path_def chars_def)

lemma demo_disjoint: "disjoint 0x1000 0x2000 (Suc (length (chars ''/home/dev/last'')))"
proof -
  have "\<not> within (0x1000 + of_nat k) 0x2000 15" if "k < 15" for k
    using that by (simp add: within_def less_Suc_eq numeral_eq_Suc) auto
  moreover have "Suc (length (chars ''/home/dev/last'')) = 15" by (simp add: chars_def)
  ultimately show ?thesis unfolding disjoint_def by metis
qed

lemma first_name_parsed_witness:
  "\<exists>m'. vfs_parse_first demo_path 0x1000 0x2000 = Some m' \<and> cstring m' 0x2000 (chars ''home'')"
  using first_name_parsed [OF demo_path_string _ demo_disjoint] by (auto simp: fits_def chars_def)

lemma last_name_parsed_witness:
  "\<exists>m'. vfs_parse_last demo_path 0x1000 0x2000 = Some m' \<and> cstring m' 0x2000 (chars ''last'')"
  using last_name_parsed [OF demo_path_string _ _ demo_disjoint] by (auto simp: fits_def chars_def last_part_def)

end
