(* ===== verification/DiskMem.thy ===== *)
theory DiskMem
  imports Process
begin

text \<open>
  Reading a disk into memory. The drivers of BlockDev tell the device what to read and where to; what the
  device has then written to memory is a function of what happened on the bus, and of the memory before.
\<close>

type_synonym dma = "io list \<Rightarrow> mem \<Rightarrow> mem"

definition set_mem :: "mem \<Rightarrow> 'a kernel_scheme \<Rightarrow> 'a kernel_scheme" where
  "set_mem m s = s\<lparr>mm := (mm s)\<lparr>hw := (hw (mm s))\<lparr>mem := m\<rparr>\<rparr>\<rparr>"

abbreviation kmem :: "'a kernel_scheme \<Rightarrow> mem" where
  "kmem s \<equiv> mem (hw (mm s))"

definition deliver :: "dma \<Rightarrow> 'a kernel_scheme \<Rightarrow> 'a kernel_scheme" where
  "deliver dma s = set_mem (dma (hist s) (kmem s)) s"

text \<open>A read of a disk as the file systems and the loader use it.\<close>

definition disk_read :: "('a os_scheme \<Rightarrow> u64 \<Rightarrow> u64 \<Rightarrow> u64 \<Rightarrow> u32 \<Rightarrow> ('a os_scheme, bool) outcome) \<Rightarrow> dma
    \<Rightarrow> 'a os_scheme \<Rightarrow> u64 \<Rightarrow> u64 \<Rightarrow> u64 \<Rightarrow> ('a os_scheme, bool) outcome" where
  "disk_read rw dma s buff byte_start byte_end =
     and_then (rw s buff byte_start byte_end 0) (\<lambda>s ok. Ret (deliver dma s) ok)"

text \<open>Giving a page back; \<open>None\<close> of the allocator is a shift or an index out of range, or an endless loop.\<close>

definition give_back :: "u64 \<Rightarrow> 'a kernel_scheme \<Rightarrow> ('a kernel_scheme, unit) outcome" where
  "give_back p s = (case with_hw (\<lambda>h. cpage_free h p) s of None \<Rightarrow> Undef | Some s \<Rightarrow> Ret s ())"

lemma set_mem_fields [simp]:
  "kmem (set_mem m s) = m" "hist (set_mem m s) = hist s" "kernel_mmu_table (set_mem m s) = kernel_mmu_table s"
  "vm (set_mem m s) = vm s" "klog (set_mem m s) = klog s"
  by (simp_all add: set_mem_def)

lemma set_mem_osk [simp]:
  "fw (set_mem m s) = fw s" "procs (set_mem m s') = procs s'" "p_current (set_mem m s') = p_current s'"
  by (simp_all add: set_mem_def)

end
