(* ===== verification/CStruct.thy ===== *)
theory CStruct
  imports Memory
begin

text \<open>
  The layout of C structures: how the compiler places the fields of a struct of integers and arrays of
  integers. A field has its name, the width of its elements in bytes, and their number. Every
  field starts at the next multiple of its width, and the size of the struct is a multiple of its widest
  field. The file systems' structures are tables of this kind.
\<close>

type_synonym cfield = "string \<times> nat \<times> nat"

type_synonym cstruct = "string \<Rightarrow> u64"

definition next_multiple :: "nat \<Rightarrow> nat \<Rightarrow> nat" where
  "next_multiple w p = (p + w - 1) div w * w"

text \<open>The fields with their offsets and lengths in bytes, the first free byte being \<open>p\<close>.\<close>

fun layout :: "nat \<Rightarrow> cfield list \<Rightarrow> (string \<times> nat \<times> nat) list" where
  "layout p [] = []"
| "layout p ((f, w, c) # fs) = (f, next_multiple w p, w * c) # layout (next_multiple w p + w * c) fs"

fun layout_end :: "nat \<Rightarrow> cfield list \<Rightarrow> nat" where
  "layout_end p [] = p"
| "layout_end p ((f, w, c) # fs) = layout_end (next_multiple w p + w * c) fs"

definition struct_size :: "cfield list \<Rightarrow> nat" where
  "struct_size fs = next_multiple (foldr (\<lambda>(f, w, c). max w) fs 1) (layout_end 0 fs)"

definition offset_of :: "cfield list \<Rightarrow> string \<Rightarrow> nat" where
  "offset_of fs f = (case map_of (layout 0 fs) f of None \<Rightarrow> 0 | Some (p, n) \<Rightarrow> p)"

text \<open>The value of a field of the structure at an address, its first element when it is an array.\<close>

definition load_width :: "nat \<Rightarrow> mem \<Rightarrow> u64 \<Rightarrow> u64" where
  "load_width w m a =
     (if w = 1 then ucast (m a) else if w = 2 then ucast (load16 m a) else if w = 4 then ucast (load32 m a) else load64 m a)"

definition struct_at :: "cfield list \<Rightarrow> mem \<Rightarrow> u64 \<Rightarrow> cstruct" where
  "struct_at fs m a f = (case map_of fs f of None \<Rightarrow> 0 | Some (w, c) \<Rightarrow> load_width w m (a + of_nat (offset_of fs f)))"

section \<open>What every layout satisfies\<close>

definition positive :: "cfield list \<Rightarrow> bool" where
  "positive fs \<longleftrightarrow> (\<forall>(f, w, c) \<in> set fs. 0 < w)"

lemma next_multiple:
  assumes "0 < w"
  shows "w dvd next_multiple w p" "p \<le> next_multiple w p" "next_multiple w p < p + w"
proof -
  have e: "p + w - 1 = (p + w - 1) div w * w + (p + w - 1) mod w" by simp
  have "(p + w - 1) mod w < w" using assms by simp
  then show "p \<le> next_multiple w p" "next_multiple w p < p + w" unfolding next_multiple_def using e assms by linarith+
  show "w dvd next_multiple w p" by (simp add: next_multiple_def)
qed

lemma next_multiple_id: "0 < w \<Longrightarrow> w dvd p \<Longrightarrow> next_multiple w p = p"
  using next_multiple(1) [of w p] next_multiple(2,3) [of w p]
  by (metis add_diff_inverse_nat add_less_cancel_left dvd_diff_nat le_antisym linorder_not_less nat_dvd_not_less zero_less_diff)

lemma layout_end_ge: "positive fs \<Longrightarrow> p \<le> layout_end p fs"
proof (induction p fs rule: layout_end.induct)
  case (2 p f w c fs)
  have "p \<le> next_multiple w p" using 2(2) next_multiple(2) [of w p] by (auto simp: positive_def)
  also have "\<dots> \<le> layout_end (next_multiple w p + w * c) fs" using 2 by (fastforce simp: positive_def)
  finally show ?case by simp
qed simp

lemma layout_field:
  "positive fs \<Longrightarrow> (f, q, n) \<in> set (layout p fs) \<Longrightarrow>
     p \<le> q \<and> q + n \<le> layout_end p fs \<and> (\<exists>w c. (f, w, c) \<in> set fs \<and> w dvd q \<and> n = w * c)"
proof (induction p fs rule: layout.induct)
  case (2 p g w c fs)
  have w: "0 < w" "positive fs" using 2(2) by (auto simp: positive_def)
  show ?case
  proof (cases "(f, q, n) = (g, next_multiple w p, w * c)")
    case True
    then show ?thesis using next_multiple [OF w(1), of p] layout_end_ge [OF w(2)] by auto
  next
    case False
    then have "(f, q, n) \<in> set (layout (next_multiple w p + w * c) fs)" using 2(3) by auto
    then show ?thesis using 2(1) [OF w(2)] next_multiple(2) [OF w(1), of p] by fastforce
  qed
qed simp

lemma layout_ordered: "positive fs \<Longrightarrow> sorted_wrt (\<lambda>(f, q, n) (g, q', n'). q + n \<le> q') (layout p fs)"
proof (induction p fs rule: layout.induct)
  case (2 p f w c fs)
  then have "positive fs" by (auto simp: positive_def)
  then show ?case using 2 layout_field [of fs _ _ _ "next_multiple w p + w * c"] by fastforce
qed simp

end
