(* ===== verification/Minix.thy ===== *)
theory Minix
  imports DiskMem VfsPath
begin

unbundle bit_operations_syntax

text \<open>
  The walk over a Minix 3 file system (src/src/minix3.c, src/src/include/minix3.h). Structures of the
  disk are read as records at the offsets of their C declarations. The local \<open>addr\<close> is used before it is
  set; the value it happens to hold is an argument. The recursion of \<open>minix_print\<close> is bounded by the
  number of calls the kernel stack has room for, another argument; running out of it is undefined.
\<close>

section \<open>On-disk structures\<close>

abbreviation (input) BLOCK_SIZE :: u64 where "BLOCK_SIZE \<equiv> 1024"
abbreviation (input) MINIX3_MAGIC :: u16 where "MINIX3_MAGIC \<equiv> 0x4d5a"

record Superblock =
  num_inodes :: u32
  imap_blocks :: u16
  zmap_blocks :: u16
  first_data_zone :: u16
  log_zone_size :: u16
  max_size :: u32
  num_zones :: u32
  magic :: u16
  block_size :: u16
  disk_version :: u8

definition superblock_at :: "mem \<Rightarrow> u64 \<Rightarrow> Superblock" where
  "superblock_at m a =
     \<lparr>num_inodes = load32 m a, imap_blocks = load16 m (a + 6), zmap_blocks = load16 m (a + 8),
      first_data_zone = load16 m (a + 10), log_zone_size = load16 m (a + 12), max_size = load32 m (a + 16),
      num_zones = load32 m (a + 20), magic = load16 m (a + 24), block_size = load16 m (a + 28), disk_version = m (a + 30)\<rparr>"

record Inode =
  i_mode :: u16
  nlinks :: u16
  i_uid :: u16
  i_gid :: u16
  i_size :: u32
  atime :: u32
  mtime :: u32
  ctime :: u32
  zones :: "u32 list"

definition inode_at :: "mem \<Rightarrow> u64 \<Rightarrow> Inode" where
  "inode_at m a =
     \<lparr>i_mode = load16 m a, nlinks = load16 m (a + 2), i_uid = load16 m (a + 4), i_gid = load16 m (a + 6),
      i_size = load32 m (a + 8), atime = load32 m (a + 12), mtime = load32 m (a + 16), ctime = load32 m (a + 20),
      zones = List.map (\<lambda>k. load32 m (a + 24 + 4 * of_nat k)) [0..<10]\<rparr>"

record DirEntry =
  de_inode :: u32
  de_name :: "u8 list"

definition direntry_at :: "mem \<Rightarrow> u64 \<Rightarrow> DirEntry" where
  "direntry_at m a = \<lparr>de_inode = load32 m a, de_name = List.map (\<lambda>k. m (a + 4 + of_nat k)) [0..<60]\<rparr>"

definition OFFSET :: "u32 \<Rightarrow> u16 \<Rightarrow> u16 \<Rightarrow> u64" where
  "OFFSET inum iblocks zblocks = ucast (1024 + 1024 + (inum - 1) * 64 + ucast iblocks * 1024 + ucast zblocks * 1024 :: u32)"

definition S_ISDIR :: "u16 \<Rightarrow> bool" where
  "S_ISDIR m \<longleftrightarrow> m AND 0xF000 = 0x4000"

section \<open>minix3.c\<close>

text \<open>Every call hands \<open>BLOCK_SIZE\<close> to the driver, which takes it for the end of the transfer.\<close>

definition minix_read :: "device \<Rightarrow> dma \<Rightarrow> 'a os_scheme \<Rightarrow> u64 \<Rightarrow> u64 \<Rightarrow> ('a os_scheme, bool) outcome" where
  "minix_read dev dma s buff byte = disk_read (minix_disk_rw dev) dma s buff byte BLOCK_SIZE"

text \<open>\<open>strcpy(at, de.name)\<close>; a name without an end is read beyond the structure.\<close>

fun store_bytes :: "mem \<Rightarrow> u64 \<Rightarrow> u8 list \<Rightarrow> mem" where
  "store_bytes m a [] = m"
| "store_bytes m a (x # xs) = store_bytes (m(a := x)) (a + 1) xs"

definition put_name :: "'a kernel_scheme \<Rightarrow> u64 \<Rightarrow> u8 list \<Rightarrow> ('a kernel_scheme, unit) outcome" where
  "put_name s a name =
     (if 0 \<in> set name then Ret (set_mem (store_bytes (kmem s) a (takeWhile (\<lambda>c. c \<noteq> 0) name @ [0])) s) () else Undef)"

definition entry_count :: "u32 \<Rightarrow> nat" where
  "entry_count sz = (unat sz - 65) div 64"

text \<open>The loops over directory entries, from offset \<open>i\<close>; \<open>visit\<close> is the recursive call.\<close>

fun print_entries ::
  "(u32 \<Rightarrow> 'a os_scheme \<Rightarrow> ('a os_scheme, unit) outcome) \<Rightarrow> u64 \<Rightarrow> u64 \<Rightarrow> nat \<Rightarrow> u64 \<Rightarrow> 'a os_scheme \<Rightarrow> ('a os_scheme, unit) outcome" where
  "print_entries visit blockbuf a 0 i s = Ret s ()"
| "print_entries visit blockbuf a (Suc n) i s =
     (let de = direntry_at (kmem s) (blockbuf + i) in
      and_then (put_name s a (de_name de)) (\<lambda>s _.
      and_then (visit (de_inode de) s) (\<lambda>s _. print_entries visit blockbuf a n (i + 64) s)))"

text \<open>
  The direct zones. The loop variable \<open>i\<close> is used again by the loop over the entries inside; the
  first argument bounds the rounds, of which there are at most seven. The result says whether the
  function goes on.
\<close>

fun direct_zones ::
  "nat \<Rightarrow> device \<Rightarrow> dma \<Rightarrow> (u32 \<Rightarrow> 'a os_scheme \<Rightarrow> ('a os_scheme, unit) outcome) \<Rightarrow> Inode \<Rightarrow> u64 \<Rightarrow> u64 \<Rightarrow> nat
     \<Rightarrow> 'a os_scheme \<Rightarrow> ('a os_scheme, bool) outcome" where
  "direct_zones 0 dev dma visit ino blockbuf a i s = Ret s True"
| "direct_zones (Suc n) dev dma visit ino blockbuf a i s =
     (if i < 7 then
        if zones ino ! i = 0 then direct_zones n dev dma visit ino blockbuf a (i + 1) s
        else and_then (minix_read dev dma s blockbuf (ucast (zones ino ! i * 1024))) (\<lambda>s ok.
          if \<not> ok then Ret (say ''Unable to read inode'' s) False
          else and_then (print_entries visit blockbuf a (entry_count (i_size ino)) 128 s) (\<lambda>s _.
            direct_zones n dev dma visit ino blockbuf a (128 + 64 * entry_count (i_size ino) + 1) s))
      else Ret s True)"

text \<open>An indirect zone: \<open>n\<close> times eight bytes go to where \<open>addr\<close> points, and block \<open>addr\<close> is read.\<close>

fun follow :: "nat \<Rightarrow> device \<Rightarrow> dma \<Rightarrow> u64 \<Rightarrow> u64 \<Rightarrow> 'a os_scheme \<Rightarrow> ('a os_scheme, unit) outcome" where
  "follow 0 dev dma addr blockbuf s = Ret s ()"
| "follow (Suc n) dev dma addr blockbuf s =
     and_then (minix_read dev dma (set_mem (memcpy (kmem s) addr blockbuf 8) s) blockbuf (addr * BLOCK_SIZE)) (\<lambda>s _.
       follow n dev dma addr blockbuf s)"

definition indirect_zone ::
  "device \<Rightarrow> dma \<Rightarrow> u64 \<Rightarrow> (u32 \<Rightarrow> 'a os_scheme \<Rightarrow> ('a os_scheme, unit) outcome) \<Rightarrow> Inode \<Rightarrow> u64 \<Rightarrow> u64 \<Rightarrow> nat \<Rightarrow> nat
     \<Rightarrow> 'a os_scheme \<Rightarrow> ('a os_scheme, unit) outcome" where
  "indirect_zone dev dma addr visit ino blockbuf a k n s =
     (if zones ino ! k \<noteq> 0 then
        and_then (minix_read dev dma s blockbuf (ucast (zones ino ! 7 * 1024))) (\<lambda>s _.
        and_then (follow n dev dma addr blockbuf s) (\<lambda>s _.
          print_entries visit blockbuf a (entry_count (i_size ino)) 128 s))
      else Ret s ())"

definition print_directory ::
  "device \<Rightarrow> dma \<Rightarrow> u64 \<Rightarrow> (u32 \<Rightarrow> 'a os_scheme \<Rightarrow> ('a os_scheme, unit) outcome) \<Rightarrow> u64 \<Rightarrow> Inode \<Rightarrow> u64
     \<Rightarrow> 'a os_scheme \<Rightarrow> ('a os_scheme, unit) outcome" where
  "print_directory dev dma addr visit p ino blockbuf s =
     (case strlen (kmem s) p of
        None \<Rightarrow> Undef
      | Some len \<Rightarrow>
          let e = p + of_nat len; s = set_mem ((kmem s)(e := slash, e + 1 := 0)) s in
          and_then (direct_zones 7 dev dma visit ino blockbuf (e + 1) 0 s) (\<lambda>s go_on.
          if \<not> go_on then Ret s ()
          else and_then (indirect_zone dev dma addr visit ino blockbuf (e + 1) 7 1 s) (\<lambda>s _.
            and_then (indirect_zone dev dma addr visit ino blockbuf (e + 1) 8 2 s) (\<lambda>s _.
            and_then (indirect_zone dev dma addr visit ino blockbuf (e + 1) 9 3 s) (\<lambda>s _.
            give_back blockbuf s)))))"

primrec minix_print ::
  "nat \<Rightarrow> device \<Rightarrow> dma \<Rightarrow> u64 \<Rightarrow> Superblock \<Rightarrow> u64 \<Rightarrow> u32 \<Rightarrow> 'a os_scheme \<Rightarrow> ('a os_scheme, unit) outcome" where
  "minix_print 0 dev dma addr sb p inode s = Undef"
| "minix_print (Suc n) dev dma addr sb p inode s =
     (let (s, blockbuf) = znalloc s 1; byte = OFFSET inode (imap_blocks sb) (zmap_blocks sb); i = ALIGN_DOWN_POT byte BLOCK_SIZE;
          s = set_mem (memset (kmem s) blockbuf 0 1024) s in
      and_then (minix_read dev dma s blockbuf i) (\<lambda>s ok.
      if \<not> ok then Ret (say ''Unable to read inode'' s) ()
      else
        let ino = inode_at (kmem s) (blockbuf + (byte - i)); s = (if kmem s p \<noteq> 0 then say ''path'' s else s) in
        if S_ISDIR (i_mode ino) then print_directory dev dma addr (minix_print n dev dma addr sb p) p ino blockbuf s
        else give_back blockbuf s))"

definition minix_test :: "nat \<Rightarrow> device \<Rightarrow> dma \<Rightarrow> u64 \<Rightarrow> 'a os_scheme \<Rightarrow> ('a os_scheme, unit) outcome" where
  "minix_test depth dev dma addr s =
     (let (s, p) = znalloc s 1; (s, blockbuf) = znalloc s 1 in
      and_then (minix_read dev dma s blockbuf BLOCK_SIZE) (\<lambda>s ok.
      and_then
        (if \<not> ok then Ret (say ''Unable to read superblock'' s) ()
         else
           let sb = superblock_at (kmem s) blockbuf in
           if magic sb \<noteq> MINIX3_MAGIC then Ret (say ''This is not a Minix 3 file system'' s) ()
           else minix_print depth dev dma addr sb p 1 s)
        (\<lambda>s _. and_then (give_back p s) (\<lambda>s _. give_back blockbuf s))))"

section \<open>Lemmas\<close>

lemma direct_done: "7 \<le> i \<Longrightarrow> direct_zones n dev dma visit ino blockbuf a i s = Ret s True"
  by (cases n) simp_all

lemma direct_zones_find:
  "i + n = 7 \<Longrightarrow> direct_zones n dev dma visit ino blockbuf a i s =
     (case find (\<lambda>k. zones ino ! k \<noteq> 0) [i..<7] of
        None \<Rightarrow> Ret s True
      | Some k \<Rightarrow> and_then (minix_read dev dma s blockbuf (ucast (zones ino ! k * 1024))) (\<lambda>s ok.
          if \<not> ok then Ret (say ''Unable to read inode'' s) False
          else and_then (print_entries visit blockbuf a (entry_count (i_size ino)) 128 s) (\<lambda>s _. Ret s True)))"
proof (induction n arbitrary: i)
  case (Suc n)
  have i: "i < 7" "[i..<7] = i # [Suc i..<7]" using Suc.prems by (simp_all add: upt_conv_Cons)
  show ?case
  proof (cases "zones ino ! i = 0")
    case True
    then show ?thesis using Suc.IH [of "Suc i"] Suc.prems i by simp
  next
    case False
    then show ?thesis using i by (simp add: direct_done cong: if_cong)
  qed
qed simp

lemma more_znalloc: "world.more t = world.more s \<Longrightarrow> snd (znalloc t 1) = snd (znalloc s 1) \<and> hist (fst (znalloc t 1)) = hist t"
  for s t :: "'a kernel_scheme"
  by (cases s; cases t) (auto simp: znalloc_def split_def Let_def)

lemma block_split:
  "unat (ALIGN_DOWN_POT x 1024) = unat x div 1024 * 1024" "unat (x - ALIGN_DOWN_POT x 1024) = unat x mod 1024"
proof -
  have n: "(- 1024 :: u64) = NOT (mask 10)" by (simp add: mask_eq_exp_minus_1)
  have "ALIGN_DOWN_POT x 1024 = push_bit 10 (drop_bit 10 x)"
    unfolding ALIGN_DOWN_POT_def n by (intro bit_word_eqI) (auto simp: bit_simps dest: bit_imp_le_length)
  then have e: "ALIGN_DOWN_POT x 1024 = x - take_bit 10 x" using bits_ident [of 10 x] by (simp add: algebra_simps)
  have u: "unat (take_bit 10 x) = unat x mod 1024" by (simp only: unsigned_take_bit_eq take_bit_nat_def) simp
  then show "unat (x - ALIGN_DOWN_POT x 1024) = unat x mod 1024" by (simp add: e)
  have "take_bit 10 x \<le> x" by (simp add: word_le_nat_alt u)
  then have "unat (ALIGN_DOWN_POT x 1024) = unat x - unat x mod 1024" by (simp add: e unat_sub u)
  then show "unat (ALIGN_DOWN_POT x 1024) = unat x div 1024 * 1024" by (simp add: minus_mod_eq_div_mult)
qed

lemma OFFSET_slots:
  "\<exists>n. unat (OFFSET inum ib zb) = 64 * n \<and>
     (inum \<noteq> 0 \<and> 32 + (unat inum - 1) + 16 * unat ib + 16 * unat zb < 2 ^ 26 \<longrightarrow>
        n = 32 + (unat inum - 1) + 16 * unat ib + 16 * unat zb)"
proof -
  let ?x = "1024 + 1024 + (inum - 1) * 64 + ucast ib * 1024 + ucast zb * 1024 :: u32"
  have w: "?x = 64 * (32 + (inum - 1) + 16 * ucast ib + 16 * ucast zb)" by simp
  have up: "unat (ucast v :: u64) = unat v" for v :: u32
    using unsigned_less [of v, where 'a = nat] by (simp add: unsigned_ucast_eq take_bit_nat_eq_self)
  have up16: "unat (ucast v :: u32) = unat v" for v :: u16
    using unsigned_less [of v, where 'a = nat] by (simp add: unsigned_ucast_eq take_bit_nat_eq_self)
  have o: "unat (OFFSET inum ib zb) = unat ?x" unfolding OFFSET_def by (rule up)
  let ?y = "32 + (inum - 1) + 16 * ucast ib + 16 * ucast zb :: u32"
  have "unat (64 * y) = 64 * unat y mod 2 ^ 32" for y :: u32 by (simp add: unat_word_ariths)
  then have m: "unat ?x = 64 * unat ?y mod 2 ^ 32" unfolding w by blast
  also have "\<dots> = 64 * (unat ?y mod 2 ^ 26)" by (simp add: mult_mod_right)
  finally have d: "unat (OFFSET inum ib zb) = 64 * (unat ?y mod 2 ^ 26)" using o by simp
  have "unat ?y mod 2 ^ 26 = (32 + (unat inum - 1) + 16 * unat ib + 16 * unat zb) mod 2 ^ 26" if "inum \<noteq> 0"
  proof -
    have "unat inum \<noteq> 0" using that by (simp add: unat_0_iff)
    then obtain k where k: "unat inum = Suc k" using not0_implies_Suc by blast
    have "unat ?y = (32 + (unat inum - 1) + 16 * unat ib + 16 * unat zb) mod 2 ^ 32"
      by (simp add: unat_word_ariths mod_simps up16 k)
    then show ?thesis by (simp add: mod_mod_cancel)
  qed
  then show ?thesis using d by (intro exI [of _ "unat ?y mod 2 ^ 26"]) auto
qed

section \<open>Properties\<close>

text \<open>
  C37. Where an inode is found: its 64 bytes never cross the block that is read for it, whatever the numbers are; and
  inode \<open>inum\<close> is number \<open>(inum - 1) mod 16\<close> of block \<open>2 + imap_blocks + zmap_blocks + (inum - 1) div 16\<close>
  as long as the position fits into 32 bits.
\<close>

theorem inode_in_block:
  "let byte = OFFSET inum ib zb; i = ALIGN_DOWN_POT byte BLOCK_SIZE in
     unat (byte - i) + 64 \<le> 1024 \<and> unat i mod 1024 = 0
   \<and> (if inum \<noteq> 0 \<and> 32 + (unat inum - 1) + 16 * unat ib + 16 * unat zb < 2 ^ 26
       then unat i = 1024 * (2 + unat ib + unat zb + (unat inum - 1) div 16) \<and> unat (byte - i) = 64 * ((unat inum - 1) mod 16)
       else True)"
proof -
  let ?N = "32 + (unat inum - 1) + 16 * unat ib + 16 * unat zb"
  obtain n where n: "unat (OFFSET inum ib zb) = 64 * n" "inum \<noteq> 0 \<and> ?N < 2 ^ 26 \<longrightarrow> n = ?N" using OFFSET_slots by blast
  have s: "64 * n div 1024 = n div 16" "64 * n mod 1024 = 64 * (n mod 16)" using mult_mod_right [of 64 n 16] by simp_all
  have "64 * (n mod 16) + 64 \<le> 1024" using mod_less_divisor [of 16 n] by linarith
  moreover have "?N = unat inum - 1 + 16 * (2 + unat ib + unat zb)" by simp
  then have "?N div 16 = 2 + unat ib + unat zb + (unat inum - 1) div 16" "?N mod 16 = (unat inum - 1) mod 16"
    by (simp_all only: div_mult_self2 mod_mult_self2)
  ultimately show ?thesis unfolding Let_def block_split n(1) s using n(2) by auto
qed

text \<open>
  A directory shows the entries of one direct zone at most. The loop over the entries shares its variable
  with the loop over the zones, so after the first zone in use no other is looked at, whatever the
  entries were.
\<close>

theorem one_direct_zone:
  "direct_zones 7 dev dma visit ino blockbuf a 0 s =
     (case find (\<lambda>k. zones ino ! k \<noteq> 0) [0..<7] of
        None \<Rightarrow> Ret s True
      | Some k \<Rightarrow> and_then (minix_read dev dma s blockbuf (ucast (zones ino ! k * 1024))) (\<lambda>s ok.
          if \<not> ok then Ret (say ''Unable to read inode'' s) False
          else and_then (print_entries visit blockbuf a (entry_count (i_size ino)) 128 s) (\<lambda>s _. Ret s True)))"
  by (rule direct_zones_find) simp

text \<open>
  What a block read of the file system asks the disk for. The driver takes an end of the transfer where the
  file system gives a size, so the data descriptor is \<open>1024 - byte\<close> long modulo \<open>2 ^ 32\<close>: no byte at all
  for the superblock at 1024, and almost 4 GB for every block behind it; the sector is right.
\<close>

theorem minix_read_length:
  assumes "minix_blk_device s = d" "snd (znalloc s 1) = rq"
    and "steady dev 2 (common_cfg d + 24) q" "4 \<le> unat q" "unat q < 2 ^ 16"
    and "steady dev 4 (t4 d + 20) b" "b \<noteq> 0"
    and "reads_back dev 8 (rq + 16)" "reads_back dev 2 (avail_idx (driver_ring d))" "blk_layout d rq"
    and "last_write (hist s) 2 (avail_idx (driver_ring d)) = Some i" "take_bit 16 i = i"
    and "\<And>h. ucast (take_bit 16 (dev h 2 (used_idx (device_ring d)))) \<noteq> at_idx d + 3"
  shows "\<exists>s'. minix_read dev dma s buff byte = Ret s' True
    \<and> W 8 (rq + 8) (byte div b) \<in> set (written s')
    \<and> W 4 (desc_len (desc_table d) (ucast (desc_no (at_idx d) q 1))) (take_bit 32 (1024 - byte)) \<in> set (written s')"
proof -
  have al: "\<exists>t'. Some (znalloc t 1) = Some (t', rq) \<and> hist t' = hist t" if "world.more t = world.more s" for t
    using more_znalloc [OF that] assms(2) by (metis prod.collapse)
  obtain s1 w where "blk_rw dev (\<lambda>s. Some (znalloc s 1)) s d buff byte 1024 0 = Ret s1 (d\<lparr>at_idx := at_idx d + 3\<rparr>, True)"
    "W 8 (rq + 8) (byte div b) \<in> set (written s1)"
    "W 4 (desc_len (desc_table d) (ucast (desc_no (at_idx d) q 1))) (take_bit 32 (1024 - byte)) \<in> set (written s1)"
    using blk_rw_request [OF assms(3-7) al assms(8-13), of buff byte 1024 0] by (auto simp: Let_def)
  then show ?thesis
    using assms(1) by (simp add: minix_read_def disk_read_def minix_disk_rw_def written_def deliver_def)
qed

text \<open>The disk of BlockDev with its descriptors at \<open>0x200008\<close>; the request structure is the page at \<open>0x12000\<close>.\<close>

definition demo_fs :: "sbi osk" where
  "demo_fs = demo_osk\<lparr>hist := [W 2 0x2002 4], minix_blk_device := demo_loc\<lparr>desc_table := 0x200008\<rparr>\<rparr>"

lemma demo_fs_page: "snd (znalloc demo_fs 1) = 0x12000"
  using demo_osk_pages by (simp add: demo_fs_def znalloc_def split_def Let_def)

lemma demo_fs_layout: "blk_layout (demo_loc\<lparr>desc_table := 0x200008\<rparr>) 0x12000"
proof -
  have "0x12000 + 16 \<noteq> 0x200008 + 16 * x" "0x2000 + 2 \<noteq> (0x200008 + 12) + 16 * x" "0x2000 + 2 \<noteq> (0x200008 + 14) + 16 * x" for x :: u64
    by (rule off_grid; simp)+
  then show ?thesis
    by (simp only: blk_layout_def demo_loc_def virtio_config_loc.simps avail_idx_def desc_addr_def desc_flags_def desc_next_def
        ac_simps) simp
qed

lemma minix_read_length_witness:
  "\<exists>s'. minix_read demo_disk (\<lambda>_ m. m) demo_fs 0x5000 1024 = Ret s' True \<and> W 4 (0x200008 + 16 * 1 + 8) 0 \<in> set (written s')"
proof -
  let ?d = "demo_loc\<lparr>desc_table := 0x200008\<rparr>"
  have st: "steady demo_disk 2 (common_cfg ?d + 24) 8" "steady demo_disk 4 (t4 ?d + 20) 512"
    by (simp_all add: steady_def demo_disk_def demo_loc_def)
  have rb: "reads_back demo_disk 8 (0x12000 + 16)" "reads_back demo_disk 2 (avail_idx (driver_ring ?d))"
    by (simp_all add: reads_back_def demo_disk_def demo_loc_def avail_idx_def)
  have us: "ucast (take_bit 16 (demo_disk h 2 (used_idx (device_ring ?d)))) \<noteq> at_idx ?d + 3" for h
    by (simp add: demo_disk_def demo_loc_def used_idx_def)
  have lw: "last_write (hist demo_fs) 2 (avail_idx (driver_ring ?d)) = Some 4" "minix_blk_device demo_fs = ?d"
    by (simp_all add: demo_loc_def avail_idx_def demo_fs_def)
  have "desc_no 0 8 1 = 1" by (simp add: desc_no_def)
  then show ?thesis
    using minix_read_length [OF lw(2) demo_fs_page st(1) _ _ st(2) _ rb demo_fs_layout lw(1) _ us, of "\<lambda>_ m. m" "0x5000" 1024]
    by (auto simp: demo_loc_def desc_len_def)
qed

end
