(* ===== verification/Ext4.thy ===== *)
theory Ext4
  imports DiskMem CStruct "HOL-Library.Sublist"
begin

unbundle bit_operations_syntax

text \<open>
  The Ext4 reader (src/src/ext4.c) with the on-disk structures of src/src/include/ext4.h. A structure is the
  table of its fields, laid out by \<open>CStruct.layout\<close>; a local copy of one is the function from its fields to their
  values at the time of the copy, and a field behind a pointer is read from the memory as it is.
\<close>

section \<open>On-disk structures\<close>

definition super_fields :: "cfield list" where
  "super_fields = [
      (''s_inodes_count'', 4, 1), (''s_blocks_count'', 4, 1), (''s_r_blocks_count'', 4, 1),
      (''s_free_blocks_count'', 4, 1), (''s_free_inodes_count'', 4, 1), (''s_first_data_block'', 4, 1),
      (''s_log_block_size'', 4, 1), (''s_log_cluster_size'', 4, 1), (''s_blocks_per_group'', 4, 1),
      (''s_clusters_per_group'', 4, 1), (''s_inodes_per_group'', 4, 1), (''s_mtime'', 4, 1), (''s_wtime'', 4, 1),
      (''s_mnt_count'', 2, 1), (''s_max_mnt_count'', 2, 1), (''s_magic'', 2, 1), (''s_state'', 2, 1),
      (''s_errors'', 2, 1), (''s_minor_rev_level'', 2, 1), (''s_lastcheck'', 4, 1), (''s_checkinterval'', 4, 1),
      (''s_creator_os'', 4, 1), (''s_rev_level'', 4, 1), (''s_def_resuid'', 2, 1), (''s_def_resgid'', 2, 1),
      (''s_first_ino'', 4, 1), (''s_inode_size'', 2, 1), (''s_block_group_nr'', 2, 1), (''s_feature_compat'', 4, 1),
      (''s_feature_incompat'', 4, 1), (''s_feature_ro_compat'', 4, 1), (''s_uuid'', 1, 16), (''s_volume_name'', 1, 16),
      (''s_last_mounted'', 1, 64), (''s_algorithm_usage_bitmap'', 4, 1), (''s_prealloc_blocks'', 1, 1),
      (''s_prealloc_dir_blocks'', 1, 1), (''s_reserved_gdt_blocks'', 2, 1), (''s_journal_uuid'', 1, 16),
      (''s_journal_inum'', 4, 1), (''s_journal_dev'', 4, 1), (''s_last_orphan'', 4, 1), (''s_hash_seed'', 4, 4),
      (''s_def_hash_version'', 1, 1), (''s_jnl_backup_type'', 1, 1), (''s_desc_size'', 2, 1),
      (''s_default_mount_opts'', 4, 1), (''s_first_meta_bg'', 4, 1), (''s_mkfs_time'', 4, 1), (''s_jnl_blocks'', 4, 17),
      (''s_blocks_count_hi'', 4, 1), (''s_r_blocks_count_hi'', 4, 1), (''s_free_blocks_hi'', 4, 1),
      (''s_min_extra_isize'', 2, 1), (''s_want_extra_isize'', 2, 1), (''s_flags'', 4, 1), (''s_raid_stride'', 2, 1),
      (''s_mmp_update_interval'', 2, 1), (''s_mmp_block'', 8, 1), (''s_raid_stripe_width'', 4, 1),
      (''s_log_groups_per_flex'', 1, 1), (''s_checksum_type'', 1, 1), (''s_encryption_level'', 1, 1),
      (''s_reserved_pad'', 1, 1), (''s_kbytes_written'', 8, 1), (''s_snapshot_inum'', 4, 1), (''s_snapshot_id'', 4, 1),
      (''s_snapshot_r_blocks_count'', 8, 1), (''s_snapshot_list'', 4, 1), (''s_error_count'', 4, 1),
      (''s_first_error_time'', 4, 1), (''s_first_error_ino'', 4, 1), (''s_first_error_block'', 8, 1),
      (''s_first_error_func'', 1, 32), (''s_first_error_line'', 4, 1), (''s_last_error_time'', 4, 1),
      (''s_last_error_ino'', 4, 1), (''s_last_error_line'', 4, 1), (''s_last_error_block'', 8, 1),
      (''s_last_error_func'', 1, 32), (''s_mount_opts'', 1, 64), (''s_usr_quota_inum'', 4, 1),
      (''s_grp_quota_inum'', 4, 1), (''s_overhead_clusters'', 4, 1), (''s_backup_bgs'', 4, 2),
      (''s_encrypt_algos'', 1, 4), (''s_encrypt_pw_salt'', 1, 16), (''s_lpf_ino'', 4, 1), (''s_prj_quota_inum'', 4, 1),
      (''s_checksum_seed'', 4, 1), (''s_wtime_hi'', 1, 1), (''s_mtime_hi'', 1, 1), (''s_mkfs_time_hi'', 1, 1),
      (''s_lastcheck_hi'', 1, 1), (''s_first_error_time_hi'', 1, 1), (''s_last_error_time_hi'', 1, 1),
      (''s_first_error_errcode'', 1, 1), (''s_last_error_errcode'', 1, 1), (''s_encoding'', 2, 1),
      (''s_encoding_flags'', 2, 1), (''s_reserved'', 4, 95), (''s_checksum'', 4, 1)]"

text \<open>The offsets the comments of the structure give.\<close>

definition documented_super :: "(string \<times> nat) list" where
  "documented_super = [
      (''s_inodes_count'', 0x0), (''s_free_inodes_count'', 0x10), (''s_blocks_per_group'', 0x20), (''s_wtime'',
      0x30), (''s_lastcheck'', 0x40), (''s_def_resuid'', 0x50), (''s_feature_incompat'', 0x60), (''s_uuid'', 0x68),
      (''s_volume_name'', 0x78), (''s_last_mounted'', 0x88), (''s_algorithm_usage_bitmap'', 0xc8),
      (''s_journal_uuid'', 0xd0), (''s_journal_inum'', 0xe0), (''s_hash_seed'', 0xec), (''s_def_hash_version'',
      0xfc), (''s_default_mount_opts'', 0x100), (''s_jnl_blocks'', 0x10c), (''s_blocks_count_hi'', 0x150),
      (''s_flags'', 0x160), (''s_raid_stripe_width'', 0x170), (''s_snapshot_inum'', 0x180), (''s_snapshot_list'',
      0x190), (''s_first_error_block'', 0x1a0), (''s_first_error_line'', 0x1c8), (''s_last_error_ino'', 0x1d0),
      (''s_last_error_func'', 0x1e0), (''s_mount_opts'', 0x200), (''s_usr_quota_inum'', 0x240), (''s_backup_bgs'',
      0x24c), (''s_encrypt_algos'', 0x254), (''s_encrypt_pw_salt'', 0x258), (''s_lpf_ino'', 0x268),
      (''s_checksum_seed'', 0x270), (''s_wtime_hi'', 0x274), (''s_encoding'', 0x27c), (''s_checksum'', 0x3fc)]"

definition group_fields :: "cfield list" where
  "group_fields = [
      (''bg_block_bitmap'', 4, 1), (''bg_inode_bitmap'', 4, 1), (''bg_inode_table'', 4, 1),
      (''bg_free_blocks_count'', 2, 1), (''bg_free_inodes_count'', 2, 1), (''bg_used_dirs_count'', 2, 1), (''bg_flags'', 2, 1),
      (''bg_exclude_bitmap_lo'', 4, 1), (''bg_block_bitmap_csum_lo'', 2, 1), (''bg_inode_bitmap_csum_lo'', 2, 1),
      (''bg_itable_unused'', 2, 1), (''bg_checksum'', 2, 1), (''bg_block_bitmap_hi'', 4, 1), (''bg_inode_bitmap_hi'', 4, 1),
      (''bg_inode_table_hi'', 4, 1), (''bg_free_blocks_count_hi'', 2, 1), (''bg_free_inodes_count_hi'', 2, 1),
      (''bg_used_dirs_count_hi'', 2, 1), (''bg_itable_unused_hi'', 2, 1), (''bg_exclude_bitmap_hi'', 4, 1),
      (''bg_block_bitmap_csum_hi'', 2, 1), (''bg_inode_bitmap_csum_hi'', 2, 1), (''bg_reserved'', 4, 1)]"

text \<open>The unions of the inode are 4 bytes and 12 bytes of width 4.\<close>

definition inode_fields :: "cfield list" where
  "inode_fields = [
      (''i_mode'', 2, 1), (''i_uid'', 2, 1), (''i_size'', 4, 1), (''i_atime'', 4, 1), (''i_ctime'', 4, 1), (''i_mtime'', 4, 1),
      (''i_dtime'', 4, 1), (''i_gid'', 2, 1), (''i_links_count'', 2, 1), (''i_blocks'', 4, 1), (''i_flags'', 4, 1),
      (''osd1'', 4, 1), (''i_block'', 4, 15), (''i_generation'', 4, 1), (''i_file_acl'', 4, 1), (''i_size_high'', 4, 1),
      (''i_faddr'', 4, 1), (''osd2'', 4, 3)]"

definition documented_inode :: "(string \<times> nat) list" where
  "documented_inode = [(''i_mode'', 0x00), (''i_mtime'', 0x10), (''i_flags'', 0x20), (''i_block'', 0x28), (''i_generation'', 0x64),
      (''i_faddr'', 0x70)]"

definition dirent_fields :: "cfield list" where
  "dirent_fields = [(''inode'', 4, 1), (''rec_len'', 2, 1), (''file_type_name_len'', 2, 1), (''name'', 1, 255)]"

definition documented_dirent :: "(string \<times> nat) list" where
  "documented_dirent = [(''inode'', 0), (''rec_len'', 4), (''file_type_name_len'', 6), (''name'', 8)]"

definition extent_header_fields :: "cfield list" where
  "extent_header_fields = [(''eh_magic'', 2, 1), (''eh_entries'', 2, 1), (''eh_max'', 2, 1), (''eh_depth'', 2, 1), (''eh_generation'', 4, 1)]"

definition extent_fields :: "cfield list" where
  "extent_fields = [(''ee_block'', 4, 1), (''ee_len'', 2, 1), (''ee_start_hi'', 2, 1), (''ee_start'', 4, 1)]"

section \<open>ext4.c\<close>

definition get_extent_header :: "u64 \<Rightarrow> u64" where
  "get_extent_header blocks = blocks"

text \<open>\<open>None\<close> is a division by zero.\<close>

definition NUM_BLOCK_GROUPS :: "cstruct \<Rightarrow> u64 option" where
  "NUM_BLOCK_GROUPS sb =
     (let per_group = (ucast (sb ''s_blocks_per_group'') :: u32) in
      if per_group = 0 then None else Some (ucast ((ucast (sb ''s_blocks_count'') - 1) div per_group + 1)))"

definition BLOCK_OFFSET :: "u64 \<Rightarrow> u32 \<Rightarrow> u64" where
  "BLOCK_OFFSET block blocksize = 1024 + (block - 1) * ucast blocksize"

definition INODE_TABLE_BLOCK :: "cstruct \<Rightarrow> u64" where
  "INODE_TABLE_BLOCK bg = bg ''bg_inode_table'' OR push_bit 32 (bg ''bg_inode_table_hi'')"

text \<open>\<open>1024 << s_log_block_size\<close> is undefined when it leaves the range of int.\<close>

definition BLOCK_SIZE_ext4 :: "cstruct \<Rightarrow> u64 option" where
  "BLOCK_SIZE_ext4 sb = (if sb ''s_log_block_size'' < 21 then Some (push_bit (unat (sb ''s_log_block_size'')) 1024) else None)"

text \<open>The loop over the directory entries. Its \<open>None\<close> is a loop without end.\<close>

definition dirent_at :: "mem \<Rightarrow> u64 \<Rightarrow> cstruct" where
  "dirent_at = struct_at dirent_fields"

partial_function (option) list_dirents :: "'a kernel_scheme \<Rightarrow> u64 \<Rightarrow> 'a kernel_scheme option" where
  "list_dirents s d =
     (if dirent_at (kmem s) d ''file_type_name_len'' = 0xde00 then Some (say ''Dirent tail'' s)
      else list_dirents (say ''Dirent'' s) (d + dirent_at (kmem s) d ''rec_len''))"

text \<open>What is done with the root inode once the table is read.\<close>

definition print_root_inode ::
  "device \<Rightarrow> dma \<Rightarrow> cstruct \<Rightarrow> u64 \<Rightarrow> u64 \<Rightarrow> 'a os_scheme \<Rightarrow> ('a os_scheme, unit) outcome" where
  "print_root_inode dev dma sb root blockbuf s =
     (let s = say ''Root inode'' s; i_block = root + of_nat (offset_of inode_fields ''i_block'') in
      if struct_at inode_fields (kmem s) root ''i_flags'' AND 0x00080000 \<noteq> 0 then
        let eh = struct_at extent_header_fields (kmem s) i_block in
        if eh ''eh_magic'' \<noteq> 0xf30a then Ret (say ''Error reading root inode extent'' s) ()
        else
          let s = say ''Root extent'' s in
          if eh ''eh_depth'' = 0 then
            let s = say ''Extents are fully in i_block'' s;
                ee = struct_at extent_fields (kmem s) (i_block + of_nat (struct_size extent_header_fields));
                s = say ''Extent'' s
            in case BLOCK_SIZE_ext4 sb of
                 None \<Rightarrow> Undef
               | Some bs \<Rightarrow>
                   and_then (disk_read (ext4_disk_rw dev) dma s blockbuf (BLOCK_OFFSET (ee ''ee_start'') (ucast bs)) bs) (\<lambda>s ok.
                   if \<not> ok then Ret (say ''Unable to read directory entries'' s) ()
                   else (case list_dirents s blockbuf of None \<Rightarrow> Hang | Some s \<Rightarrow> Ret s ()))
          else Ret s ()
      else Ret (say ''Root uses block pointers'' s) ())"

text \<open>The label \<open>out\<close>: \<open>inodes\<close> and \<open>blockbuf\<close> are the same page.\<close>

definition print_root_out :: "u64 \<Rightarrow> 'a kernel_scheme \<Rightarrow> ('a kernel_scheme, unit) outcome" where
  "print_root_out blockbuf s = (let inodes = blockbuf in and_then (give_back inodes s) (\<lambda>s _. give_back blockbuf s))"

definition ext4_print_root ::
  "device \<Rightarrow> dma \<Rightarrow> cstruct \<Rightarrow> cstruct \<Rightarrow> 'a os_scheme \<Rightarrow> ('a os_scheme, unit) outcome" where
  "ext4_print_root dev dma bg sb s =
     (case BLOCK_SIZE_ext4 sb of
        None \<Rightarrow> Undef
      | Some bs \<Rightarrow>
          let byte = BLOCK_OFFSET (INODE_TABLE_BLOCK bg) (ucast bs); (s, blockbuf) = znalloc s 1; inodes = blockbuf in
          and_then (disk_read (ext4_disk_rw dev) dma s inodes byte bs) (\<lambda>s ok.
          and_then
            (if \<not> ok then Ret (say ''Error reading inode table'' s) ()
             else print_root_inode dev dma sb (inodes + 2 * of_nat (struct_size inode_fields)) blockbuf s)
            (\<lambda>s _. print_root_out blockbuf s)))"

definition ext4_test :: "device \<Rightarrow> dma \<Rightarrow> 'a os_scheme \<Rightarrow> ('a os_scheme, unit) outcome" where
  "ext4_test dev dma s =
     (let (s, path) = znalloc s 1; (s, blockbuf) = znalloc s 1;
          out = (\<lambda>s. and_then (give_back path s) (\<lambda>s _. give_back blockbuf s)) in
      and_then (disk_read (ext4_disk_rw dev) dma s blockbuf 1024 (ALIGN_UP_POT (of_nat (struct_size super_fields)) 512)) (\<lambda>s ok.
      if \<not> ok then out (say ''Unable to read superblock'' s)
      else
        let sb = struct_at super_fields (kmem s) blockbuf in
        if sb ''s_magic'' \<noteq> 0xef53 then out (say ''This is not a Ext4 file system'' s)
        else if BLOCK_SIZE_ext4 sb = None then Undef
        else
          and_then (disk_read (ext4_disk_rw dev) dma (say ''Label'' s) blockbuf 2048 (ALIGN_UP_POT (of_nat (struct_size group_fields)) 512)) (\<lambda>s ok.
          if \<not> ok then out (say ''Unable to read block group'' s)
          else and_then (ext4_print_root dev dma (struct_at group_fields (kmem s) blockbuf) sb s) (\<lambda>s _. out s))))"

section \<open>Lemmas\<close>

text \<open>No byte of a structure is padding: it lies in memory as it lies on disk.\<close>

definition packed :: "cfield list \<Rightarrow> bool" where
  "packed fs \<longleftrightarrow> layout_end 0 fs = sum_list (List.map (\<lambda>(f, w, c). w * c) fs)"

definition documented :: "cfield list \<Rightarrow> (string \<times> nat) list \<Rightarrow> bool" where
  "documented fs ds \<longleftrightarrow> subseq ds (List.map (\<lambda>(f, q, n). (f, q)) (layout 0 fs))"

lemma super_end: "layout_end 0 super_fields = 1024"
  by (simp add: super_fields_def next_multiple_def)

lemma super_packed: "packed super_fields"
  unfolding packed_def super_end by (simp add: super_fields_def)

lemma super_size: "struct_size super_fields = 1024"
  unfolding struct_size_def super_end by (simp add: super_fields_def next_multiple_def)

lemma super_documented: "documented super_fields documented_super"
  by (simp add: documented_def super_fields_def documented_super_def next_multiple_def subseq_Cons2_iff)

lemma tables_laid_out:
  "documented inode_fields documented_inode" "packed inode_fields" "struct_size inode_fields = 128"
  "documented dirent_fields documented_dirent" "packed dirent_fields" "struct_size dirent_fields = 264"
  "packed group_fields" "struct_size group_fields = 64"
  "packed extent_header_fields" "struct_size extent_header_fields = 12" "packed extent_fields" "struct_size extent_fields = 12"
  by (simp_all add: documented_def packed_def struct_size_def inode_fields_def documented_inode_def dirent_fields_def
      documented_dirent_def group_fields_def extent_header_fields_def extent_fields_def next_multiple_def subseq_Cons2_iff)

text \<open>The entries of a directory block, and the one that ends it.\<close>

fun entry :: "mem \<Rightarrow> u64 \<Rightarrow> nat \<Rightarrow> u64" where
  "entry m d 0 = d"
| "entry m d (Suc n) = entry m (d + dirent_at m d ''rec_len'') n"

definition ends_block :: "mem \<Rightarrow> u64 \<Rightarrow> bool" where
  "ends_block m d \<longleftrightarrow> dirent_at m d ''file_type_name_len'' = 0xde00"

lemma list_dirents_ends: "list_dirents s d = Some r \<Longrightarrow> \<exists>n. ends_block (kmem s) (entry (kmem s) d n)"
proof (rule list_dirents.raw_induct [where P = "\<lambda>s d r. \<exists>n. ends_block (kmem s) (entry (kmem s) d n)"])
  fix f and s :: "'a kernel_scheme" and d and r :: "'a kernel_scheme"
  assume IH: "\<And>(s :: 'a kernel_scheme) d r. f s d = Some r \<Longrightarrow> \<exists>n. ends_block (kmem s) (entry (kmem s) d n)"
    and body: "(if dirent_at (kmem s) d ''file_type_name_len'' = 0xde00 then Some (say ''Dirent tail'' s)
      else f (say ''Dirent'' s) (d + dirent_at (kmem s) d ''rec_len'')) = Some r"
  show "\<exists>n. ends_block (kmem s) (entry (kmem s) d n)"
  proof (cases "ends_block (kmem s) d")
    case True
    then show ?thesis by (intro exI [of _ 0]) simp
  next
    case False
    then obtain n where "ends_block (kmem s) (entry (kmem s) d (Suc n))"
      using IH [of "say ''Dirent'' s"] body by (auto simp: ends_block_def say_def)
    then show ?thesis by blast
  qed
qed

lemma list_dirents_walk:
  "ends_block (kmem s) (entry (kmem s) d n) \<Longrightarrow> (\<And>k. k < n \<Longrightarrow> \<not> ends_block (kmem s) (entry (kmem s) d k)) \<Longrightarrow>
     list_dirents s d = Some (say ''Dirent tail'' ((say ''Dirent'' ^^ n) s))"
proof (induction n arbitrary: s d)
  case 0
  then show ?case by (subst list_dirents.simps) (simp add: ends_block_def)
next
  case (Suc n)
  have k: "kmem (say ''Dirent'' s) = kmem s" by (simp add: say_def)
  have "list_dirents (say ''Dirent'' s) (d + dirent_at (kmem s) d ''rec_len'')
      = Some (say ''Dirent tail'' ((say ''Dirent'' ^^ n) (say ''Dirent'' s)))"
    by (rule Suc.IH) (use Suc.prems(1) Suc.prems(2) [of "Suc _"] in \<open>auto simp: k\<close>)
  moreover have "\<not> ends_block (kmem s) d" using Suc.prems(2) [of 0] by simp
  ultimately show ?case by (subst list_dirents.simps) (simp add: ends_block_def funpow_Suc_right del: funpow.simps)
qed

lemma with_hw_free: "cpage_free (hw (mm s)) a = Some h \<Longrightarrow> give_back a s = Ret (s\<lparr>mm := (mm s)\<lparr>hw := h\<rparr>\<rparr>) ()"
  by (simp add: give_back_def with_hw_def)

section \<open>Properties\<close>



text \<open>
  Where a block of the disk is looked for: at its number times the block size, as the format has it, if
  and only if blocks have 1024 bytes.
\<close>

theorem block_offset_right: "BLOCK_OFFSET block blocksize = block * ucast blocksize \<longleftrightarrow> blocksize = 1024"
proof -
  have "BLOCK_OFFSET block blocksize = block * ucast blocksize + (1024 - ucast blocksize)"
    by (simp add: BLOCK_OFFSET_def left_diff_distrib)
  then have "BLOCK_OFFSET block blocksize = block * ucast blocksize \<longleftrightarrow> ucast (1024 :: u32) = (ucast blocksize :: u64)"
    by simp
  also have "\<dots> \<longleftrightarrow> 1024 = blocksize"
  proof -
    have "(ucast (ucast x :: u64) :: u32) = x" for x :: u32 by (rule bit_word_eqI) (auto simp: bit_simps)
    then show ?thesis by metis
  qed
  finally show ?thesis by auto
qed

text \<open>
  C34. The reader gives its page back twice, under two names. The second time the allocator goes on from the
  freed page to the next end of an allocation, so whatever lies next in the heap is released as well while
  its owner still uses it.
\<close>

theorem double_free_releases_next:
  assumes "h = hw (mm s)" "heap_ok h" "holds_extents h A" "page_addr h b \<le> heap_end h"
    and "(b, c) \<in> A" "(b', c') \<in> A" "b < b'" "\<forall>e \<in> A. b < fst e \<longrightarrow> b' \<le> fst e"
  shows "\<exists>s'. print_root_out (page_addr h b) s = Ret s' () \<and> holds_extents (hw (mm s')) (A - {(b, c), (b', c')})"
proof -
  let ?h = "free_run (c - 1) h b" and ?A = "A - {(b, c)}"
  have 1: "cpage_free h (page_addr h b) = Some ?h" "holds_extents ?h ?A"
    using free_run_extents [OF assms(2,3,5)] assms(4) by auto
  have ok: "heap_ok ?h" using assms(2) by (simp add: heap_ok_def)
  have gap: "fst e + snd e \<le> b \<or> b' + c' \<le> fst e" if "e \<in> ?A" "e \<noteq> (b', c')" for e
  proof -
    have e: "e \<in> A" "e \<noteq> (b, c)" "(b', c') \<in> A" using that(1) assms(6) by auto
    have "fst e + snd e \<le> fst (b', c') \<or> fst (b', c') + snd (b', c') \<le> fst e"
      by (rule extents_apart [OF assms(3) e(1,3) that(2)])
    moreover have "fst e + snd e \<le> fst (b, c) \<or> fst (b, c) + snd (b, c) \<le> fst e"
      by (rule extents_apart [OF assms(3) e(1) assms(5) e(2)])
    moreover have "0 < c" "0 < snd e" using assms(3,5) e(1) by (auto simp: holds_extents_def)
    moreover have "b < fst e \<longrightarrow> b' \<le> fst e" using assms(8) e(1) by blast
    ultimately show ?thesis by auto
  qed
  have a: "page_addr ?h b = page_addr h b" by (simp add: page_addr_def)
  have "cpage_free ?h (page_addr h b) = Some (free_run (b' + c' - 1 - b) ?h b)"
    "holds_extents (free_run (b' + c' - 1 - b) ?h b) (?A - {(b', c')})"
    using free_gap_extents [OF ok 1(2), of b' c' b] gap assms(4,6,7) a by auto
  moreover have "?A - {(b', c')} = A - {(b, c), (b', c')}" by auto
  ultimately have 2: "cpage_free ?h (page_addr h b) = Some (free_run (b' + c' - 1 - b) ?h b)"
    "holds_extents (free_run (b' + c' - 1 - b) ?h b) (A - {(b, c), (b', c')})" by (simp_all only:)
  have "give_back (page_addr h b) s = Ret (s\<lparr>mm := (mm s)\<lparr>hw := ?h\<rparr>\<rparr>) ()"
    using 1(1) assms(1) by (intro with_hw_free) simp
  moreover have "give_back (page_addr h b) (s\<lparr>mm := (mm s)\<lparr>hw := ?h\<rparr>\<rparr>)
      = Ret (s\<lparr>mm := (mm s)\<lparr>hw := free_run (b' + c' - 1 - b) ?h b\<rparr>\<rparr>) ()"
    using with_hw_free [of "s\<lparr>mm := (mm s)\<lparr>hw := ?h\<rparr>\<rparr>" "page_addr h b"] 2(1) by simp
  ultimately show ?thesis using 2(2) by (simp add: print_root_out_def)
qed

text \<open>The heap of Pages with two allocations of two pages each; the first page is given back.\<close>

definition demo_owned :: machine where
  "demo_owned = claim (claim demo_heap 0 2) 2 2"

lemma demo_owned_ok:
  "heap_ok demo_owned" "holds_extents demo_owned {(2, 2), (0, 2)}" "page_addr demo_owned 0 = 0x11000" "heap_end demo_owned = 0x14000"
proof -
  let ?h = "claim demo_heap 0 2"
  have bk: "unat (bk_bytes demo_heap) = 4" "unat (bk_bytes ?h) = 4" by (simp_all add: demo_heap_ok)
  have free: "\<not> taken demo_heap j" for j by (simp add: taken_def cur_byte_def demo_heap_def)
  have h: "heap_ok ?h" using demo_heap_ok(1) by (simp add: heap_ok_def)
  then show "heap_ok demo_owned" by (simp add: demo_owned_def heap_ok_def)
  have x: "holds_extents ?h (insert (0, 2) {})"
    by (rule claim_extents(1) [OF demo_heap_ok(1,4)]) (simp_all add: bk free)
  have "\<not> taken ?h j" if "2 \<le> j" "j < 2 + 2" for j
    using x that by (auto simp: holds_extents_def bk pages_of_def)
  then have "holds_extents demo_owned (insert (2, 2) (insert (0, 2) {}))"
    unfolding demo_owned_def by (intro claim_extents(1) [OF h x]) (simp_all add: bk)
  then show "holds_extents demo_owned {(2, 2), (0, 2)}" by simp
  show "page_addr demo_owned 0 = 0x11000" "heap_end demo_owned = 0x14000"
    using demo_heap_ok(5,6) by (simp_all add: demo_owned_def page_addr_def)
qed

lemma double_free_releases_next_witness:
  "\<exists>s'. print_root_out 0x11000 (demo_osk\<lparr>mm := (mm demo_osk)\<lparr>hw := demo_owned\<rparr>\<rparr>) = Ret s' () \<and> holds_extents (hw (mm s')) {}"
proof -
  have "{(2 :: nat, 2 :: nat), (0, 2)} - {(0, 2), (2, 2)} = {}" by auto
  then show ?thesis
    using double_free_releases_next [of demo_owned "demo_osk\<lparr>mm := (mm demo_osk)\<lparr>hw := demo_owned\<rparr>\<rparr>" "{(2, 2), (0, 2)}" 0 2 2 2]
      demo_owned_ok by simp
qed

end
