(* ===== verification/Vfs.thy ===== *)
theory Vfs
  imports Minix MapList
begin

text \<open>
  The virtual file system (src/src/vfs.c, src/src/include/vfs.h): the root of the directory tree, and the walk over the
  inodes of the Minix disk that is to fill it. The path functions are in VfsPath, the structures of the disk in
  Minix. The walk computes positions in int, where an overflow is undefined; \<open>addr\<close> is again a local
  that is used before it is set. The part of the file that is commented out is not modelled.
\<close>

section \<open>State\<close>

record VInode =
  v_mode :: u16
  v_uid :: u16
  v_gid :: u16

record DirTree =
  dt_name :: "u8 list"
  dt_blockdev :: u32
  dt_fstype :: u32
  dt_vinode :: "VInode option"
  dt_children :: u64

record vfs_os = os +
  dt_root :: DirTree

definition root_entry :: "u64 \<Rightarrow> DirTree \<Rightarrow> DirTree" where
  "root_entry m t =
     t\<lparr>dt_name := (dt_name t)[0 := slash, 1 := 0], dt_blockdev := 0, dt_fstype := - 1, dt_vinode := None, dt_children := m\<rparr>"

definition vfs_init :: "'a vfs_os_scheme \<Rightarrow> 'a vfs_os_scheme option" where
  "vfs_init s = map_option (\<lambda>(s, m). s\<lparr>dt_root := root_entry m (dt_root s)\<rparr>) (map_new s)"

section \<open>The walk\<close>

text \<open>
  The direct zones of a directory: the inner loop over the entries does nothing yet but advance \<open>i\<close>, which is the
  variable of the outer loop too.
\<close>

fun cache_direct ::
  "nat \<Rightarrow> device \<Rightarrow> dma \<Rightarrow> Inode \<Rightarrow> u64 \<Rightarrow> nat \<Rightarrow> 'a os_scheme \<Rightarrow> ('a os_scheme, bool) outcome" where
  "cache_direct 0 dev dma ino blockbuf i s = Ret s True"
| "cache_direct (Suc n) dev dma ino blockbuf i s =
     (if i < 7 then
        if zones ino ! i = 0 then cache_direct n dev dma ino blockbuf (i + 1) s
        else and_then (minix_read dev dma s blockbuf (ucast (zones ino ! i * 1024))) (\<lambda>s ok.
          if \<not> ok then Ret (say ''Unable to read inode'' s) False
          else cache_direct n dev dma ino blockbuf (128 + 64 * entry_count (i_size ino) + 1) s)
      else Ret s True)"

definition cache_indirect ::
  "device \<Rightarrow> dma \<Rightarrow> u64 \<Rightarrow> Inode \<Rightarrow> u64 \<Rightarrow> nat \<Rightarrow> nat \<Rightarrow> 'a os_scheme \<Rightarrow> ('a os_scheme, unit) outcome" where
  "cache_indirect dev dma addr ino blockbuf k n s =
     (if zones ino ! k \<noteq> 0 then
        and_then (minix_read dev dma s blockbuf (ucast (zones ino ! 7 * 1024))) (\<lambda>s _. follow n dev dma addr blockbuf s)
      else Ret s ())"

definition cache_directory ::
  "device \<Rightarrow> dma \<Rightarrow> u64 \<Rightarrow> u64 \<Rightarrow> Inode \<Rightarrow> u64 \<Rightarrow> 'a os_scheme \<Rightarrow> ('a os_scheme, bool) outcome" where
  "cache_directory dev dma addr p ino blockbuf s =
     (case strlen (kmem s) p of
        None \<Rightarrow> Undef
      | Some len \<Rightarrow>
          let e = p + of_nat len; s = set_mem ((kmem s)(e := slash, e + 1 := 0)) s in
          and_then (cache_direct 7 dev dma ino blockbuf 0 s) (\<lambda>s go_on.
          if \<not> go_on then Ret s False
          else and_then (cache_indirect dev dma addr ino blockbuf 7 1 s) (\<lambda>s _.
            and_then (cache_indirect dev dma addr ino blockbuf 8 2 s) (\<lambda>s _.
            and_then (cache_indirect dev dma addr ino blockbuf 9 3 s) (\<lambda>s _. Ret s True)))))"

text \<open>\<open>OFFSET(j, sb.imap_blocks, sb.zmap_blocks)\<close> with the int \<open>j\<close>.\<close>

definition OFFSET_int :: "nat \<Rightarrow> u16 \<Rightarrow> u16 \<Rightarrow> int" where
  "OFFSET_int j iblocks zblocks = 1024 + 1024 + (int j - 1) * 64 + uint iblocks * 1024 + uint zblocks * 1024"

text \<open>One inode; the result says whether the function goes on.\<close>

definition cache_inode ::
  "device \<Rightarrow> dma \<Rightarrow> u64 \<Rightarrow> Superblock \<Rightarrow> u64 \<Rightarrow> u64 \<Rightarrow> nat \<Rightarrow> 'a os_scheme \<Rightarrow> ('a os_scheme, bool) outcome" where
  "cache_inode dev dma addr sb p blockbuf j s =
     (let v = OFFSET_int j (imap_blocks sb) (zmap_blocks sb) in
      if 2 ^ 31 \<le> v then Undef
      else
        let byte = (of_int v :: u64); i = ALIGN_DOWN_POT byte BLOCK_SIZE; s = set_mem (memset (kmem s) blockbuf 0 1024) s in
        and_then (minix_read dev dma s blockbuf i) (\<lambda>s ok.
        if \<not> ok then Ret (say ''Unable to read inode'' s) False
        else
          let ino = inode_at (kmem s) (blockbuf + (byte - i)); s = (if kmem s p \<noteq> 0 then say ''path'' s else s) in
          if S_ISDIR (i_mode ino) then cache_directory dev dma addr p ino blockbuf s else Ret s True))"

fun cache_inodes ::
  "nat \<Rightarrow> device \<Rightarrow> dma \<Rightarrow> u64 \<Rightarrow> Superblock \<Rightarrow> u64 \<Rightarrow> u64 \<Rightarrow> nat \<Rightarrow> 'a os_scheme \<Rightarrow> ('a os_scheme, bool) outcome" where
  "cache_inodes 0 dev dma addr sb p blockbuf j s = Ret s True"
| "cache_inodes (Suc n) dev dma addr sb p blockbuf j s =
     and_then (cache_inode dev dma addr sb p blockbuf j s) (\<lambda>s go_on.
       if \<not> go_on then Ret s False else cache_inodes n dev dma addr sb p blockbuf (Suc j) s)"

definition read_tree :: "device \<Rightarrow> dma \<Rightarrow> u64 \<Rightarrow> 'a os_scheme \<Rightarrow> ('a os_scheme, unit) outcome" where
  "read_tree dev dma addr s =
     (let (s, p) = znalloc s 1; (s, blockbuf) = znalloc s 1; out = (\<lambda>s. and_then (give_back p s) (\<lambda>s _. give_back blockbuf s)) in
      and_then (minix_read dev dma s blockbuf BLOCK_SIZE) (\<lambda>s ok.
      if \<not> ok then out (say ''Unable to read superblock'' s)
      else
        let sb = superblock_at (kmem s) blockbuf in
        if magic sb \<noteq> MINIX3_MAGIC then out (say ''This is not a Minix 3 file system'' s)
        else and_then (cache_inodes (unat (num_inodes sb - 1) - 2) dev dma addr sb p blockbuf 2 s) (\<lambda>s go_on.
          if go_on then out s else Ret s ())))"

definition vfs_cache_inodes :: "device \<Rightarrow> dma \<Rightarrow> u64 \<Rightarrow> 'a vfs_os_scheme \<Rightarrow> ('a vfs_os_scheme, unit) outcome" where
  "vfs_cache_inodes dev dma addr s =
     (case Option.bind (vfs_init s) vfs_init of None \<Rightarrow> Hang | Some s \<Rightarrow> read_tree dev dma addr s)"

section \<open>Lemmas\<close>

text \<open>What an operation of the disk leaves of the state it does not know.\<close>

definition keeps :: "('s \<Rightarrow> 'm) \<Rightarrow> 's \<Rightarrow> ('s, 'a) outcome \<Rightarrow> bool" where
  "keeps m s r \<longleftrightarrow> (\<forall>s' x. r = Ret s' x \<longrightarrow> m s' = m s)"

lemma keeps_Ret [simp]: "keeps m s (Ret s' x) \<longleftrightarrow> m s' = m s"
  by (simp add: keeps_def)

lemma keeps_stuck [simp]: "keeps m s (Jump t)" "keeps m s Hang" "keeps m s Undef"
  by (simp_all add: keeps_def)

lemma keeps_from: "m t = m s \<Longrightarrow> keeps m t r \<Longrightarrow> keeps m s r"
  by (simp add: keeps_def)

lemma keeps_then: "keeps m s r \<Longrightarrow> (\<And>t x. m t = m s \<Longrightarrow> keeps m t (f t x)) \<Longrightarrow> keeps m s (and_then r f)"
proof (cases r)
  case (Ret t x)
  assume a: "keeps m s r" "\<And>t x. m t = m s \<Longrightarrow> keeps m t (f t x)"
  have "m t = m s" using a(1) unfolding Ret keeps_Ret .
  then show ?thesis unfolding Ret and_then.simps by (intro keeps_from [OF _ a(2)])
qed simp_all

text \<open>What a disk driver leaves as it is: the virtual memory, and everything the kernel's own record does not have.\<close>

abbreviation under_kernel :: "'a kernel_scheme \<Rightarrow> mem \<times> 'a" where
  "under_kernel s \<equiv> (vm s, kernel.more s)"

abbreviation under_os :: "'a os_scheme \<Rightarrow> mem \<times> 'a" where
  "under_os s \<equiv> (vm s, os.more s)"

lemma kernel_more: "world.more t = world.more s \<Longrightarrow> under_kernel t = under_kernel s"
proof -
  assume "world.more t = world.more s"
  then have "t = s\<lparr>hist := hist t\<rparr>" by (intro world.equality) simp_all
  then have "under_kernel t = under_kernel (s\<lparr>hist := hist t\<rparr>)" by (rule arg_cong)
  then show ?thesis by simp
qed

lemma more_cfg:
  "world.more (fst (cfg_get dev s a f)) = world.more s" "world.more (fst (cap_get dev s a f')) = world.more s"
  by (simp_all add: cfg_get_def cap_get_def more_rd split_def Let_def)

lemma more_poll: "blk_poll dev s ring i = Some s' \<Longrightarrow> world.more s' = world.more s"
proof (rule blk_poll.raw_induct [where P = "\<lambda>dev s ring i s'. world.more s' = world.more s"])
  fix f and dev :: device and s s' :: "'a world_scheme" and ring i
  assume IH: "\<And>dev (s :: 'a world_scheme) ring i s'. f dev s ring i = Some s' \<Longrightarrow> world.more s' = world.more s"
    and body: "(let (s, v) = rd dev 2 s (used_idx ring) in if ucast v = i then f dev s ring i else Some s) = Some s'"
  then show "world.more s' = world.more s"
    using more_rd [of dev 2 s "used_idx ring"] by (auto simp: split_def Let_def split: if_splits dest!: IH)
qed

lemma more_request:
  "world.more (fst (blk_desc dev s d k)) = world.more s" "world.more (fill_request s rq sector buff h rw) = world.more s"
  "world.more (chain_request dev s' dt rq h e t n rw) = world.more s'" "world.more (kick dev s d) = world.more s"
  "ring_offer dev s drv q h' = Some t' \<Longrightarrow> world.more t' = world.more s"
  by (auto simp: blk_desc_def fill_request_def chain_request_def put_desc_def kick_def notify_addr_def ring_offer_def
      split_def Let_def more_cfg more_wr more_rd split: if_splits)

lemma under_znalloc: "under_kernel (fst (znalloc s n)) = under_kernel s" "under_os (fst (znalloc s' n)) = under_os s'"
  by (simp_all add: znalloc_def split_def Let_def)

lemma keeps_blk_rw: "keeps under_kernel s (blk_rw dev (\<lambda>s. Some (znalloc s 1)) s d buff byte_start byte_end rw)"
proof -
  have d: "under_kernel (fst (blk_desc dev t d k)) = under_kernel t" for t :: "'a kernel_scheme" and k
    by (intro kernel_more more_request)
  have r: "under_kernel (fst (rd dev n t a)) = under_kernel t" "under_kernel (fst (cfg_get dev t a f)) = under_kernel t"
    "under_kernel (kick dev t d') = under_kernel t" "under_kernel (fill_request t rq sector b h rw') = under_kernel t"
    "under_kernel (chain_request dev t dt rq h e u m rw') = under_kernel t"
    for t :: "'a kernel_scheme" and n a f rq sector b h dt e u m d' rw' by (intro kernel_more more_request more_cfg more_rd)+
  have o: "ring_offer dev t drv q h = Some t' \<Longrightarrow> under_kernel t' = under_kernel t"
    "blk_poll dev t ring i = Some t' \<Longrightarrow> under_kernel t' = under_kernel t"
    for t t' :: "'a kernel_scheme" and drv q h ring i using kernel_more more_request(5) more_poll by blast+
  show ?thesis
    unfolding blk_rw_def Let_def split_def
    by (auto simp: d [simplified] r [simplified] under_znalloc [simplified] split: option.splits dest!: o)
qed

lemma os_more: "under_kernel t = under_kernel s \<Longrightarrow> under_os t = under_os s"
proof -
  assume "under_kernel t = under_kernel s"
  then have "t = s\<lparr>hist := hist t, mm := mm t, kernel_mmu_table := kernel_mmu_table t, kernel_heap_v_addr := kernel_heap_v_addr t,
      kmalloc_head := kmalloc_head t, kmalloc_lock := kmalloc_lock t, klog := klog t\<rparr>"
    by (intro kernel.equality) simp_all
  then have "under_os t = under_os (s\<lparr>hist := hist t, mm := mm t, kernel_mmu_table := kernel_mmu_table t,
      kernel_heap_v_addr := kernel_heap_v_addr t, kmalloc_head := kmalloc_head t, kmalloc_lock := kmalloc_lock t,
      klog := klog t\<rparr>)" by (rule arg_cong)
  then show ?thesis by simp
qed

lemma keeps_os: "keeps under_kernel s r \<Longrightarrow> keeps under_os s r" for s :: "'a os_scheme" and r :: "('a os_scheme, 'b) outcome"
  unfolding keeps_def using os_more by blast

lemma keeps_minix_read: "keeps under_os s (minix_read dev dma s buff byte)"
proof -
  have "keeps under_os s (minix_disk_rw dev s buff byte BLOCK_SIZE 0)"
    unfolding minix_disk_rw_def by (rule keeps_then [OF keeps_os [OF keeps_blk_rw]]) (simp split: prod.splits)
  then show ?thesis
    unfolding minix_read_def disk_read_def by (rule keeps_then) (simp add: deliver_def set_mem_def)
qed

text \<open>The rules are used from a state that looks the same as the one at hand.\<close>

definition same_under :: "'a os_scheme \<Rightarrow> 'a os_scheme \<Rightarrow> bool" where
  "same_under s t \<longleftrightarrow> vm t = vm s \<and> os.more t = os.more s"

lemma same_under [simp]:
  "same_under s s" "same_under s (set_mem m t) = same_under s t" "same_under s (say x t) = same_under s t"
  by (simp_all add: same_under_def set_mem_def say_def)

definition stays :: "'a os_scheme \<Rightarrow> ('a os_scheme, 'b) outcome \<Rightarrow> bool" where
  "stays s r \<longleftrightarrow> (\<forall>s' x. r = Ret s' x \<longrightarrow> same_under s s')"

lemma stays_Ret [simp]: "stays s (Ret s' x) = same_under s s'" "stays s (Jump t)" "stays s Hang" "stays s Undef"
  by (simp_all add: stays_def)

lemma stays_then: "stays s r \<Longrightarrow> (\<And>t x. same_under s t \<Longrightarrow> stays s (f t x)) \<Longrightarrow> stays s (and_then r f)"
  by (cases r) auto

lemma stays_from: "same_under s t \<Longrightarrow> keeps under_os t r \<Longrightarrow> stays s r"
  by (auto simp: stays_def keeps_def same_under_def)

lemma stays_read: "same_under s t \<Longrightarrow> stays s (minix_read dev dma t buff byte)"
  by (rule stays_from [OF _ keeps_minix_read])

lemma stays_back: "same_under s t \<Longrightarrow> stays s (give_back p t)"
  by (auto simp: give_back_def with_hw_def same_under_def split: option.splits)

lemma stays_follow: "same_under s t \<Longrightarrow> stays s (follow n dev dma addr blockbuf t)"
  by (induction n arbitrary: t) (auto intro!: stays_then stays_read)

lemma stays_direct: "same_under s t \<Longrightarrow> stays s (cache_direct n dev dma ino blockbuf i t)"
  by (induction n arbitrary: i t) (auto intro!: stays_then stays_read)

lemma stays_indirect: "same_under s t \<Longrightarrow> stays s (cache_indirect dev dma addr ino blockbuf k n t)"
  by (auto simp: cache_indirect_def intro!: stays_then stays_read stays_follow)

lemma stays_directory: "same_under s t \<Longrightarrow> stays s (cache_directory dev dma addr p ino blockbuf t)"
  by (auto simp: cache_directory_def Let_def split: option.split intro!: stays_then stays_direct stays_indirect)

lemma stays_inode: "same_under s t \<Longrightarrow> stays s (cache_inode dev dma addr sb p blockbuf j t)"
  by (auto simp: cache_inode_def Let_def intro!: stays_then stays_read stays_directory)

lemma stays_inodes: "same_under s t \<Longrightarrow> stays s (cache_inodes n dev dma addr sb p blockbuf j t)"
  by (induction n arbitrary: j t) (auto intro!: stays_then stays_inode)

lemma same_znalloc: "same_under s (fst (znalloc t n)) = same_under s t"
  by (simp add: same_under_def znalloc_def split_def Let_def)

lemma stays_read_tree: "stays s (read_tree dev dma addr s)"
  by (auto simp: read_tree_def Let_def split_def same_znalloc intro!: stays_then stays_read stays_back stays_inodes)

lemma root_under: "os.more t = os.more s \<Longrightarrow> dt_root t = dt_root s"
proof -
  let ?s = "s\<lparr>hist := hist t, mm := mm t, kernel_mmu_table := kernel_mmu_table t, vm := vm t, kernel_heap_v_addr :=
      kernel_heap_v_addr t, kmalloc_head := kmalloc_head t, kmalloc_lock := kmalloc_lock t, klog := klog t,
      bar_address_free := bar_address_free t, dev_count := dev_count t, subordinate := subordinate t, d_list_head :=
      d_list_head t, pci_entropy_device := pci_entropy_device t, pci_blk_device := pci_blk_device t,
      minix_blk_device := minix_blk_device t, ext4_blk_device := ext4_blk_device t, gdev := gdev t, ipt := ipt t,
      keyboard := keyboard t, ipt_ringbuf := ipt_ringbuf t, screen_buff := screen_buff t\<rparr>"
  assume "os.more t = os.more s"
  then have "t = ?s" by (intro os.equality) simp_all
  then have "dt_root t = dt_root ?s" by (rule arg_cong)
  then show ?thesis by simp
qed

lemma fresh_map_empty: "map_new s = Some (s', m) \<Longrightarrow> m = NULL \<or> map_find s' m key = Some NULL"
proof -
  assume "map_new s = Some (s', m)"
  then obtain t where "s' = (if m = NULL then t else map_init t m)" by (auto simp: map_new_def split: if_splits)
  moreover have "load64 (store64 x (m + 24) m) (m + 24) = m" for x by simp
  moreover have "find_elem_from x m key m = Some NULL" for x by (subst find_elem_from.simps) simp
  ultimately show ?thesis by (simp add: map_find_def map_find_elem_def map_init_def)
qed

lemma find_under: "vm s' = vm s \<Longrightarrow> map_find s' m key = map_find s m key"
  by (simp add: map_find_def cong: if_cong)

section \<open>Properties\<close>


end
