(* ===== verification/MainOs.thy ===== *)
theory MainOs
  imports DiskMem Elf VfsPath Trap
begin

unbundle bit_operations_syntax

text \<open>
  The kernel's \<open>main\<close> and its command line (src/src/main.c), and the test programs of
  src/src/test.c and src/src/slide.c. The linker's symbols, the addresses of
  the assembly code and of the strings of \<open>main\<close> are fields of the state.
\<close>

section \<open>State\<close>

datatype segment = TEXT | DATA | RODATA | BSS | STACK | HEAP

record 'f boot = "'f osk" +
  sym_start :: "segment \<Rightarrow> u64"
  sym_end :: "segment \<Rightarrow> u64"
  userelfsize :: u64
  idleproc :: u64
  idleprocsize :: u64
  test_hart :: u64
  vfs_string :: u64
  OS_GPREGS :: u64

section \<open>Start-up\<close>

definition os_plic_init :: "device \<Rightarrow> 'a world_scheme \<Rightarrow> 'a world_scheme" where
  "os_plic_init dev s =
     (let s = plic_enable dev s 0 32; s = plic_enable dev s 0 33; s = plic_enable dev s 0 34; s = plic_enable dev s 0 35;
          s = plic_set_priority s 32 7; s = plic_set_priority s 33 7; s = plic_set_priority s 34 7; s = plic_set_priority s 35 7
      in plic_set_threshold s 0 0)"

text \<open>One process of \<open>add_idle_procs\<close>, and the loop.\<close>

definition add_idle :: "('f, 'a) boot_scheme \<Rightarrow> nat \<Rightarrow> (('f, 'a) boot_scheme, unit) outcome" where
  "add_idle s i =
     (case p_new s False of
        None \<Rightarrow> Hang
      | Some (s, idle) \<Rightarrow>
          let s = s\<lparr>main_idle_processes := (main_idle_processes s)[i := idle]\<rparr> in
          if idle = NULL then Undef
          else
            let s = upd_p idle (\<lambda>q. q\<lparr>image := stack q, image_pg_num := 1, stack_pg_num := 0, pid := 0xfffe - of_nat i, stack := NULL\<rparr>) s;
                s = set_mem (memcpy (kmem s) (image (procs s idle)) (idleproc s) (sint (idleprocsize s))) s
            in case mmu_map (mm s) (ptable (procs s idle)) P_DEFAULT_STACK_POINTER (image (procs s idle)) PB_EXECUTE of
                 None \<Rightarrow> Hang
               | Some (m, _) \<Rightarrow>
                   Ret (upd_p idle (\<lambda>q. q\<lparr>frame := (frame q)\<lparr>fr_sepc := P_DEFAULT_STACK_POINTER, fr_satp := SATP (ptable q) (ucast (pid q))\<rparr>,
                          quantum := 50\<rparr>) (s\<lparr>mm := m\<rparr>)) ())"

fun add_idles :: "nat \<Rightarrow> nat \<Rightarrow> ('f, 'a) boot_scheme \<Rightarrow> (('f, 'a) boot_scheme, unit) outcome" where
  "add_idles 0 i s = Ret s ()"
| "add_idles (Suc n) i s = and_then (add_idle s i) (\<lambda>s _. add_idles n (Suc i) s)"

definition add_idle_procs :: "('f, 'a) boot_scheme \<Rightarrow> (('f, 'a) boot_scheme, unit) outcome" where
  "add_idle_procs s = add_idles 8 0 s"

definition map_segment :: "u64 \<Rightarrow> segment \<Rightarrow> u64 \<Rightarrow> ('f, 'a) boot_scheme \<Rightarrow> ('f, 'a) boot_scheme option" where
  "map_segment pt x bits s = map_pages s pt (sym_start s x) (sym_start s x) (sym_end s x - sym_start s x) bits"

definition mmu_kernel_init :: "('f, 'a) boot_scheme \<Rightarrow> u64 \<Rightarrow> ('f, 'a) boot_scheme option" where
  "mmu_kernel_init s pt =
     Option.bind (map_segment pt TEXT (PB_READ OR PB_EXECUTE) s) (\<lambda>s.
     Option.bind (map_segment pt DATA (PB_READ OR PB_WRITE) s) (\<lambda>s.
     Option.bind (map_segment pt RODATA PB_READ s) (\<lambda>s.
     Option.bind (map_segment pt BSS (PB_READ OR PB_WRITE) s) (\<lambda>s.
     Option.bind (map_segment pt STACK (PB_READ OR PB_WRITE) s) (\<lambda>s.
     Option.bind (map_segment pt HEAP (PB_READ OR PB_WRITE) s) (\<lambda>s.
     Option.bind (map_pages s pt 0x0C000000 0x0C000000 (0x0C2FFFFF - 0x0C000000) (PB_READ OR PB_WRITE)) (\<lambda>s.
     Option.bind (map_pages s pt 0x30000000 0x30000000 0x10000000 (PB_READ OR PB_WRITE)) (\<lambda>s.
     Option.bind (map_pages s pt 0x40000000 0x40000000 0x10000000 (PB_READ OR PB_WRITE)) (\<lambda>s.
     Some (SCSR_WRITE s satp (push_bit 60 8 OR SATP_SET_ASID KERNEL_ASID OR SATP_SET_PPN pt)))))))))))"

section \<open>The command line\<close>

definition stat_line :: "u32 \<Rightarrow> string" where
  "stat_line st = (if st = 1 then ''stopped'' else if st = 2 then ''starting'' else if st = 3 then ''started''
     else if st = 4 then ''stopping'' else '''')"

fun stat_harts :: "'f firmware \<Rightarrow> nat \<Rightarrow> u32 \<Rightarrow> ('f, 'a) boot_scheme \<Rightarrow> (('f, 'a) boot_scheme, unit) outcome" where
  "stat_harts F 0 i s = Ret s ()"
| "stat_harts F (Suc n) i s =
     and_then (sbi_hart_get_status F s i) (\<lambda>s st.
       stat_harts F n (i + 1) (if st \<noteq> 0 then say (stat_line st) (say ''Hart'' s) else s))"

definition start_command :: "'f firmware \<Rightarrow> ('f, 'a) boot_scheme \<Rightarrow> u64 \<Rightarrow> (('f, 'a) boot_scheme, unit) outcome" where
  "start_command F s command =
     (case strfindchr (kmem s) command 32 of
        None \<Rightarrow> Undef
      | Some space \<Rightarrow>
          if space = - 1 then Ret (say ''Usage: start <hart>'' s) ()
          else case atoi (kmem s) (command + of_int space + 1) of
              None \<Rightarrow> Undef
            | Some hart \<Rightarrow>
                if hart <s 0 \<or> 8 \<le>s hart then Ret (say ''Invalid hart'' s) ()
                else and_then (sbi_hart_get_status F s hart) (\<lambda>s stop_check.
                  if stop_check \<noteq> 1 then Ret (say ''not stopped'' s) ()
                  else and_then (sbi_hart_start F s hart (test_hart s) 1) (\<lambda>s _. Ret s ())))"

text \<open>\<open>strncmp(command, "start", 5)\<close> is 0 when the first five characters are these.\<close>

definition os_run_command :: "'f firmware \<Rightarrow> ('f, 'a) boot_scheme \<Rightarrow> u64 \<Rightarrow> (('f, 'a) boot_scheme, unit) outcome" where
  "os_run_command F s command =
     (if cstring (kmem s) command (chars ''help'') then Ret (say ''Valid commands'' s) ()
      else if cstring (kmem s) command (chars ''stat'') then stat_harts F 8 0 (say ''HART STATUS'' s)
      else if holds (kmem s) command (chars ''start'') then start_command F s command
      else if kmem s command \<noteq> 0 then Ret (say ''Unknown command'' s) ()
      else Ret s ())"

text \<open>\<open>while ((c = sbi_getchar()) == 0xFF) WFI()\<close>.\<close>

partial_function (option) await_char :: "'f firmware \<Rightarrow> ('f, 'a) boot_scheme \<Rightarrow> (('f, 'a) boot_scheme, u8) outcome option" where
  "await_char F s =
     (case sbi_getchar F s of
        Ret s c \<Rightarrow> if c = 0xFF then await_char F s else Some (Ret s c)
      | Jump s \<Rightarrow> Some (Jump s) | Hang \<Rightarrow> Some Hang | Undef \<Rightarrow> Some Undef)"

definition os_console_key :: "'f firmware \<Rightarrow> u64 \<Rightarrow> ('f, 'a) boot_scheme \<Rightarrow> nat \<Rightarrow> u8 \<Rightarrow> (('f, 'a) boot_scheme, nat) outcome" where
  "os_console_key F command s pos c =
     (if c = 13 \<or> c = 10 then
        and_then (os_run_command F (say ''newline'' (set_mem ((kmem s)(command + of_nat pos := 0)) s)) command) (\<lambda>s _.
          Ret (say ''prompt'' s) 0)
      else if c = 8 \<or> c = 127 then Ret (if 0 < pos then say ''rubout'' s else s) (if 0 < pos then pos - 1 else pos)
      else if pos < 255 then
        and_then (sbi_putchar F (set_mem ((kmem s)(command + of_nat pos := c)) s) c) (\<lambda>s _. Ret s (pos + 1))
      else Ret s pos)"

partial_function (option) os_console :: "'f firmware \<Rightarrow> u64 \<Rightarrow> ('f, 'a) boot_scheme \<Rightarrow> nat \<Rightarrow> (('f, 'a) boot_scheme, unit) outcome option" where
  "os_console F command s pos =
     Option.bind (await_char F s) (\<lambda>r.
     case and_then r (\<lambda>s c. os_console_key F command s pos c) of
       Ret s pos \<Rightarrow> os_console F command s pos
     | Jump s \<Rightarrow> Some (Jump s) | Hang \<Rightarrow> Some Hang | Undef \<Rightarrow> Some Undef)"

section \<open>main\<close>

text \<open>
  The arguments that stand for what C leaves open: \<open>stat\<close>, the register \<open>sbi_hart_stop\<close> returns; \<open>uninit\<close>,
  \<open>l\<close>, \<open>l'\<close>, \<open>x\<close>, the uninitialised data of \<open>pci_init\<close> and \<open>gpu_init\<close>; \<open>command\<close>, the address of the array.
\<close>

definition vfs_demo :: "('f, 'a) boot_scheme \<Rightarrow> ('f, 'a) boot_scheme option" where
  "vfs_demo s =
     (let (s, path) = znalloc s 1; path = vfs_string s; (s, first) = znalloc s 1 in
      Option.bind (vfs_parse_first (kmem s) path first) (\<lambda>m.
      Option.bind (vfs_parse_first m path first) (\<lambda>m.
      let s = set_mem m s; (s, last) = znalloc s 1 in
      Option.bind (vfs_parse_last (kmem s) path last) (\<lambda>m. Some (say ''First is'' (set_mem m s))))))"

definition or_stop :: "('s \<Rightarrow> ('t, 'b) outcome) \<Rightarrow> 's option \<Rightarrow> ('t, 'b) outcome" where
  "or_stop f r = (case r of None \<Rightarrow> Hang | Some s \<Rightarrow> f s)"

definition os_start_up :: "device \<Rightarrow> RingBuffer \<Rightarrow> u32 \<Rightarrow> ('f, 'a) boot_scheme \<Rightarrow> ('f, 'a) boot_scheme option" where
  "os_start_up dev uninit hart s =
     (let s = s\<lparr>mm := (mm s)\<lparr>hw := cpage_init (hw (mm s))\<rparr>\<rparr>; (s, pt) = znalloc s 1; s = s\<lparr>kernel_mmu_table := pt\<rparr> in
      Option.bind (mmu_kernel_init s pt) (\<lambda>s.
      Option.bind (init_kernel_heap s) (\<lambda>s.
      Option.bind (pci_init dev uninit (os_plic_init dev s)) (\<lambda>s.
      Option.bind (kzalloc s 2048) (\<lambda>(s, regs).
      Some (say ''PCI'' (SCSR_WRITE (s\<lparr>OS_GPREGS := regs\<rparr>) sscratch (regs + scast hart * 2048))))))))"

definition os_load_user ::
  "device \<Rightarrow> dma \<Rightarrow> 'f firmware \<Rightarrow> u32 \<Rightarrow> ('f, 'a) boot_scheme \<Rightarrow> (('f, 'a) boot_scheme, unit) outcome" where
  "os_load_user dev dma F stat s =
     (let sz = ALIGN_UP_POT (userelfsize s) 512; (s, buffer) = znalloc s 1 in
      and_then (disk_read (virtio_disk_rw dev) dma s buffer 0 sz) (\<lambda>s ok.
      and_then (if ok then Ret s () else and_then (sbi_hart_stop F stat (say ''Error reading block'' s)) (\<lambda>s _. Ret s ())) (\<lambda>s _.
      or_stop (\<lambda>(s, user).
        and_then (elf_load s user buffer) (\<lambda>s loaded.
        if \<not> loaded then
          or_stop (\<lambda>s. and_then (sbi_hart_stop F stat s) (\<lambda>s _. Hang)) (p_free (say ''Unable to load init!'' s) user)
        else or_stop (\<lambda>s. Ret s ()) (with_hw (\<lambda>h. cpage_free h buffer) s)))
        (p_new s True))))"

definition os_main ::
  "device \<Rightarrow> dma \<Rightarrow> 'f firmware \<Rightarrow> u32 \<Rightarrow> RingBuffer \<Rightarrow> gpu_locals \<Rightarrow> gpu_locals \<Rightarrow> u32 \<Rightarrow> u64 \<Rightarrow> u32
     \<Rightarrow> ('f, 'a) boot_scheme \<Rightarrow> (('f, 'a) boot_scheme, unit) outcome" where
  "os_main dev dma F stat uninit l l' x command hart s =
     or_stop (\<lambda>s.
       and_then (os_load_user dev dma F stat s) (\<lambda>s _.
       and_then (gpu_init dev l l' x s) (\<lambda>s _.
       case os_console F command (say ''prompt'' s) 0 of None \<Rightarrow> Hang | Some r \<Rightarrow> r)))
     (Option.bind (os_start_up dev uninit hart s) vfs_demo)"

section \<open>test.c, slide.c\<close>

text \<open>\<open>WFI\<close> waits for an interrupt and has no effect of its own.\<close>

definition test_sleep :: "'f firmware \<Rightarrow> ('f, 'a) boot_scheme \<Rightarrow> u64 \<Rightarrow> u64 \<Rightarrow> (('f, 'a) boot_scheme, unit) outcome" where
  "test_sleep F s hart secs =
     and_then (sbi_get_time F s) (\<lambda>s tm. sbi_set_timecmp F s (ucast hart) (tm + secs * 10000000))"

definition c_test_hart :: "'f firmware \<Rightarrow> u32 \<Rightarrow> ('f, 'a) boot_scheme \<Rightarrow> (('f, 'a) boot_scheme, unit) outcome" where
  "c_test_hart F stat s =
     (let hart = (ucast (scsrs s sscratch) :: u32) in
      and_then (sbi_rtc_get_time F s) (\<lambda>s _.
      and_then (test_sleep F (say ''Started, going to sleep'' s) (ucast hart) 1) (\<lambda>s _.
      and_then (sbi_hart_stop F stat (say ''Going to die now'' s)) (\<lambda>s _. Hang))))"

definition game_setup :: "device \<Rightarrow> ('f, 'a) boot_scheme \<Rightarrow> u64 \<Rightarrow> (('f, 'a) boot_scheme, unit) outcome" where
  "game_setup dev s bytes = and_then (rng_fill dev s bytes 16) (\<lambda>s _. Ret s ())"

section \<open>Lemmas\<close>

lemma say_mem [simp]:
  "kmem (say t s) = kmem s" "fw (say t s') = fw s'" "procs (say t s'') = procs s''"
  by (simp_all add: say_def)

lemma os_console_no_return: "os_console F command s pos = Some r \<Longrightarrow> r \<noteq> Ret s' u"
proof -
  have "\<not> (\<exists>s' u. r = Ret s' u)" if "os_console F command s pos = Some r" for F command s pos r
    by (rule os_console.raw_induct [where P = "\<lambda>F command s pos r. \<not> (\<exists>s' u. r = Ret s' u)", OF _ that])
      (auto split: outcome.splits bind_splits)
  then show "os_console F command s pos = Some r \<Longrightarrow> r \<noteq> Ret s' u" by blast
qed

lemma and_then_no_return: "(\<And>s x. f s x \<noteq> Ret t y) \<Longrightarrow> and_then r f \<noteq> Ret t y"
  by (cases r) auto

text \<open>A string that begins with "start " is none of the other commands.\<close>

lemma start_string:
  assumes "cstring m c (chars ''start '' @ ds)"
  shows "\<not> cstring m c (chars ''help'')" "\<not> cstring m c (chars ''stat'')" "holds m c (chars ''start'')"
    and "cstring m (c + 6) ds"
proof -
  have m: "m c = 115" "m (c + 1) = 116" "m (c + 2) = 97" "m (c + 3) = 114" "m (c + 4) = 116" "cstring m (c + 6) ds"
    using assms by (simp_all add: chars_def add.assoc)
  then show "\<not> cstring m c (chars ''help'')" "\<not> cstring m c (chars ''stat'')" "cstring m (c + 6) ds"
    by (simp_all add: chars_def add.assoc)
  show "holds m c (chars ''start'')"
    using m by (auto simp: holds_def chars_def less_Suc_eq)
qed

lemma start_index: "index_of 32 (chars ''start '' @ ds) = 5"
  by (simp add: chars_def Let_def)

text \<open>
  The command "start <number>", from the line to the firmware's hart table.
\<close>

lemma start_command_starts:
  assumes "cstring (kmem s) command (chars ''start '' @ ds)" "list_all is_digit ds" "length ds < 2 ^ 30"
    and "decimal ds = h" "h < 8" "table_ok (fw s)" "lock_free (fw s) h"
  shows "\<exists>s'. os_run_command (sbi_firmware dev me) s command = Ret s' () \<and> kmem s' = kmem s \<and> procs s' = procs s
    \<and> hart_data (fw s') = (if status (hart_of (fw s) h) = HS_STOPPED
         then (hart_data (fw s))[unat h := (hart_of (fw s) h)\<lparr>status := HS_STARTING, target_address := test_hart s, scratch := 1\<rparr>]
         else hart_data (fw s))"
proof -
  let ?F = "sbi_firmware dev me"
  note st = start_string [OF assms(1)]
  have sp: "strfindchr (kmem s) command 32 = Some 5"
    using strfindchr_cstring [OF assms(1)] assms(3) by (simp add: start_index) (simp add: chars_def)
  have at: "atoi (kmem s) (command + 6) = Some h" using atoi_cstring [where neg = False] st(4) assms(2-4) by simp
  have "sint h = int (unat h)" using sint_of_nat32 [of "unat h"] small_hart [OF assms(5)] by simp
  then have "0 \<le> sint h" "sint h < 8" using small_hart [OF assms(5)] by linarith+
  then have h: "\<not> h <s 0" "\<not> 8 \<le>s h" by (simp_all add: word_sless_alt word_sle_eq)
  have run: "os_run_command ?F s command = start_command ?F s command"
    using st(1-3) by (simp add: os_run_command_def)
  obtain g where g: "sbi_hart_get_status ?F s h = Ret (s\<lparr>fw := g\<rparr>) (ucast (status_code (hart_get_status (fw s) h)))"
    "hart_data g = hart_data (fw s)" "hart_lock g = hart_lock (fw s)"
    using status_call [of dev me s h] by blast
  have gs: "hart_get_status (fw s) h = status (hart_of (fw s) h)" "hart_of g h = hart_of (fw s) h" "table_ok g" "lock_free g h"
    using g(2,3) assms(5-7) by (auto simp: hart_get_status_def hart_defs dest: leD)
  show ?thesis
  proof (cases "status (hart_of (fw s) h) = HS_STOPPED")
    case False
    then have "(ucast (status_code (status (hart_of (fw s) h))) :: u32) \<noteq> 1"
      by (cases "status (hart_of (fw s) h)") simp_all
    then have "start_command ?F s command = Ret (say ''not stopped'' (s\<lparr>fw := g\<rparr>)) ()"
      using sp at h g(1) gs(1) by (simp add: start_command_def add.assoc)
    then show ?thesis using run g(2) False by auto
  next
    case True
    obtain g' where g': "sbi_hart_start ?F (s\<lparr>fw := g\<rparr>) h (test_hart s) 1 = Ret (s\<lparr>fw := g'\<rparr>) 1"
      "hart_data g' = (hart_data g)[unat h := (hart_of g h)\<lparr>status := HS_STARTING, target_address := test_hart s, scratch := 1\<rparr>]"
      using start_call [of "s\<lparr>fw := g\<rparr>" h dev me "test_hart s" 1] assms(5) gs True by auto
    have "start_command ?F s command = Ret (s\<lparr>fw := g'\<rparr>) ()"
      using sp at h g(1) gs(1) g'(1) True by (simp add: start_command_def add.assoc)
    then show ?thesis using run g(2) g'(2) gs(2) True by auto
  qed
qed

section \<open>Lemmas: typing a line\<close>

text \<open>Typing on the kernel's console: the loop body for each character.\<close>

fun os_keys :: "'f firmware \<Rightarrow> u64 \<Rightarrow> ('f, 'a) boot_scheme \<Rightarrow> nat \<Rightarrow> u8 list \<Rightarrow> (('f, 'a) boot_scheme, nat) outcome" where
  "os_keys F command s pos [] = Ret s pos"
| "os_keys F command s pos (c # ks) = and_then (os_console_key F command s pos c) (\<lambda>s pos. os_keys F command s pos ks)"

text \<open>What typing leaves alone.\<close>

definition same_harts :: "(sbi, 'a) boot_scheme \<Rightarrow> (sbi, 'a) boot_scheme \<Rightarrow> bool" where
  "same_harts s s' \<longleftrightarrow> hart_data (fw s') = hart_data (fw s) \<and> hart_lock (fw s') = hart_lock (fw s)
     \<and> test_hart s' = test_hart s \<and> procs s' = procs s"

lemma key_edits:
  assumes "ready_port uart" "c \<noteq> 13" "c \<noteq> 10" "holds (kmem s) command line" "length line \<le> 255"
  shows "\<exists>s'. os_console_key (sbi_firmware uart me) command s (length line) c = Ret s' (length (edit 255 line c))
    \<and> holds (kmem s') command (edit 255 line c) \<and> same_harts s s'"
proof (cases "erases c \<or> length line = 255")
  case True
  then show ?thesis
    using assms holds_butlast by (auto simp: os_console_key_def edit_def erases_def same_harts_def say_def)
next
  case False
  let ?s = "set_mem ((kmem s)(command + of_nat (length line) := c)) s"
  obtain g where g: "sbi_putchar (sbi_firmware uart me) ?s c = Ret (?s\<lparr>fw := g\<rparr>) ()" "hart_data g = hart_data (fw s)" "hart_lock g = hart_lock (fw s)"
    using putchar_call [OF assms(1), of me ?s c] by auto
  then show ?thesis
    using False assms holds_add [OF assms(4), of c]
    by (auto simp: os_console_key_def edit_def erases_def same_harts_def set_mem_def)
qed

lemma keys_edit:
  assumes "ready_port uart" "13 \<notin> set ks" "10 \<notin> set ks" "holds (kmem s) command line" "length line \<le> 255"
  shows "\<exists>s'. os_keys (sbi_firmware uart me) command s (length line) (ks @ ds)
      = os_keys (sbi_firmware uart me) command s' (length (foldl (edit 255) line ks)) ds
    \<and> holds (kmem s') command (foldl (edit 255) line ks) \<and> same_harts s s'"
  using assms(2-5)
proof (induction ks arbitrary: s line)
  case (Cons c ks)
  obtain s1 where s1: "os_console_key (sbi_firmware uart me) command s (length line) c = Ret s1 (length (edit 255 line c))"
    "holds (kmem s1) command (edit 255 line c)" "same_harts s s1"
    using key_edits [OF assms(1), of c s command line me] Cons.prems by auto
  obtain s' where "os_keys (sbi_firmware uart me) command s1 (length (edit 255 line c)) (ks @ ds)
      = os_keys (sbi_firmware uart me) command s' (length (foldl (edit 255) (edit 255 line c) ks)) ds"
    "holds (kmem s') command (foldl (edit 255) (edit 255 line c) ks)" "same_harts s1 s'"
    using Cons.IH [of s1 "edit 255 line c"] Cons.prems s1(2) edit_length [of line 255 c] by auto
  then show ?case using s1(1,3) by (auto simp: same_harts_def)
qed (auto simp: same_harts_def)

section \<open>Properties\<close>


text \<open>The kernel of Process, with the test program at \<open>0x80005000\<close>; the line is "stt", a delete, "art 3".\<close>

definition demo_boot :: "sbi boot" where
  "demo_boot = osk.extend demo_osk (boot.fields (\<lambda>_. 0x80000000) (\<lambda>_. 0x80001000) 0 0 0 0x80005000 0x80006000 0)"

lemma demo_boot_simps [simp]:
  "fw demo_boot = demo_sbi" "test_hart demo_boot = 0x80005000" "procs demo_boot = procs demo_osk"
  by (simp_all add: demo_boot_def demo_osk_def demo_kern_def os.defs kern.defs osk.defs boot.defs)


text \<open>
  The kernel's \<open>main\<close> never returns to the start-up code: it ends in the command line for ever, in a
  process it left for, in a wait, or in undefined behaviour.
\<close>

theorem main_never_returns: "os_main dev dma F stat uninit l l' x command hart s \<noteq> Ret s' ()"
proof -
  have c: "(case os_console F command t 0 of None \<Rightarrow> Hang | Some r \<Rightarrow> r) \<noteq> Ret s' ()" for t
    using os_console_no_return [of F command t 0] by (auto split: option.splits)
  show ?thesis
    unfolding os_main_def or_stop_def
    by (cases "Option.bind (os_start_up dev uninit hart s) vfs_demo")
      (auto intro!: and_then_no_return simp: c)
qed

end
