(* ===== verification/OutText.thy ===== *)
theory OutText
  imports LineEdit
begin

unbundle bit_operations_syntax

text \<open>
  The part of src/src/printf.c that writes characters and integers. The functions hand their characters one by one to an
  output function together with the position; it works on a state, which is the memory for the functions that fill a buffer and the
  kernel for the one that writes to the console. The lemmas compare two output functions that are given the same calls.
\<close>

section \<open>Output functions\<close>

type_synonym 'o out = "u8 \<Rightarrow> u64 \<Rightarrow> 'o \<Rightarrow> 'o"

text \<open>\<open>out(c, buffer, idx++, maxlen)\<close> on the state and the position, and a run of such calls.\<close>

definition put :: "'o out \<Rightarrow> u8 \<Rightarrow> 'o \<times> u64 \<Rightarrow> 'o \<times> u64" where
  "put out c = (\<lambda>(s, idx). (out c idx s, idx + 1))"

fun put_all :: "'o out \<Rightarrow> u8 list \<Rightarrow> 'o \<times> u64 \<Rightarrow> 'o \<times> u64" where
  "put_all out [] p = p"
| "put_all out (c # xs) p = put_all out xs (put out c p)"

section \<open>Numbers\<close>

abbreviation (input) FLAGS_ZEROPAD :: u32 where "FLAGS_ZEROPAD \<equiv> 0x001"
abbreviation (input) FLAGS_LEFT :: u32 where "FLAGS_LEFT \<equiv> 0x002"
abbreviation (input) FLAGS_PLUS :: u32 where "FLAGS_PLUS \<equiv> 0x004"
abbreviation (input) FLAGS_SPACE :: u32 where "FLAGS_SPACE \<equiv> 0x008"
abbreviation (input) FLAGS_HASH :: u32 where "FLAGS_HASH \<equiv> 0x010"
abbreviation (input) FLAGS_UPPERCASE :: u32 where "FLAGS_UPPERCASE \<equiv> 0x020"
abbreviation (input) FLAGS_CHAR :: u32 where "FLAGS_CHAR \<equiv> 0x040"
abbreviation (input) FLAGS_SHORT :: u32 where "FLAGS_SHORT \<equiv> 0x080"
abbreviation (input) FLAGS_LONG :: u32 where "FLAGS_LONG \<equiv> 0x100"
abbreviation (input) FLAGS_LONG_LONG :: u32 where "FLAGS_LONG_LONG \<equiv> 0x200"
abbreviation (input) FLAGS_PRECISION :: u32 where "FLAGS_PRECISION \<equiv> 0x400"
abbreviation (input) FLAGS_ADAPT_EXP :: u32 where "FLAGS_ADAPT_EXP \<equiv> 0x800"

definition has :: "u32 \<Rightarrow> u32 \<Rightarrow> bool" where
  "has flags f \<longleftrightarrow> flags AND f \<noteq> 0"

text \<open>The local buffer is the list of the characters written into it, the last digit first.\<close>

definition out_rev :: "'o out \<Rightarrow> u8 list \<Rightarrow> u32 \<Rightarrow> u32 \<Rightarrow> 'o \<times> u64 \<Rightarrow> 'o \<times> u64" where
  "out_rev out bs wid flags p =
     (let pad = replicate (unat wid - length bs) 32;
          p = (if \<not> has flags FLAGS_LEFT \<and> \<not> has flags FLAGS_ZEROPAD then put_all out pad p else p);
          p = put_all out (rev bs) p
      in if has flags FLAGS_LEFT then put_all out pad p else p)"

text \<open>\<open>while (len < n && len < PRINTF_NTOA_BUFFER_SIZE) buf[len++] = '0'\<close>, and a character where there is room.\<close>

definition zeros :: "u8 list \<Rightarrow> u32 \<Rightarrow> u8 list" where
  "zeros bs n = bs @ replicate (min (unat n) 32 - length bs) 48"

definition room_for :: "u8 \<Rightarrow> u8 list \<Rightarrow> u8 list" where
  "room_for c bs = (if length bs < 32 then bs @ [c] else bs)"

definition hash_prefix :: "u8 list \<Rightarrow> u32 \<Rightarrow> u32 \<Rightarrow> u32 \<Rightarrow> u32 \<Rightarrow> u8 list" where
  "hash_prefix bs base prec wid flags =
     (let bs = (if \<not> has flags FLAGS_PRECISION \<and> bs \<noteq> [] \<and> (length bs = unat prec \<or> length bs = unat wid) then
                   let bs = butlast bs in if bs \<noteq> [] \<and> base = 16 then butlast bs else bs
                 else bs);
          bs = (if base = 16 \<and> \<not> has flags FLAGS_UPPERCASE then room_for 120 bs
                 else if base = 16 \<and> has flags FLAGS_UPPERCASE then room_for 88 bs
                 else if base = 2 then room_for 98 bs else bs)
      in room_for 48 bs)"

definition ntoa_format ::
  "'o out \<Rightarrow> u8 list \<Rightarrow> bool \<Rightarrow> u32 \<Rightarrow> u32 \<Rightarrow> u32 \<Rightarrow> u32 \<Rightarrow> 'o \<times> u64 \<Rightarrow> 'o \<times> u64" where
  "ntoa_format out bs negative base prec wid flags p =
     (let left = has flags FLAGS_LEFT;
          wid = (if \<not> left \<and> wid \<noteq> 0 \<and> has flags FLAGS_ZEROPAD \<and> (negative \<or> has flags (FLAGS_PLUS OR FLAGS_SPACE))
                   then wid - 1 else wid);
          bs = (if left then bs else let bs = zeros bs prec in if has flags FLAGS_ZEROPAD then zeros bs wid else bs);
          bs = (if has flags FLAGS_HASH then hash_prefix bs base prec wid flags else bs);
          bs = (if negative then room_for 45 bs else if has flags FLAGS_PLUS then room_for 43 bs
                 else if has flags FLAGS_SPACE then room_for 32 bs else bs)
      in out_rev out bs wid flags p)"

definition digit_char :: "u64 \<Rightarrow> bool \<Rightarrow> u8" where
  "digit_char d upper = (if d < 10 then 48 + ucast d else (if upper then 65 else 97) + ucast d - 10)"

fun ntoa_digits :: "nat \<Rightarrow> u64 \<Rightarrow> u64 \<Rightarrow> bool \<Rightarrow> u8 list" where
  "ntoa_digits 0 value base upper = []"
| "ntoa_digits (Suc n) value base upper =
     digit_char (value mod base) upper # (if value div base \<noteq> 0 then ntoa_digits n (value div base) base upper else [])"

text \<open>\<open>long\<close> and \<open>long long\<close> have the same width, and the two functions the same body.\<close>

definition ntoa_long ::
  "'o out \<Rightarrow> u64 \<Rightarrow> bool \<Rightarrow> u64 \<Rightarrow> u32 \<Rightarrow> u32 \<Rightarrow> u32 \<Rightarrow> 'o \<times> u64 \<Rightarrow> 'o \<times> u64" where
  "ntoa_long out value negative base prec wid flags p =
     (let flags = (if value = 0 then flags AND NOT FLAGS_HASH else flags);
          bs = (if \<not> has flags FLAGS_PRECISION \<or> value \<noteq> 0 then ntoa_digits 32 value base (has flags FLAGS_UPPERCASE) else [])
      in ntoa_format out bs negative (ucast base) prec wid flags p)"

definition ntoa_long_long ::
  "'o out \<Rightarrow> u64 \<Rightarrow> bool \<Rightarrow> u64 \<Rightarrow> u32 \<Rightarrow> u32 \<Rightarrow> u32 \<Rightarrow> 'o \<times> u64 \<Rightarrow> 'o \<times> u64" where
  "ntoa_long_long out value negative base prec wid flags p =
     (let flags = (if value = 0 then flags AND NOT FLAGS_HASH else flags);
          bs = (if \<not> has flags FLAGS_PRECISION \<or> value \<noteq> 0 then ntoa_digits 32 value base (has flags FLAGS_UPPERCASE) else [])
      in ntoa_format out bs negative (ucast base) prec wid flags p)"

section \<open>Lemmas: the same text through two output functions\<close>

text \<open>
  Two output functions on two kinds of state, in a relation at each position that both keep and under which the memory
  reads the same: then everything that is put through them keeps the relation.
\<close>

definition related :: "(u64 \<Rightarrow> 's \<Rightarrow> 't \<Rightarrow> bool) \<Rightarrow> 's out \<Rightarrow> ('s \<Rightarrow> mem) \<Rightarrow> 't out \<Rightarrow> ('t \<Rightarrow> mem) \<Rightarrow> bool" where
  "related rel out view out' view' \<longleftrightarrow> (\<forall>i s t. rel i s t \<longrightarrow> view s = view' t \<and> (\<forall>c. rel (i + 1) (out c i s) (out' c i t)))"

definition both :: "(u64 \<Rightarrow> 's \<Rightarrow> 't \<Rightarrow> bool) \<Rightarrow> 's \<times> u64 \<Rightarrow> 't \<times> u64 \<Rightarrow> bool" where
  "both rel p q \<longleftrightarrow> rel (snd p) (fst p) (fst q) \<and> snd p = snd q"

lemma related_view: "related rel out view out' view' \<Longrightarrow> both rel p q \<Longrightarrow> view (fst p) = view' (fst q)"
  unfolding related_def both_def by blast

lemma put_both: "related rel out view out' view' \<Longrightarrow> both rel p q \<Longrightarrow> both rel (put out c p) (put out' c q)"
  by (cases p; cases q) (simp add: related_def both_def put_def)

lemma put_all_both: "related rel out view out' view' \<Longrightarrow> both rel p q \<Longrightarrow> both rel (put_all out xs p) (put_all out' xs q)"
proof (induction xs arbitrary: p q)
  case (Cons x xs)
  show ?case using Cons.IH [OF Cons.prems(1) put_both [OF Cons.prems], of x] by simp
qed simp

lemma out_rev_both: "related rel out view out' view' \<Longrightarrow> both rel p q \<Longrightarrow> both rel (out_rev out bs wid flags p) (out_rev out' bs wid flags q)"
  by (auto simp: out_rev_def Let_def intro!: put_all_both)

lemma ntoa_both:
  assumes "related rel out view out' view'" "both rel p q"
  shows "both rel (ntoa_long out v neg base prec wid flags p) (ntoa_long out' v neg base prec wid flags q)"
    "both rel (ntoa_long_long out v neg base prec wid flags p) (ntoa_long_long out' v neg base prec wid flags q)"
  unfolding ntoa_long_def ntoa_long_long_def ntoa_format_def Let_def by (rule out_rev_both [OF assms])+

end
