(* ===== verification/FloatText.thy ===== *)
theory FloatText
  imports OutText
begin

unbundle bit_operations_syntax

text \<open>
  The part of src/src/printf.c that writes floating-point numbers. A double is its 64 bits; what the floating-point unit makes of
  them is the record \<open>fpu\<close>, a parameter of all that follows: the operations and comparisons of the C code, one
  by one in the order of the source, and the conversions from and to int and unsigned long. Constants are their bits. The size of the
  table of powers of ten is ten; reading it elsewhere is \<open>None\<close>, and so is a chain of calls without end.
\<close>

section \<open>Numbers in fixed notation\<close>

record fpu =
  f_add :: "u64 \<Rightarrow> u64 \<Rightarrow> u64"
  f_sub :: "u64 \<Rightarrow> u64 \<Rightarrow> u64"
  f_mul :: "u64 \<Rightarrow> u64 \<Rightarrow> u64"
  f_div :: "u64 \<Rightarrow> u64 \<Rightarrow> u64"
  f_less :: "u64 \<Rightarrow> u64 \<Rightarrow> bool"
  f_le :: "u64 \<Rightarrow> u64 \<Rightarrow> bool"
  f_eq :: "u64 \<Rightarrow> u64 \<Rightarrow> bool"
  f_of_int :: "u32 \<Rightarrow> u64"
  f_of_ulong :: "u64 \<Rightarrow> u64"
  f_to_int :: "u64 \<Rightarrow> u32"
  f_to_ulong :: "u64 \<Rightarrow> u64"

abbreviation (input) HALF :: u64 where "HALF \<equiv> 0x3FE0000000000000"
abbreviation (input) DBL_MAX :: u64 where "DBL_MAX \<equiv> 0x7FEFFFFFFFFFFFFF"
abbreviation (input) PRINTF_MAX_FLOAT :: u64 where "PRINTF_MAX_FLOAT \<equiv> 0x41CDCD6500000000"

definition f_neg :: "u64 \<Rightarrow> u64" where
  "f_neg x = x XOR 0x8000000000000000"

definition pow10 :: "u64 list" where
  "pow10 = [0x3FF0000000000000, 0x4024000000000000, 0x4059000000000000, 0x408F400000000000, 0x40C3880000000000,
     0x40F86A0000000000, 0x412E848000000000, 0x416312D000000000, 0x4197D78400000000, 0x41CDCD6500000000]"

text \<open>The whole part and the digits behind the point, rounded: \<open>whole\<close>, \<open>frac\<close>.\<close>

definition ftoa_round :: "fpu \<Rightarrow> u64 \<Rightarrow> u32 \<Rightarrow> u32 \<times> u64" where
  "ftoa_round fp value prec =
     (let whole = f_to_int fp value;
          tmp = f_mul fp (f_sub fp value (f_of_int fp whole)) (pow10 ! unat prec);
          frac = f_to_ulong fp tmp;
          diff = f_sub fp tmp (f_of_ulong fp frac)
      in if f_less fp HALF diff then
           let frac = frac + 1 in if f_le fp (pow10 ! unat prec) (f_of_ulong fp frac) then (whole + 1, 0) else (whole, frac)
         else if f_less fp diff HALF then (whole, frac)
         else if frac = 0 \<or> bit frac 0 then (whole, frac + 1) else (whole, frac))"

text \<open>The digit loops, given the room that is left; the first one counts down with every digit.\<close>

fun frac_digits :: "nat \<Rightarrow> u64 \<Rightarrow> u32 \<Rightarrow> u8 list \<times> u32" where
  "frac_digits 0 frac n = ([], n)"
| "frac_digits (Suc room) frac n =
     (let d = 48 + ucast (frac mod 10) in
      if frac div 10 = 0 then ([d], n - 1)
      else let (ds, n) = frac_digits room (frac div 10) (n - 1) in (d # ds, n))"

fun whole_digits :: "nat \<Rightarrow> u32 \<Rightarrow> u8 list" where
  "whole_digits 0 whole = []"
| "whole_digits (Suc room) whole =
     (48 + word_of_int (sint whole smod 10))
     # (let whole = word_of_int (sint whole sdiv 10) in if whole = 0 then [] else whole_digits room whole)"

definition ftoa_frac :: "u8 list \<Rightarrow> u64 \<Rightarrow> u32 \<Rightarrow> u8 list" where
  "ftoa_frac bs frac prec =
     (let (ds, n) = frac_digits (32 - length bs) frac prec;
          bs = bs @ ds;
          bs = bs @ replicate (min (unat n) (32 - length bs)) 48
      in room_for 46 bs)"

text \<open>The digits of a number, the last one first, and then leading zeros and the sign.\<close>

definition ftoa_digits :: "fpu \<Rightarrow> u64 \<Rightarrow> u32 \<Rightarrow> nat \<Rightarrow> u8 list" where
  "ftoa_digits fp value prec n =
     (let (whole, frac) = ftoa_round fp value prec;
          diff = f_sub fp value (f_of_int fp whole);
          whole = (if prec = 0 \<and> (\<not> f_less fp diff HALF \<or> f_less fp HALF diff) \<and> bit whole 0 then whole + 1 else whole);
          bs = replicate n 48;
          bs = (if prec = 0 then bs else ftoa_frac bs frac prec)
      in bs @ whole_digits (32 - length bs) whole)"

definition ftoa_pad :: "u8 list \<Rightarrow> bool \<Rightarrow> u32 \<Rightarrow> u32 \<Rightarrow> u8 list \<times> u32" where
  "ftoa_pad bs negative wid flags =
     (let pad = (\<not> has flags FLAGS_LEFT \<and> has flags FLAGS_ZEROPAD);
          wid = (if pad \<and> wid \<noteq> 0 \<and> (negative \<or> has flags (FLAGS_PLUS OR FLAGS_SPACE)) then wid - 1 else wid);
          bs = (if pad then zeros bs wid else bs)
      in (if negative then room_for 45 bs else if has flags FLAGS_PLUS then room_for 43 bs
          else if has flags FLAGS_SPACE then room_for 32 bs else bs, wid))"

text \<open>What \<open>_ftoa\<close> hands to \<open>_out_rev\<close> for a number that is not special: the characters, and the width.\<close>

definition ftoa_plain :: "fpu \<Rightarrow> u64 \<Rightarrow> u32 \<Rightarrow> u32 \<Rightarrow> u32 \<Rightarrow> (u8 list \<times> u32) option" where
  "ftoa_plain fp value prec wid flags =
     (let negative = f_less fp value 0;
          value = (if negative then f_sub fp 0 value else value);
          prec = (if has flags FLAGS_PRECISION then prec else 6);
          n = min 32 (unat prec - 9);
          prec = prec - of_nat n
      in if 9 < prec then None else Some (ftoa_pad (ftoa_digits fp value prec n) negative wid flags))"

section \<open>Numbers with an exponent\<close>

text \<open>What \<open>_etoa\<close> finds out before it prints: the number and how to print it, the width of the exponent, and the exponent.\<close>

record escale =
  e_value :: u64
  e_prec :: u32
  e_width :: u32
  e_min :: u32
  e_exp :: u32

text \<open>A power of ten near the value: its exponent and its bits.\<close>

definition etoa_power :: "fpu \<Rightarrow> u64 \<Rightarrow> u32 \<times> u64" where
  "etoa_power fp value =
     (let add = f_add fp; sub = f_sub fp; mul = f_mul fp; quo = f_div fp;
          exp2 = ucast (drop_bit 52 value AND 0x7FF) - 1023;
          x = (value AND (push_bit 52 1 - 1)) OR push_bit 52 1023;
          expval = f_to_int fp (add (add 0x3FC68A288B60C8B3 (mul (f_of_int fp exp2) 0x3FD34413509F79FB))
            (mul (sub x 0x3FF8000000000000) 0x3FD287A7636F4361));
          exp2 = f_to_int fp (add (mul (f_of_int fp expval) 0x400A934F0979A371) HALF);
          z = sub (mul (f_of_int fp expval) 0x40026BB1BBB55516) (mul (f_of_int fp exp2) 0x3FE62E42FEFA39EF);
          z2 = mul z z;
          x = push_bit 52 (scast (exp2 + 1023));
          x = mul x (add 0x3FF0000000000000 (quo (mul 0x4000000000000000 z)
            (add (sub 0x4000000000000000 z) (quo z2 (add 0x4018000000000000 (quo z2 (add 0x4024000000000000 (quo z2 0x402C000000000000))))))))
      in if f_less fp value x then (expval - 1, quo x 0x4024000000000000) else (expval, x))"

definition etoa_scale :: "fpu \<Rightarrow> u64 \<Rightarrow> u32 \<Rightarrow> u32 \<Rightarrow> u32 \<Rightarrow> escale \<times> u32" where
  "etoa_scale fp value prec wid flags =
     (let negative = f_less fp value 0;
          value = (if negative then f_neg value else value);
          prec = (if has flags FLAGS_PRECISION then prec else 6);
          (expval, x) = etoa_power fp value;
          minwidth = (if expval <s 100 \<and> - 100 <s expval then 4 else 5);
          adapt = has flags FLAGS_ADAPT_EXP;
          fixed = (adapt \<and> f_le fp 0x3F1A36E2EB1C432D value \<and> f_less fp value 0x412E848000000000);
          prec = (if fixed then (if expval <s prec then prec - expval - 1 else 0)
                  else if adapt \<and> prec \<noteq> 0 \<and> has flags FLAGS_PRECISION then prec - 1 else prec);
          flags = (if fixed then flags OR FLAGS_PRECISION else flags);
          minwidth = (if fixed then 0 else minwidth);
          expval = (if fixed then 0 else expval);
          fwidth = (if minwidth < wid then wid - minwidth else 0);
          fwidth = (if has flags FLAGS_LEFT \<and> minwidth \<noteq> 0 then 0 else fwidth);
          value = (if expval \<noteq> 0 then f_div fp value x else value)
      in (\<lparr>e_value = (if negative then f_neg value else value), e_prec = prec, e_width = fwidth, e_min = minwidth, e_exp = expval\<rparr>,
          flags AND NOT FLAGS_ADAPT_EXP))"

definition etoa_exponent :: "'o out \<Rightarrow> escale \<Rightarrow> u32 \<Rightarrow> u32 \<Rightarrow> u64 \<Rightarrow> 'o \<times> u64 \<Rightarrow> 'o \<times> u64" where
  "etoa_exponent out e wid flags first p =
     (if e_min e = 0 then p
      else
        let p = put out (if has flags FLAGS_UPPERCASE then 69 else 101) p;
            n = e_exp e;
            p = ntoa_long out (scast (if n <s 0 then - n else n)) (n <s 0) 10 0 (e_min e - 1) (FLAGS_ZEROPAD OR FLAGS_PLUS) p
        in if has flags FLAGS_LEFT then put_all out (replicate (unat wid - unat (snd p - first)) 32) p else p)"

text \<open>
  \<open>_ftoa\<close> and \<open>_etoa\<close> call each other. The special numbers \<open>_etoa\<close> hands back are sorted out before \<open>_ftoa\<close> calls
  it, so that call is its second half.
\<close>

partial_function (option) ftoa :: "fpu \<Rightarrow> 'o out \<Rightarrow> u64 \<Rightarrow> u32 \<Rightarrow> u32 \<Rightarrow> u32 \<Rightarrow> 'o \<times> u64 \<Rightarrow> ('o \<times> u64) option" where
  "ftoa fp out value prec wid flags p =
     (if \<not> f_eq fp value value then Some (out_rev out (chars ''nan'') wid flags p)
      else if f_less fp value (f_neg DBL_MAX) then Some (out_rev out (chars ''fni-'') wid flags p)
      else if f_less fp DBL_MAX value then Some (out_rev out (chars (if has flags FLAGS_PLUS then ''fni+'' else ''fni'')) wid flags p)
      else if f_less fp PRINTF_MAX_FLOAT value \<or> f_less fp value (f_neg PRINTF_MAX_FLOAT) then
        let (e, fl) = etoa_scale fp value prec wid flags in
        Option.bind (ftoa fp out (e_value e) (e_prec e) (e_width e) fl p) (\<lambda>q.
          Some (etoa_exponent out e wid flags (snd p) q))
      else map_option (\<lambda>(bs, w). out_rev out bs w flags p) (ftoa_plain fp value prec wid flags))"

definition etoa :: "fpu \<Rightarrow> 'o out \<Rightarrow> u64 \<Rightarrow> u32 \<Rightarrow> u32 \<Rightarrow> u32 \<Rightarrow> 'o \<times> u64 \<Rightarrow> ('o \<times> u64) option" where
  "etoa fp out value prec wid flags p =
     (if \<not> f_eq fp value value \<or> f_less fp DBL_MAX value \<or> f_less fp value (f_neg DBL_MAX) then ftoa fp out value prec wid flags p
      else
        let (e, fl) = etoa_scale fp value prec wid flags in
        Option.bind (ftoa fp out (e_value e) (e_prec e) (e_width e) fl p) (\<lambda>q.
          Some (etoa_exponent out e wid flags (snd p) q)))"

section \<open>Lemmas: the same number through two output functions\<close>

lemma etoa_exponent_both:
  assumes "related rel out view out' view'" "both rel p q"
  shows "both rel (etoa_exponent out e wid flags first p) (etoa_exponent out' e wid flags first q)"
proof -
  have eq: "snd p = snd q" if "both rel p q" for p q using that by (simp add: both_def)
  let ?n = "\<lambda>out p. ntoa_long out (scast (if e_exp e <s 0 then - e_exp e else e_exp e)) (e_exp e <s 0) 10 0 (e_min e - 1) 5
    (put out (if has flags FLAGS_UPPERCASE then 69 else 101) p)"
  have n: "both rel (?n out p) (?n out' q)" by (intro ntoa_both(1) [OF assms(1)] put_both [OF assms])
  show ?thesis
    using assms(2) n put_all_both [OF assms(1) n] eq [OF n] by (simp add: etoa_exponent_def Let_def)
qed

lemma ftoa_both:
  assumes "ftoa fp out value prec wid flags p = Some p'" "related rel out view out' view'" "both rel p q"
  shows "\<exists>q'. ftoa fp out' value prec wid flags q = Some q' \<and> both rel p' q'"
proof -
  let ?P = "\<lambda>fp out value prec wid flags p p'. \<forall>q. related rel out view out' view' \<longrightarrow> both rel p q \<longrightarrow>
      (\<exists>q'. ftoa fp out' value prec wid flags q = Some q' \<and> both rel p' q')"
  have "?P fp out value prec wid flags p p'"
  proof (rule ftoa.raw_induct [where P = ?P, OF _ assms(1)], intro allI impI)
    fix g fp out v prec wid flags p p' q
    assume IH: "\<And>fp out v prec wid flags p p'. g fp out v prec wid flags p = Some p' \<Longrightarrow> ?P fp out v prec wid flags p p'"
      and body: "(if \<not> f_eq fp v v then Some (out_rev out (chars ''nan'') wid flags p)
        else if f_less fp v (f_neg DBL_MAX) then Some (out_rev out (chars ''fni-'') wid flags p)
        else if f_less fp DBL_MAX v then Some (out_rev out (chars (if has flags FLAGS_PLUS then ''fni+'' else ''fni'')) wid flags p)
        else if f_less fp PRINTF_MAX_FLOAT v \<or> f_less fp v (f_neg PRINTF_MAX_FLOAT) then
          let (e, fl) = etoa_scale fp v prec wid flags in
          Option.bind (g fp out (e_value e) (e_prec e) (e_width e) fl p) (\<lambda>q. Some (etoa_exponent out e wid flags (snd p) q))
        else map_option (\<lambda>(bs, w). out_rev out bs w flags p) (ftoa_plain fp v prec wid flags)) = Some p'"
      and r: "related rel out view out' view'" "both rel p q"
    have pos: "snd q = snd p" using r(2) by (simp add: both_def)
    let ?large = "f_eq fp v v \<and> \<not> f_less fp v (f_neg DBL_MAX) \<and> \<not> f_less fp DBL_MAX v
      \<and> (f_less fp PRINTF_MAX_FLOAT v \<or> f_less fp v (f_neg PRINTF_MAX_FLOAT))"
    show "\<exists>q'. ftoa fp out' v prec wid flags q = Some q' \<and> both rel p' q'"
    proof (cases ?large)
      case True
      obtain e fl where e: "etoa_scale fp v prec wid flags = (e, fl)" by fastforce
      obtain p1 where p1: "g fp out (e_value e) (e_prec e) (e_width e) fl p = Some p1" "p' = etoa_exponent out e wid flags (snd p) p1"
        using body True e by (auto simp: bind_eq_Some_conv)
      from IH [OF p1(1)] r obtain q1 where "ftoa fp out' (e_value e) (e_prec e) (e_width e) fl q = Some q1" "both rel p1 q1" by blast
      then show ?thesis
        using True e p1(2) pos etoa_exponent_both [OF r(1)] by (subst ftoa.simps) simp
    next
      case False
      then have same: "\<exists>bs w. p' = out_rev out bs w flags p \<and> ftoa fp out' v prec wid flags q = Some (out_rev out' bs w flags q)"
        using body by (subst ftoa.simps) (auto split: if_splits)
      then show ?thesis
        using out_rev_both [OF r] by metis
    qed
  qed
  then show ?thesis using assms(2,3) by blast
qed

lemma etoa_both:
  assumes "etoa fp out value prec wid flags p = Some p'" "related rel out view out' view'" "both rel p q"
  shows "\<exists>q'. etoa fp out' value prec wid flags q = Some q' \<and> both rel p' q'"
proof (cases "\<not> f_eq fp value value \<or> f_less fp DBL_MAX value \<or> f_less fp value (f_neg DBL_MAX)")
  case True
  then show ?thesis using assms(1) ftoa_both [OF _ assms(2,3)] by (simp add: etoa_def)
next
  case False
  obtain e fl where e: "etoa_scale fp value prec wid flags = (e, fl)" by fastforce
  obtain p1 where p1: "ftoa fp out (e_value e) (e_prec e) (e_width e) fl p = Some p1" "p' = etoa_exponent out e wid flags (snd p) p1"
    using assms(1) False e by (auto simp: etoa_def bind_eq_Some_conv)
  from ftoa_both [OF p1(1) assms(2,3)]
  obtain q1 where "ftoa fp out' (e_value e) (e_prec e) (e_width e) fl q = Some q1" "both rel p1 q1" by blast
  moreover have "snd q = snd p" using assms(3) by (simp add: both_def)
  ultimately show ?thesis using False e p1(2) etoa_exponent_both [OF assms(2)] by (simp add: etoa_def)
qed

section \<open>Lemmas: the local buffer\<close>

lemma room_for_length: "length bs \<le> 32 \<Longrightarrow> length (room_for c bs) \<le> 32"
  by (simp add: room_for_def)

lemma zeros_length: "length bs \<le> 32 \<Longrightarrow> length (zeros bs n) \<le> 32"
  by (simp add: zeros_def)

lemma frac_digits_length: "length (fst (frac_digits room frac n)) \<le> room"
  by (induction room frac n rule: frac_digits.induct) (auto simp: Let_def split_def)

lemma whole_digits_length: "length (whole_digits room whole) \<le> room"
  by (induction room whole rule: whole_digits.induct) (auto simp: Let_def)

lemma ftoa_frac_length: "length bs \<le> 32 \<Longrightarrow> length (ftoa_frac bs frac prec) \<le> 32"
  using frac_digits_length [of "32 - length bs" frac prec]
  by (auto simp: ftoa_frac_def Let_def split_def intro!: room_for_length)

lemma whole_fits: "length bs \<le> 32 \<Longrightarrow> length (bs @ whole_digits (32 - length bs) whole) \<le> 32"
  using whole_digits_length [of "32 - length bs" whole] by simp

lemma one_less_le: "(x :: u32) \<noteq> 0 \<Longrightarrow> x - 1 \<le> x"
  by (simp add: word_le_nat_alt unat_minus_one)

lemma ftoa_digits_length: "n \<le> 32 \<Longrightarrow> length (ftoa_digits fp value prec n) \<le> 32"
  unfolding ftoa_digits_def Let_def split_def by (intro whole_fits) (simp add: ftoa_frac_length)

lemma ftoa_pad_fits: "length bs \<le> 32 \<Longrightarrow> length (fst (ftoa_pad bs negative wid flags)) \<le> 32 \<and> snd (ftoa_pad bs negative wid flags) \<le> wid"
  by (auto simp: ftoa_pad_def Let_def intro!: room_for_length zeros_length one_less_le)

lemma power_ten: "k \<le> 9 \<Longrightarrow> unat ((10 :: u64) ^ k) = 10 ^ k"
proof -
  assume "k \<le> 9"
  then have "(10 :: nat) ^ k \<le> 10 ^ 9" by (intro power_increasing) simp_all
  then have "(10 :: nat) ^ k < 2 ^ 64" by simp
  then have "unat (of_nat (10 ^ k) :: u64) = 10 ^ k" by (simp add: unsigned_of_nat take_bit_nat_eq_self del: of_nat_power)
  then show ?thesis by simp
qed

lemma frac_digits_power: "k \<le> 9 \<Longrightarrow> k < room \<Longrightarrow> frac_digits room (10 ^ k) n = (replicate k 48 @ [49], n - of_nat (Suc k))"
proof (induction k arbitrary: room n)
  case 0
  then show ?case by (cases room) simp_all
next
  case (Suc k)
  obtain r where r: "room = Suc r" using Suc.prems(2) by (cases room) auto
  have u: "unat ((10 :: u64) ^ Suc k) = 10 ^ Suc k" "unat ((10 :: u64) ^ k) = 10 ^ k"
    using power_ten [OF Suc.prems(1)] power_ten [of k] Suc.prems(1) by simp_all
  have "(10 :: u64) ^ Suc k mod 10 = 0" "(10 :: u64) ^ Suc k div 10 = 10 ^ k"
    by (intro word_unat_eq_iff [THEN iffD2]; simp add: unat_mod_distrib unat_div_distrib u del: power_Suc; simp)+
  moreover have "(10 :: u64) ^ k \<noteq> 0" using u(2) by (metis unat_0 power_eq_0_iff zero_neq_numeral)
  ultimately show ?case using Suc.IH [of r "n - 1"] Suc.prems r by (simp add: algebra_simps del: power_Suc)
qed

lemma ftoa_frac_power:
  assumes "1 \<le> prec" "prec \<le> (9 :: u32)"
  shows "ftoa_frac [] (10 ^ unat prec) prec = replicate (unat prec) 48 @ [49] @ replicate (31 - unat prec) 48"
proof -
  have k: "unat prec \<le> 9" using assms(2) by (simp add: word_le_nat_alt)
  have "prec - of_nat (Suc (unat prec)) = - 1" "unat (- 1 :: u32) = 4294967295"
    by (simp_all add: unsigned_minus_1_eq_mask mask_eq_exp_minus_1)
  then show ?thesis
    using frac_digits_power [OF k, of 32 prec] k by (simp add: ftoa_frac_def room_for_def Let_def min_def)
qed

section \<open>Properties\<close>

text \<open>
  C38. The buffer and the table of \<open>_ftoa\<close>, whatever the floating-point unit computes: the characters of a number always fit into the
  32 bytes of the local buffer, and the table of powers of ten is read outside its bounds exactly when the format gives
  a precision above 41.
\<close>

theorem ftoa_bounds:
  "case ftoa_plain fp value prec wid flags of
     None \<Rightarrow> has flags FLAGS_PRECISION \<and> 41 < prec
   | Some (bs, w) \<Rightarrow> length bs \<le> 32 \<and> w \<le> wid \<and> \<not> (has flags FLAGS_PRECISION \<and> 41 < prec)"
proof -
  let ?prec = "if has flags FLAGS_PRECISION then prec else 6"
  let ?n = "min 32 (unat ?prec - 9)"
  have n: "9 < ?prec - of_nat ?n \<longleftrightarrow> 41 < ?prec"
    by (simp add: word_less_nat_alt unat_sub_if_size unsigned_of_nat word_size take_bit_nat_eq_self min_def) arith
  show ?thesis
  proof (cases "41 < ?prec")
    case True
    then show ?thesis using n by (auto simp: ftoa_plain_def Let_def split: if_splits)
  next
    case False
    let ?neg = "f_less fp value 0"
    let ?bs = "ftoa_digits fp (if ?neg then f_sub fp 0 value else value) (?prec - of_nat ?n) ?n"
    have "ftoa_plain fp value prec wid flags = Some (ftoa_pad ?bs ?neg wid flags)"
      using False n by (simp add: ftoa_plain_def Let_def)
    moreover have "length ?bs \<le> 32" by (rule ftoa_digits_length) simp
    ultimately show ?thesis
      using ftoa_pad_fits [of ?bs ?neg wid flags] False by (auto simp: split_def not_less)
  qed
qed

text \<open>
  C35. A number exactly half way to the next power of ten. When the digits behind the point are all nines and the rest is
  exactly a half, the digits are rounded up to one more than there is room for, which the code does for the
  other roundings but not for this one; the count of digits wraps around, and the text is 32 characters, zeros but for a single one,
  with no point in it, whatever the number is before the point.
\<close>

theorem ftoa_halfway:
  assumes "has flags FLAGS_PRECISION" "1 \<le> prec" "prec \<le> 9" "\<not> f_less fp value 0"
    and "tmp = f_mul fp (f_sub fp value (f_of_int fp (f_to_int fp value))) (pow10 ! unat prec)"
    and "f_to_ulong fp tmp = 10 ^ unat prec - 1"
    and "diff = f_sub fp tmp (f_of_ulong fp (f_to_ulong fp tmp))" "\<not> f_less fp HALF diff" "\<not> f_less fp diff HALF"
  shows "\<exists>w. ftoa_plain fp value prec wid flags = Some (replicate (unat prec) 48 @ [49] @ replicate (31 - unat prec) 48, w)"
proof -
  let ?bs = "replicate (unat prec) 48 @ [49] @ replicate (31 - unat prec) (48 :: u8)"
  have k: "unat prec \<le> 9" "unat prec \<noteq> 0" "prec \<noteq> 0" using assms(2,3) by (auto simp: word_le_nat_alt)
  have "bit (10 ^ unat prec - 1 :: u64) 0" using k(2) by (simp add: bit_0)
  then have "ftoa_round fp value prec = (f_to_int fp value, 10 ^ unat prec)"
    using assms(5-9) by (simp add: ftoa_round_def Let_def)
  then have "ftoa_digits fp value prec 0 = ?bs"
    using ftoa_frac_power [OF assms(2,3)] k by (simp add: ftoa_digits_def Let_def)
  moreover have "ftoa_plain fp value prec wid flags = Some (ftoa_pad (ftoa_digits fp value prec 0) False wid flags)"
    using assms(1,3,4) k(1) by (simp add: ftoa_plain_def Let_def not_less)
  moreover have "fst (ftoa_pad ?bs False wid flags) = ?bs"
    using k(1) by (simp add: ftoa_pad_def zeros_def room_for_def Let_def min_def)
  ultimately show ?thesis by (cases "ftoa_pad ?bs False wid flags") simp
qed

text \<open>Printing 0.95 with one digit: times ten it is 9.5 in doubles, and the rest is a half.\<close>

definition demo_fpu :: fpu where
  "demo_fpu = \<lparr>f_add = \<lambda>_ _. 0, f_sub = \<lambda>x y. if y = 0 then x else HALF, f_mul = \<lambda>_ _. 0x4023000000000000, f_div = \<lambda>_ _. 0,
     f_less = (<), f_le = (\<le>), f_eq = (=), f_of_int = \<lambda>_. 0, f_of_ulong = \<lambda>_. 0x4022000000000000, f_to_int = \<lambda>_. 0, f_to_ulong = \<lambda>_. 9\<rparr>"

lemma ftoa_halfway_witness:
  "\<exists>w. ftoa_plain demo_fpu 0x3FEE666666666666 1 0 FLAGS_PRECISION
     = Some (replicate (unat (1 :: u32)) 48 @ [49] @ replicate (31 - unat (1 :: u32)) 48, w)"
  by (rule ftoa_halfway [where tmp = "0x4023000000000000" and diff = HALF]) (simp_all add: has_def demo_fpu_def pow10_def)

end
