(* ===== verification/Printf.thy ===== *)
theory Printf
  imports FloatText Ecall
begin

unbundle bit_operations_syntax

text \<open>
  Formatted output: src/src/printf.c; what it does with numbers is in OutText and FloatText. Reading memory goes through the
  state of the output function, because the output may overwrite what is still to be read. The arguments after the format are the
  64-bit slots the calling convention puts them into. Loops over strings that have no end are \<open>None\<close>, and so
  is a read outside a table (FloatText). The firmware and the user library have copies of the file with another \<open>_putchar\<close>; the
  firmware's is here, the library's in Machine.
\<close>

section \<open>Output functions\<close>


definition out_buffer :: "u64 \<Rightarrow> u64 \<Rightarrow> mem out" where
  "out_buffer dst maxlen c idx m = (if idx < maxlen then m(dst + idx := c) else m)"

definition out_null :: "'o out" where
  "out_null c idx s = s"

definition out_char :: "'f firmware \<Rightarrow> (('f, 'a) kern_scheme, unit) outcome out" where
  "out_char F c idx r = (if c \<noteq> 0 then and_then r (\<lambda>s _. sbi_putchar F s c) else r)"

definition out_fct :: "(u8 \<Rightarrow> 'o \<Rightarrow> 'o) \<Rightarrow> 'o out" where
  "out_fct fct c idx s = (if c \<noteq> 0 then fct c s else s)"

section \<open>Reading a conversion\<close>

partial_function (option) parse_number :: "mem \<Rightarrow> u64 \<Rightarrow> u32 \<Rightarrow> (u64 \<times> u32) option" where
  "parse_number m f i =
     (if is_digit (m f) then parse_number m (f + 1) (i * 10 + (ucast (m f) - 48)) else Some (f, i))"

definition flag_of :: "u8 \<Rightarrow> u32" where
  "flag_of c =
     (if c = 48 then FLAGS_ZEROPAD else if c = 45 then FLAGS_LEFT else if c = 43 then FLAGS_PLUS
      else if c = 32 then FLAGS_SPACE else if c = 35 then FLAGS_HASH else 0)"

partial_function (option) parse_flags :: "mem \<Rightarrow> u64 \<Rightarrow> u32 \<Rightarrow> (u64 \<times> u32) option" where
  "parse_flags m f flags =
     (if flag_of (m f) \<noteq> 0 then parse_flags m (f + 1) (flags OR flag_of (m f)) else Some (f, flags))"

text \<open>A conversion: where the format goes on, flags, width, precision, and the next argument.\<close>

record conv =
  fmt :: u64
  cflags :: u32
  cwidth :: u32
  cprec :: u32
  carg :: nat

definition parse_width :: "mem \<Rightarrow> (nat \<Rightarrow> u64) \<Rightarrow> conv \<Rightarrow> conv option" where
  "parse_width m args q =
     (if is_digit (m (fmt q)) then map_option (\<lambda>(f, w). q\<lparr>fmt := f, cwidth := w\<rparr>) (parse_number m (fmt q) 0)
      else if m (fmt q) = 42 then
        let w = (ucast (args (carg q)) :: u32); q = q\<lparr>fmt := fmt q + 1, carg := carg q + 1\<rparr> in
        Some (if w <s 0 then q\<lparr>cflags := cflags q OR FLAGS_LEFT, cwidth := - w\<rparr> else q\<lparr>cwidth := w\<rparr>)
      else Some q)"

definition parse_precision :: "mem \<Rightarrow> (nat \<Rightarrow> u64) \<Rightarrow> conv \<Rightarrow> conv option" where
  "parse_precision m args q =
     (if m (fmt q) = 46 then
        let q = q\<lparr>cflags := cflags q OR FLAGS_PRECISION, fmt := fmt q + 1\<rparr> in
        if is_digit (m (fmt q)) then map_option (\<lambda>(f, n). q\<lparr>fmt := f, cprec := n\<rparr>) (parse_number m (fmt q) 0)
        else if m (fmt q) = 42 then
          let n = (ucast (args (carg q)) :: u32) in
          Some (q\<lparr>fmt := fmt q + 1, carg := carg q + 1, cprec := (if 0 <s n then n else 0)\<rparr>)
        else Some q
      else Some q)"

definition parse_length :: "mem \<Rightarrow> conv \<Rightarrow> conv" where
  "parse_length m q =
     (let c = m (fmt q) in
      if c = 108 then
        let q = q\<lparr>cflags := cflags q OR FLAGS_LONG, fmt := fmt q + 1\<rparr> in
        if m (fmt q) = 108 then q\<lparr>cflags := cflags q OR FLAGS_LONG_LONG, fmt := fmt q + 1\<rparr> else q
      else if c = 104 then
        let q = q\<lparr>cflags := cflags q OR FLAGS_SHORT, fmt := fmt q + 1\<rparr> in
        if m (fmt q) = 104 then q\<lparr>cflags := cflags q OR FLAGS_CHAR, fmt := fmt q + 1\<rparr> else q
      else if c = 116 \<or> c = 106 \<or> c = 122 then q\<lparr>cflags := cflags q OR FLAGS_LONG, fmt := fmt q + 1\<rparr>
      else q)"

definition parse_conv :: "mem \<Rightarrow> (nat \<Rightarrow> u64) \<Rightarrow> u64 \<Rightarrow> nat \<Rightarrow> conv option" where
  "parse_conv m args f k =
     Option.bind (parse_flags m f 0) (\<lambda>(f, flags).
     Option.bind (parse_width m args \<lparr>fmt = f, cflags = flags, cwidth = 0, cprec = 0, carg = k\<rparr>) (\<lambda>q.
     Option.bind (parse_precision m args q) (\<lambda>q. Some (parse_length m q))))"

section \<open>Conversions\<close>

text \<open>An argument as its type has it: \<open>char\<close> is unsigned here. Negating is left undefined by C for the least value.\<close>

definition signed_arg :: "u32 \<Rightarrow> u64 \<Rightarrow> u64 \<times> bool" where
  "signed_arg flags raw =
     (if has flags FLAGS_LONG_LONG \<or> has flags FLAGS_LONG then (if 0 <s raw then raw else - raw, raw <s 0)
      else
        let value = (if has flags FLAGS_CHAR then ucast (ucast raw :: u8) else if has flags FLAGS_SHORT then scast (ucast raw :: u16)
                     else ucast raw :: u32)
        in (ucast (if 0 <s value then value else - value), value <s 0))"

definition unsigned_arg :: "u32 \<Rightarrow> u64 \<Rightarrow> u64" where
  "unsigned_arg flags raw =
     (if has flags FLAGS_LONG_LONG \<or> has flags FLAGS_LONG then raw
      else if has flags FLAGS_CHAR then ucast (ucast raw :: u8) else if has flags FLAGS_SHORT then ucast (ucast raw :: u16)
      else ucast (ucast raw :: u32))"

definition put_int :: "'o out \<Rightarrow> u8 \<Rightarrow> u64 \<Rightarrow> conv \<Rightarrow> 'o \<times> u64 \<Rightarrow> 'o \<times> u64" where
  "put_int out c raw q p =
     (let base = (if c = 120 \<or> c = 88 then 16 else if c = 111 then 8 else if c = 98 then 2 else 10);
          flags = cflags q;
          flags = (if base = 10 then flags AND NOT FLAGS_HASH else flags);
          flags = (if c = 88 then flags OR FLAGS_UPPERCASE else flags);
          flags = (if c \<noteq> 105 \<and> c \<noteq> 100 then flags AND NOT (FLAGS_PLUS OR FLAGS_SPACE) else flags);
          flags = (if has flags FLAGS_PRECISION then flags AND NOT FLAGS_ZEROPAD else flags);
          (value, negative) = (if c = 105 \<or> c = 100 then signed_arg flags raw else (unsigned_arg flags raw, False))
      in if has flags FLAGS_LONG_LONG then ntoa_long_long out value negative base (cprec q) (cwidth q) flags p
         else ntoa_long out value negative base (cprec q) (cwidth q) flags p)"

definition put_char :: "'o out \<Rightarrow> u8 \<Rightarrow> conv \<Rightarrow> 'o \<times> u64 \<Rightarrow> 'o \<times> u64" where
  "put_char out c q p =
     (let pad = replicate (unat (cwidth q) - 1) 32; left = has (cflags q) FLAGS_LEFT;
          p = put out c (if left then p else put_all out pad p)
      in if left then put_all out pad p else p)"

partial_function (option) strnlen_s :: "mem \<Rightarrow> u64 \<Rightarrow> u64 \<Rightarrow> u64 \<Rightarrow> u32 option" where
  "strnlen_s m s maxsize str =
     (if m s \<noteq> 0 \<and> maxsize \<noteq> 0 then strnlen_s m (s + 1) (maxsize - 1) str else Some (ucast (s - str)))"

partial_function (option) put_chars :: "'o out \<Rightarrow> ('o \<Rightarrow> mem) \<Rightarrow> bool \<Rightarrow> u64 \<Rightarrow> u32 \<Rightarrow> 'o \<times> u64 \<Rightarrow> ('o \<times> u64) option" where
  "put_chars out view limited s prec p =
     (if view (fst p) s \<noteq> 0 \<and> (\<not> limited \<or> prec \<noteq> 0)
      then put_chars out view limited (s + 1) (prec - 1) (put out (view (fst p) s) p) else Some p)"

definition put_string :: "'o out \<Rightarrow> ('o \<Rightarrow> mem) \<Rightarrow> u64 \<Rightarrow> conv \<Rightarrow> 'o \<times> u64 \<Rightarrow> ('o \<times> u64) option" where
  "put_string out view s q p =
     Option.bind (strnlen_s (view (fst p)) s (if cprec q \<noteq> 0 then ucast (cprec q) else - 1) s) (\<lambda>l.
       let limited = has (cflags q) FLAGS_PRECISION; left = has (cflags q) FLAGS_LEFT;
           l = (if limited then min l (cprec q) else l); pad = replicate (unat (cwidth q) - unat l) 32
       in map_option (\<lambda>p. if left then put_all out pad p else p)
            (put_chars out view limited s (cprec q) (if left then p else put_all out pad p)))"

definition convert ::
  "'o out \<Rightarrow> ('o \<Rightarrow> mem) \<Rightarrow> fpu \<Rightarrow> (nat \<Rightarrow> u64) \<Rightarrow> conv \<Rightarrow> 'o \<times> u64 \<Rightarrow> (('o \<times> u64) \<times> nat) option" where
  "convert out view fp args q p =
     (let c = view (fst p) (fmt q); raw = args (carg q); k = carg q + 1 in
      if c \<in> {100, 105, 117, 120, 88, 111, 98} then Some (put_int out c raw q p, k)
      else if c \<in> {102, 70} then
        map_option (\<lambda>p. (p, k)) (ftoa fp out raw (cprec q) (cwidth q) (if c = 70 then cflags q OR FLAGS_UPPERCASE else cflags q) p)
      else if c \<in> {101, 69, 103, 71} then
        let flags = (if c = 103 \<or> c = 71 then cflags q OR FLAGS_ADAPT_EXP else cflags q);
            flags = (if c = 69 \<or> c = 71 then flags OR FLAGS_UPPERCASE else flags)
        in map_option (\<lambda>p. (p, k)) (etoa fp out raw (cprec q) (cwidth q) flags p)
      else if c = 99 then Some (put_char out (ucast raw) q p, k)
      else if c = 115 then map_option (\<lambda>p. (p, k)) (put_string out view raw q p)
      else if c = 112 then Some (ntoa_long_long out raw False 16 (cprec q) 16 (cflags q OR (FLAGS_ZEROPAD OR FLAGS_UPPERCASE)) p, k)
      else if c = 37 then Some (put out 37 p, carg q)
      else Some (put out c p, carg q))"

section \<open>The functions\<close>

partial_function (option) format_loop ::
  "'o out \<Rightarrow> ('o \<Rightarrow> mem) \<Rightarrow> fpu \<Rightarrow> (nat \<Rightarrow> u64) \<Rightarrow> u64 \<Rightarrow> nat \<Rightarrow> 'o \<times> u64 \<Rightarrow> ('o \<times> u64) option" where
  "format_loop out view fp args f k p =
     (let m = view (fst p) in
      if m f = 0 then Some p
      else if m f \<noteq> 37 then format_loop out view fp args (f + 1) k (put out (m f) p)
      else
        Option.bind (parse_conv m args (f + 1) k) (\<lambda>q.
        Option.bind (convert out view fp args q p) (\<lambda>pk.
          format_loop out view fp args (fmt q + 1) (snd pk) (fst pk))))"

definition vsnprintf :: "'o out \<Rightarrow> ('o \<Rightarrow> mem) \<Rightarrow> fpu \<Rightarrow> (nat \<Rightarrow> u64) \<Rightarrow> u64 \<Rightarrow> u64 \<Rightarrow> u64 \<Rightarrow> 'o \<Rightarrow> ('o \<times> u32) option" where
  "vsnprintf out view fp args dst maxlen f s =
     (let out = (if dst = NULL then out_null else out) in
      map_option (\<lambda>(s, idx). (out 0 (if idx < maxlen then idx else maxlen - 1) s, ucast idx))
        (format_loop out view fp args f 0 (s, 0)))"

definition snprintf :: "fpu \<Rightarrow> (nat \<Rightarrow> u64) \<Rightarrow> mem \<Rightarrow> u64 \<Rightarrow> u64 \<Rightarrow> u64 \<Rightarrow> (mem \<times> u32) option" where
  "snprintf fp args m dst maxlen f = vsnprintf (out_buffer dst maxlen) (\<lambda>m. m) fp args dst maxlen f m"

definition sprintf :: "fpu \<Rightarrow> (nat \<Rightarrow> u64) \<Rightarrow> mem \<Rightarrow> u64 \<Rightarrow> u64 \<Rightarrow> (mem \<times> u32) option" where
  "sprintf fp args m dst f = vsnprintf (out_buffer dst (- 1)) (\<lambda>m. m) fp args dst (- 1) f m"

text \<open>\<open>printf\<close> passes a local array of one character, which its output function does not use.\<close>

definition console_mem :: "(('f, 'a) kern_scheme, unit) outcome \<Rightarrow> mem" where
  "console_mem r = (case r of Ret s _ \<Rightarrow> mem (hw (mm s)) | _ \<Rightarrow> (\<lambda>_. 0))"

definition kernel_printf ::
  "'f firmware \<Rightarrow> fpu \<Rightarrow> (nat \<Rightarrow> u64) \<Rightarrow> u64 \<Rightarrow> u64 \<Rightarrow> ('f, 'a) kern_scheme \<Rightarrow> ((('f, 'a) kern_scheme, unit) outcome \<times> u32) option" where
  "kernel_printf F fp args local f s = vsnprintf (out_char F) console_mem fp args local (- 1) f (Ret s ())"

definition fctprintf :: "(u8 \<Rightarrow> 'o \<Rightarrow> 'o) \<Rightarrow> ('o \<Rightarrow> mem) \<Rightarrow> fpu \<Rightarrow> (nat \<Rightarrow> u64) \<Rightarrow> u64 \<Rightarrow> u64 \<Rightarrow> 'o \<Rightarrow> ('o \<times> u32) option" where
  "fctprintf fct view fp args wrap f s = vsnprintf (out_fct fct) view fp args wrap (- 1) f s"

definition vprintf ::
  "'f firmware \<Rightarrow> fpu \<Rightarrow> u64 \<Rightarrow> u64 \<Rightarrow> (nat \<Rightarrow> u64) \<Rightarrow> ('f, 'a) kern_scheme \<Rightarrow> ((('f, 'a) kern_scheme, unit) outcome \<times> u32) option" where
  "vprintf F fp local f va s = vsnprintf (out_char F) console_mem fp va local (- 1) f (Ret s ())"

definition vsnprintf_to :: "fpu \<Rightarrow> mem \<Rightarrow> u64 \<Rightarrow> u64 \<Rightarrow> u64 \<Rightarrow> (nat \<Rightarrow> u64) \<Rightarrow> (mem \<times> u32) option" where
  "vsnprintf_to fp m dst maxlen f va = vsnprintf (out_buffer dst maxlen) (\<lambda>m. m) fp va dst maxlen f m"

text \<open>
  The firmware's copy writes to the serial port itself. The memory it reads is an argument: its output changes none.
  A wait for the port without end is the state \<open>None\<close>.
\<close>

definition uart_char :: "device \<Rightarrow> 'a world_scheme option out" where
  "uart_char dev c idx r = (if c \<noteq> 0 then Option.bind r (\<lambda>s. uart_put dev s c) else r)"

definition firmware_printf ::
  "device \<Rightarrow> fpu \<Rightarrow> (nat \<Rightarrow> u64) \<Rightarrow> u64 \<Rightarrow> u64 \<Rightarrow> mem \<Rightarrow> 'a world_scheme \<Rightarrow> ('a world_scheme option \<times> u32) option" where
  "firmware_printf dev fp args local f m s = vsnprintf (uart_char dev) (\<lambda>_. m) fp args local (- 1) f (Some s)"

section \<open>Lemmas: the same text through two output functions\<close>

lemma put_int_both: "related rel out view out' view' \<Longrightarrow> both rel p q \<Longrightarrow> both rel (put_int out c v n p) (put_int out' c v n q)"
  by (simp add: put_int_def Let_def split_def ntoa_both)

lemma put_char_both: "related rel out view out' view' \<Longrightarrow> both rel p q \<Longrightarrow> both rel (put_char out c n p) (put_char out' c n q)"
  by (auto simp: put_char_def Let_def intro!: put_both put_all_both)

lemma put_chars_both:
  assumes "put_chars out view limited a prec p = Some p'" "related rel out view out' view'" "both rel p q"
  shows "\<exists>q'. put_chars out' view' limited a prec q = Some q' \<and> both rel p' q'"
proof -
  let ?P = "\<lambda>out view limited a prec p p'. \<forall>q. related rel out view out' view' \<longrightarrow> both rel p q \<longrightarrow>
      (\<exists>q'. put_chars out' view' limited a prec q = Some q' \<and> both rel p' q')"
  have "?P out view limited a prec p p'"
  proof (rule put_chars.raw_induct [where P = ?P, OF _ assms(1)])
    fix f out view limited a prec p p'
    assume IH: "\<And>out view limited a prec p p'. f out view limited a prec p = Some p' \<Longrightarrow> ?P out view limited a prec p p'"
      and body: "(if view (fst p) a \<noteq> 0 \<and> (\<not> limited \<or> prec \<noteq> 0)
        then f out view limited (a + 1) (prec - 1) (put out (view (fst p) a) p) else Some p) = Some p'"
    show "?P out view limited a prec p p'"
    proof (intro allI impI)
      fix q
      assume r: "related rel out view out' view'" "both rel p q"
      note v = related_view [OF r]
      show "\<exists>q'. put_chars out' view' limited a prec q = Some q' \<and> both rel p' q'"
      proof (cases "view (fst p) a \<noteq> 0 \<and> (\<not> limited \<or> prec \<noteq> 0)")
        case True
        then have "f out view limited (a + 1) (prec - 1) (put out (view (fst p) a) p) = Some p'" using body by simp
        from IH [OF this] put_both [OF r, of "view (fst p) a"] r(1)
        obtain q' where "put_chars out' view' limited (a + 1) (prec - 1) (put out' (view (fst p) a) q) = Some q'" "both rel p' q'" by blast
        then show ?thesis using True v by (subst put_chars.simps) simp
      next
        case False
        have "p = p'" using body unfolding if_not_P [OF False] by simp
        moreover have "put_chars out' view' limited a prec q = Some q"
          using False v by (subst put_chars.simps) (rule if_not_P, simp)
        ultimately show ?thesis using r(2) by blast
      qed
    qed
  qed
  then show ?thesis using assms(2,3) by blast
qed

lemma put_string_both:
  assumes "put_string out view a n p = Some p'" "related rel out view out' view'" "both rel p q"
  shows "\<exists>q'. put_string out' view' a n q = Some q' \<and> both rel p' q'"
proof -
  let ?limited = "has (cflags n) FLAGS_PRECISION" and ?left = "has (cflags n) FLAGS_LEFT"
  obtain l where l: "strnlen_s (view (fst p)) a (if cprec n \<noteq> 0 then ucast (cprec n) else - 1) a = Some l"
    using assms(1) by (auto simp: put_string_def bind_eq_Some_conv)
  let ?pad = "replicate (unat (cwidth n) - unat (if ?limited then min l (cprec n) else l)) (32 :: u8)"
  obtain p1 where p1: "put_chars out view ?limited a (cprec n) (if ?left then p else put_all out ?pad p) = Some p1"
    "p' = (if ?left then put_all out ?pad p1 else p1)"
    using assms(1) l by (auto simp: put_string_def Let_def)
  have "both rel (if ?left then p else put_all out ?pad p) (if ?left then q else put_all out' ?pad q)"
    using put_all_both [OF assms(2,3)] assms(3) by simp
  from put_chars_both [OF p1(1) assms(2) this] obtain q1 where
    q1: "put_chars out' view' ?limited a (cprec n) (if ?left then q else put_all out' ?pad q) = Some q1" "both rel p1 q1" by blast
  have "put_string out' view' a n q = Some (if ?left then put_all out' ?pad q1 else q1)"
    using l q1(1) related_view [OF assms(2,3)] by (simp add: put_string_def Let_def)
  then show ?thesis using p1(2) q1(2) put_all_both [OF assms(2) q1(2)] by simp
qed

definition follows :: "(u64 \<Rightarrow> 's \<Rightarrow> 't \<Rightarrow> bool) \<Rightarrow> (('s \<times> u64) \<times> nat) option \<Rightarrow> (('t \<times> u64) \<times> nat) option \<Rightarrow> bool" where
  "follows rel x y \<longleftrightarrow> (\<forall>p k. x = Some (p, k) \<longrightarrow> (\<exists>q. y = Some (q, k) \<and> both rel p q))"

lemma follows_if: "(b \<Longrightarrow> follows rel x y) \<Longrightarrow> (\<not> b \<Longrightarrow> follows rel x' y') \<Longrightarrow> follows rel (if b then x else x') (if b then y else y')"
  by simp

lemma follows_some: "both rel p q \<Longrightarrow> follows rel (Some (p, k)) (Some (q, k))"
  by (simp add: follows_def)

lemma follows_string:
  assumes "related rel out view out' view'" "both rel p q"
  shows "follows rel (map_option (\<lambda>p. (p, k)) (put_string out view a n p)) (map_option (\<lambda>q. (q, k)) (put_string out' view' a n q))"
  using put_string_both [OF _ assms] by (fastforce simp: follows_def)

lemma follows_float:
  assumes "related rel out view out' view'" "both rel p q"
  shows "follows rel (map_option (\<lambda>p. (p, k)) (ftoa fp out v prec wid flags p)) (map_option (\<lambda>q. (q, k)) (ftoa fp out' v prec wid flags q))"
    "follows rel (map_option (\<lambda>p. (p, k)) (etoa fp out v prec wid flags p)) (map_option (\<lambda>q. (q, k)) (etoa fp out' v prec wid flags q))"
  using ftoa_both [OF _ assms] etoa_both [OF _ assms] by (fastforce simp: follows_def)+

lemma convert_both:
  assumes "convert out view fp args n p = Some (p', k)" "related rel out view out' view'" "both rel p q"
  shows "\<exists>q'. convert out' view' fp args n q = Some (q', k) \<and> both rel p' q'"
proof -
  have "follows rel (convert out view fp args n p) (convert out' view' fp args n q)"
    unfolding convert_def Let_def related_view [OF assms(2,3)]
    by (intro follows_if follows_some follows_string follows_float put_int_both put_all_both put_char_both ntoa_both(2) put_both) (rule assms)+
  then show ?thesis using assms(1) by (simp add: follows_def)
qed

lemma format_loop_both:
  assumes "format_loop out view fp args f k p = Some p'" "related rel out view out' view'" "both rel p q"
  shows "\<exists>q'. format_loop out' view' fp args f k q = Some q' \<and> both rel p' q'"
proof -
  let ?P = "\<lambda>out view fp args f k p p'. \<forall>q. related rel out view out' view' \<longrightarrow> both rel p q \<longrightarrow>
      (\<exists>q'. format_loop out' view' fp args f k q = Some q' \<and> both rel p' q')"
  have "?P out view fp args f k p p'"
  proof (rule format_loop.raw_induct [where P = ?P, OF _ assms(1)])
    fix g out view fp args f k p p'
    assume IH: "\<And>out view fp args f k p p'. g out view fp args f k p = Some p' \<Longrightarrow> ?P out view fp args f k p p'"
      and body: "(let m = view (fst p) in
        if m f = 0 then Some p
        else if m f \<noteq> 37 then g out view fp args (f + 1) k (put out (m f) p)
        else Option.bind (parse_conv m args (f + 1) k) (\<lambda>n. Option.bind (convert out view fp args n p) (\<lambda>pk.
          g out view fp args (fmt n + 1) (snd pk) (fst pk)))) = Some p'"
    show "?P out view fp args f k p p'"
    proof (intro allI impI)
      fix q
      assume r: "related rel out view out' view'" "both rel p q"
      note v = related_view [OF r]
      consider "view (fst p) f = 0" | "view (fst p) f \<noteq> 0" "view (fst p) f \<noteq> 37" | "view (fst p) f = 37" by metis
      then show "\<exists>q'. format_loop out' view' fp args f k q = Some q' \<and> both rel p' q'"
      proof cases
        case 1
        then show ?thesis using body r(2) v by (subst format_loop.simps) (simp add: Let_def)
      next
        case 2
        then have "g out view fp args (f + 1) k (put out (view (fst p) f) p) = Some p'" using body by (simp add: Let_def)
        from IH [OF this] put_both [OF r, of "view (fst p) f"] r(1)
        obtain q' where "format_loop out' view' fp args (f + 1) k (put out' (view (fst p) f) q) = Some q'" "both rel p' q'" by blast
        then show ?thesis using 2 v by (subst format_loop.simps) (simp add: Let_def)
      next
        case 3
        obtain n p1 k1 where n: "parse_conv (view (fst p)) args (f + 1) k = Some n" "convert out view fp args n p = Some (p1, k1)"
          "g out view fp args (fmt n + 1) k1 p1 = Some p'"
          using body 3 by (auto simp: Let_def bind_eq_Some_conv)
        from convert_both [OF n(2) r] obtain q1 where q1: "convert out' view' fp args n q = Some (q1, k1)" "both rel p1 q1" by blast
        from IH [OF n(3)] q1(2) r(1)
        obtain q' where "format_loop out' view' fp args (fmt n + 1) k1 q1 = Some q'" "both rel p' q'" by blast
        then show ?thesis using 3 v n(1) q1(1) by (subst format_loop.simps) (simp add: Let_def)
      qed
    qed
  qed
  then show ?thesis using assms(2,3) by blast
qed

lemma related_sym: "related rel out view out' view' \<Longrightarrow> related (\<lambda>i t s. rel i s t) out' view' out view"
  by (auto simp: related_def)

text \<open>So the two run alike: both end with states in the relation at the same position, or neither ends.\<close>

lemma format_loop_alike:
  assumes "related rel out view out' view'" "both rel p q"
  shows "rel_option (both rel) (format_loop out view fp args f k p) (format_loop out' view' fp args f k q)"
proof -
  have q: "both (\<lambda>i t s. rel i s t) q p" using assms(2) unfolding both_def by metis
  show ?thesis
    using format_loop_both [OF _ assms] format_loop_both [OF _ related_sym [OF assms(1)] q]
    by (cases "format_loop out view fp args f k p"; cases "format_loop out' view' fp args f k q") fastforce+
qed

text \<open>In particular a property the output function keeps is kept by all that is put through it.\<close>

definition kept :: "('o \<Rightarrow> bool) \<Rightarrow> 'o out \<Rightarrow> bool" where
  "kept P out \<longleftrightarrow> (\<forall>c i s. P s \<longrightarrow> P (out c i s))"

lemma keptD: "kept P out \<Longrightarrow> P s \<Longrightarrow> P (out c i s)"
  by (simp add: kept_def)

lemma kept_related: "kept P out \<Longrightarrow> related (\<lambda>i s t. s = t \<and> P s) out view out view"
  by (auto simp: kept_def related_def)

lemma put_all_kept: "kept P out \<Longrightarrow> P (fst p) \<Longrightarrow> P (fst (put_all out xs p))"
  using put_all_both [OF kept_related, of P out p p xs] by (simp add: both_def)

lemma format_loop_kept: "format_loop out view fp args f k p = Some p' \<Longrightarrow> kept P out \<Longrightarrow> P (fst p) \<Longrightarrow> P (fst p')"
  using format_loop_both [OF _ kept_related, of out view fp args f k p p' P p] by (auto simp: both_def)

section \<open>Lemmas: numbers\<close>

lemma split_ten: "unat v = unat (v div 10) * 10 + unat (v mod 10)" "unat (v mod 10) < 10" for v :: u64
  by (simp_all add: unat_div_distrib unat_mod_distrib)

lemma digit_value: "unat d < 10 \<Longrightarrow> digit_char d up = of_nat (48 + unat d)"
  by (simp add: digit_char_def word_less_nat_alt)

lemma of_nat_digit:
  assumes "k < 10"
  shows "is_digit (of_nat (48 + k))" "(ucast (of_nat (48 + k) :: u8) - 48 :: u32) = of_nat k"
proof -
  have "\<forall>k \<in> set [0..<10]. is_digit (of_nat (48 + k)) \<and> (ucast (of_nat (48 + k) :: u8) - 48 :: u32) = of_nat k"
    by (simp add: upt_rec is_digit_def)
  then show "is_digit (of_nat (48 + k))" "(ucast (of_nat (48 + k) :: u8) - 48 :: u32) = of_nat k" using assms by auto
qed

lemma ntoa_decimal:
  "unat v < 10 ^ n \<Longrightarrow> 0 < n \<Longrightarrow>
     decimal (rev (ntoa_digits n v 10 up)) = of_nat (unat v) \<and> list_all is_digit (rev (ntoa_digits n v 10 up))
     \<and> ntoa_digits n v 10 up \<noteq> []"
proof (induction n arbitrary: v)
  case (Suc n)
  let ?d = "digit_char (v mod 10) up"
  have d: "is_digit ?d" "(ucast ?d - 48 :: u32) = of_nat (unat (v mod 10))"
    using of_nat_digit [OF split_ten(2) [of v]] digit_value [OF split_ten(2) [of v], of up] by simp_all
  show ?case
  proof (cases "v div 10 = 0")
    case True
    then have "unat v = unat (v mod 10)" using split_ten(1) [of v] by simp
    then show ?thesis using True d by simp
  next
    case False
    have lt: "unat (v div 10) < 10 ^ n" using Suc.prems(1) by (simp add: unat_div_distrib)
    have n: "0 < n" using lt False by (cases n) (simp_all add: unat_eq_0)
    have "(of_nat (unat v) :: u32) = of_nat (unat (v div 10)) * 10 + of_nat (unat (v mod 10))"
      by (subst split_ten(1)) (simp del: of_nat_unat)
    then show ?thesis using Suc.IH [OF lt n] False d by (simp add: decimal_snoc del: of_nat_unat)
  qed
qed simp

lemma ntoa_length: "length (ntoa_digits n v base up) \<le> n"
  by (induction n arbitrary: v) auto

lemma ntoa_short: "unat v < 10 ^ k \<Longrightarrow> 0 < k \<Longrightarrow> length (ntoa_digits n v 10 up) \<le> k"
proof (induction n arbitrary: v k)
  case (Suc n)
  show ?case
  proof (cases "v div 10 = 0")
    case False
    obtain k' where k: "k = Suc k'" using Suc.prems(2) by (cases k) auto
    have lt: "unat (v div 10) < 10 ^ k'" using Suc.prems(1) k by (simp add: unat_div_distrib)
    then have "0 < k'" using False by (cases k') (simp_all add: unat_eq_0)
    then show ?thesis using Suc.IH [OF lt] False k by simp
  qed (use Suc.prems in simp)
qed simp

section \<open>Lemmas: characters\<close>

lemma of_nat_below: "n < unat x \<Longrightarrow> (of_nat n :: u64) < x \<and> n < 2 ^ 64" for x :: u64
  using unsigned_less [of x, where 'a = nat] by (simp add: word_less_nat_alt unsigned_of_nat take_bit_nat_eq_self)

lemma put_all_buffer:
  "holds m dst line \<Longrightarrow> length line + length xs \<le> unat maxlen \<Longrightarrow>
     \<exists>m'. put_all (out_buffer dst maxlen) xs (m, of_nat (length line)) = (m', of_nat (length line + length xs))
       \<and> holds m' dst (line @ xs)"
proof (induction xs arbitrary: m line)
  case (Cons x xs)
  have ml: "unat maxlen < 2 ^ 64" using unsigned_less [of maxlen, where 'a = nat] by simp
  then have l: "(of_nat (length line) :: u64) < maxlen"
    using Cons.prems(2) by (simp add: word_less_nat_alt unsigned_of_nat take_bit_nat_eq_self)
  define m1 where "m1 = m(dst + of_nat (length line) := x)"
  have "holds m1 dst (line @ [x])" unfolding m1_def using Cons.prems ml by (intro holds_add) simp_all
  from Cons.IH [OF this] Cons.prems(2)
  have "\<exists>m'. put_all (out_buffer dst maxlen) xs (m1, of_nat (length line) + 1)
      = (m', of_nat (length line + length (x # xs))) \<and> holds m' dst (line @ x # xs)"
    by (simp add: add.commute)
  moreover have "put (out_buffer dst maxlen) x (m, of_nat (length line)) = (m1, of_nat (length line) + 1)"
    unfolding put_def out_buffer_def m1_def using l by simp
  ultimately show ?case by simp
qed simp

lemma plain_conv:
  "m f = 100 \<Longrightarrow> parse_conv m args f k = Some \<lparr>fmt = f, cflags = 0, cwidth = 0, cprec = 0, carg = k\<rparr>"
  by (simp add: parse_conv_def parse_flags.simps flag_of_def parse_width_def parse_precision_def parse_length_def is_digit_def Let_def)

text \<open>\<open>%d\<close> without flags, width or precision puts the digits of the absolute value, and a minus before a negative one.\<close>

lemma put_plain_int:
  "put_int out 100 v \<lparr>fmt = f, cflags = 0, cwidth = 0, cprec = 0, carg = k\<rparr> p =
     put_all out ((if snd (signed_arg 0 v) then [45] else []) @ rev (ntoa_digits 32 (fst (signed_arg 0 v)) 10 False)) p"
  if "length (ntoa_digits 32 (fst (signed_arg 0 v)) 10 False) < 32"
  using that
  by (cases "fst (signed_arg 0 v) = 0")
    (simp_all add: put_int_def ntoa_long_def ntoa_format_def out_rev_def zeros_def room_for_def has_def split_def Let_def)

text \<open>The text of an int, its value when it is read, and the call that leaves it in a buffer.\<close>

definition int_text :: "u32 \<Rightarrow> u8 list" where
  "int_text v = (if v <s 0 then [45] else []) @ rev (ntoa_digits 32 (ucast (if 0 <s v then v else - v)) 10 False)"

lemma magnitude: "unat (ucast (x :: u32) :: u64) = unat x" "unat (ucast (x :: u32) :: u64) < 10 ^ 10"
  using unsigned_less [of x, where 'a = nat] by (simp_all add: unsigned_ucast_eq take_bit_nat_eq_self)

lemma digits_short: "length (ntoa_digits 32 (ucast (x :: u32)) 10 False) \<le> 10"
  using ntoa_short [OF magnitude(2), of 32] by simp

lemma int_text_short: "length (int_text v) \<le> 11"
  by (auto simp: int_text_def intro: digits_short le_trans [OF digits_short])

lemma int_text_value: "cstring m s (int_text v) \<Longrightarrow> atoi m s = Some v"
proof -
  let ?w = "if 0 <s v then v else - v"
  assume c: "cstring m s (int_text v)"
  have "unat (ucast ?w :: u64) < 10 ^ 32" using magnitude(2) [of ?w] by simp
  note d = ntoa_decimal [OF this, of False, simplified]
  have "(of_nat (unat (ucast ?w :: u64)) :: u32) = ?w" unfolding magnitude(1) by simp
  moreover have "\<not> 0 <s v \<Longrightarrow> \<not> v <s 0 \<Longrightarrow> v = 0" by (simp add: word_sless_alt signed_word_eqI)
  ultimately have "(if v <s 0 then - decimal (rev (ntoa_digits 32 (ucast ?w) 10 False)) else decimal (rev (ntoa_digits 32 (ucast ?w) 10 False))) = v"
    using d by (auto simp: word_sless_alt)
  then show ?thesis
    using atoi_cstring [of m s "v <s 0"] c d digits_short [of ?w] by (auto simp: int_text_def)
qed

lemma int_text_chars: "0 \<notin> set (int_text v)"
proof -
  have "unat (ucast (if 0 <s v then v else - v) :: u64) < 10 ^ 32" using magnitude(2) [of "if 0 <s v then v else - v"] by simp
  from ntoa_decimal [OF this, of False] show ?thesis by (fastforce simp: int_text_def is_digit_def list_all_iff)
qed

lemma put_int_text:
  "put_int out 100 v \<lparr>fmt = f, cflags = 0, cwidth = 0, cprec = 0, carg = k\<rparr> p = put_all out (int_text (ucast v)) p"
proof -
  let ?v = "ucast v :: u32"
  have "signed_arg 0 v = (ucast (if 0 <s ?v then ?v else - ?v), ?v <s 0)" by (simp add: signed_arg_def has_def Let_def)
  then show ?thesis
    using put_plain_int [of v out f k p] digits_short [of "if 0 <s ?v then ?v else - ?v"] by (simp add: int_text_def)
qed

lemma snprintf_number:
  assumes "cstring m f (chars ''%d'')" "dst \<noteq> NULL" "12 \<le> maxlen" "maxlen \<le> f + 2 - dst"
  shows "\<exists>m' n. snprintf fp args m dst maxlen f = Some (m', n) \<and> cstring m' dst (int_text (ucast (args 0)))"
proof -
  let ?out = "out_buffer dst maxlen" and ?xs = "int_text (ucast (args 0))"
  have fm: "m f = 37" "m (f + 1) = 100" "m (f + 2) = 0" using assms(1) by (simp_all add: chars_def add.assoc)
  have room: "length ?xs < unat maxlen" using int_text_short [of "ucast (args 0)"] assms(3) by (simp add: word_le_nat_alt)
  obtain m1 where m1: "put_all ?out ?xs (m, 0) = (m1, of_nat (length ?xs))" "holds m1 dst ?xs"
    using put_all_buffer [of m dst "[]" ?xs maxlen] room by auto
  let ?P = "\<lambda>s. s (f + 2) = (0 :: u8)"
  have "f + 2 \<noteq> dst + i" if "i < maxlen" for i using assms(4) that by (auto simp: algebra_simps)
  then have "kept ?P ?out" by (auto simp: kept_def out_buffer_def)
  then have z: "m1 (f + 2) = 0" using put_all_kept [of ?P ?out "(m, 0)" ?xs] fm(3) m1(1) by simp
  have "format_loop ?out (\<lambda>m. m) fp args f 0 (m, 0) = Some (m1, of_nat (length ?xs))"
    using fm m1(1) z plain_conv [of m "f + 1" args 0] put_int_text [of ?out "args 0" "f + 1" 0 "(m, 0)"]
    by (subst format_loop.simps) (simp add: convert_def Let_def add.assoc format_loop.simps [of _ _ _ _ "f + 2"])
  moreover have ml: "(of_nat (length ?xs) :: u64) < maxlen" "length ?xs < 2 ^ 64"
    using of_nat_below [OF room] by simp_all
  moreover have "cstring (m1(dst + of_nat (length ?xs) := 0)) dst ?xs"
    by (rule holds_terminated) (use m1(2) ml int_text_chars in simp_all)
  ultimately show ?thesis using assms(2) by (simp add: snprintf_def vsnprintf_def out_buffer_def)
qed

text \<open>A percent sign at the end of a format: its zero is put out, and reading goes on behind it.\<close>

lemma percent_at_end:
  assumes "view (fst p) f = 37" "view (fst p) (f + 1) = 0"
  shows "format_loop out view fp args f k p = format_loop out view fp args (f + 2) k (put out 0 p)"
  using assms
  by (subst format_loop.simps)
    (simp add: parse_conv_def parse_flags.simps flag_of_def parse_width_def parse_precision_def parse_length_def is_digit_def
      convert_def Let_def add.assoc)

text \<open>The text of a format: what an output function that only collects characters is given.\<close>

definition out_list :: "(mem \<times> u8 list) out" where
  "out_list c idx = (\<lambda>(m, xs). (m, xs @ [c]))"

definition formatted :: "fpu \<Rightarrow> (nat \<Rightarrow> u64) \<Rightarrow> mem \<Rightarrow> u64 \<Rightarrow> u8 list option" where
  "formatted fp args m f = map_option (\<lambda>p. snd (fst p)) (format_loop out_list fst fp args f 0 ((m, []), 0))"

definition on_console :: "(sbi, 'a) kern_scheme \<Rightarrow> u64 \<Rightarrow> mem \<times> u8 list \<Rightarrow> ((sbi, 'a) kern_scheme, unit) outcome \<Rightarrow> bool" where
  "on_console s i = (\<lambda>(m, xs) r. m = mem (hw (mm s)) \<and> i = of_nat (length xs) \<and>
     (\<exists>g. r = Ret (s\<lparr>fw := g\<rparr>) () \<and> written g = written (fw s) @ map (\<lambda>c. W 1 UART (ucast c)) (filter (\<lambda>c. c \<noteq> 0) xs)))"

lemma console_related:
  assumes "ready_port uart"
  shows "related (on_console s) out_list fst (out_char (sbi_firmware uart me)) console_mem"
  unfolding related_def
proof (intro allI impI, goal_cases)
  case (1 i l r)
  then obtain xs g where x: "l = (mem (hw (mm s)), xs)" "r = Ret (s\<lparr>fw := g\<rparr>) ()" "i = of_nat (length xs)"
    "written g = written (fw s) @ map (\<lambda>c. W 1 UART (ucast c)) (filter (\<lambda>c. c \<noteq> 0) xs)"
    by (auto simp: on_console_def)
  have "on_console s (i + 1) (out_list c i l) (out_char (sbi_firmware uart me) c i r)" for c
    using x putchar_call [OF assms, of me "s\<lparr>fw := g\<rparr>" c] by (auto simp: on_console_def out_list_def out_char_def)
  then show ?case using x(1,2) by (simp add: console_mem_def)
qed

text \<open>The kernel's console and the firmware's, with the same bytes written since \<open>s\<close> and \<open>t\<close>.\<close>

definition on_both :: "(sbi, 'a) kern_scheme \<Rightarrow> 'b world_scheme \<Rightarrow> u64 \<Rightarrow> ((sbi, 'a) kern_scheme, unit) outcome \<Rightarrow> 'b world_scheme option \<Rightarrow> bool" where
  "on_both s t i r r' \<longleftrightarrow>
     (\<exists>g t' ws. r = Ret (s\<lparr>fw := g\<rparr>) () \<and> r' = Some t' \<and> written g = written (fw s) @ ws \<and> written t' = written t @ ws)"

lemma both_related:
  assumes "ready_port uart"
  shows "related (on_both s t) (out_char (sbi_firmware uart me)) console_mem (uart_char uart) (\<lambda>_. mem (hw (mm s)))"
  unfolding related_def
proof (intro allI impI, goal_cases)
  case (1 i r r')
  then obtain g t' ws where x: "r = Ret (s\<lparr>fw := g\<rparr>) ()" "r' = Some t'" "written g = written (fw s) @ ws" "written t' = written t @ ws"
    by (auto simp: on_both_def)
  have "on_both s t (i + 1) (out_char (sbi_firmware uart me) c i r) (uart_char uart c i r')" for c
    using x putchar_call [OF assms, of me "s\<lparr>fw := g\<rparr>" c] uart_put_ready [OF assms, of t' c]
    by (auto simp: on_both_def out_char_def uart_char_def)
  then show ?case using x(1) by (simp add: console_mem_def)
qed

lemma low_half: "(ucast (of_nat n :: u64) :: u32) = of_nat n"
  by (rule bit_word_eqI) (simp add: bit_simps)

section \<open>Properties\<close>

text \<open>
  C12. Formatting into a buffer stays in the buffer. Whatever the format, the arguments and the memory are, no byte
  outside the \<open>maxlen\<close> bytes of the buffer changes, and when there is room for it the text ends with a zero inside
  the buffer.
\<close>

theorem snprintf_in_bounds:
  "case snprintf fp args m dst maxlen f of
     None \<Rightarrow> True
   | Some (m', n) \<Rightarrow>
       {a. m' a \<noteq> m a} \<subseteq> {a. a - dst < maxlen} \<and> (if maxlen = 0 \<or> dst = NULL then m' = m else \<exists>k. k < maxlen \<and> m' (dst + k) = 0)"
proof (cases "snprintf fp args m dst maxlen f")
  case (Some r)
  let ?out = "if dst = NULL then out_null else out_buffer dst maxlen"
  let ?P = "\<lambda>s. {a. s a \<noteq> m a} \<subseteq> {a. a - dst < maxlen} \<and> (maxlen = 0 \<or> dst = NULL \<longrightarrow> s = m)"
  have k: "kept ?P ?out" by (auto simp: kept_def out_null_def out_buffer_def)
  obtain s idx where l: "format_loop ?out (\<lambda>m. m) fp args f 0 (m, 0) = Some (s, idx)"
    and r: "r = (?out 0 (if idx < maxlen then idx else maxlen - 1) s, ucast idx)"
    using Some by (auto simp: snprintf_def vsnprintf_def Let_def)
  have "?P (fst (s, idx))" by (rule format_loop_kept [OF l k]) simp
  then have "?P (fst r)" unfolding r fst_conv by (rule keptD [OF k])
  moreover have "\<exists>k. k < maxlen \<and> fst r (dst + k) = 0" if "maxlen \<noteq> 0" "dst \<noteq> NULL"
  proof -
    have "unat maxlen \<noteq> 0" using that(1) by (simp add: unat_0_iff)
    then have "(if idx < maxlen then idx else maxlen - 1) < maxlen" using that(1) by (simp add: word_less_nat_alt unat_minus_one)
    then show ?thesis unfolding r using that(2) by (intro exI [of _ "if idx < maxlen then idx else maxlen - 1"]) (simp add: out_buffer_def)
  qed
  ultimately show ?thesis using Some by (cases r) auto
qed simp



text \<open>
  C10. What the kernel prints is what it formats. The text of a format and its arguments is defined without any device, by
  collecting characters; \<open>printf\<close> through the firmware sends exactly this text, its zeros left out, byte by byte
  to the serial port in order, answers its length, and changes nothing of the kernel. It comes to no end exactly when the
  text has none.
\<close>

theorem printf_reaches_port:
  assumes "ready_port uart" "local \<noteq> NULL"
  shows "case formatted fp args (mem (hw (mm s))) f of
      None \<Rightarrow> kernel_printf (sbi_firmware uart me) fp args local f s = None
    | Some xs \<Rightarrow> \<exists>g. kernel_printf (sbi_firmware uart me) fp args local f s = Some (Ret (s\<lparr>fw := g\<rparr>) (), of_nat (length xs))
        \<and> written g = written (fw s) @ map (\<lambda>c. W 1 UART (ucast c)) (filter (\<lambda>c. c \<noteq> 0) xs)"
proof -
  let ?m = "mem (hw (mm s))"
  have "both (on_console s) ((?m, []), 0) (Ret s (), 0)" by (auto simp: both_def on_console_def intro!: exI [of _ "fw s"])
  from format_loop_alike [OF console_related [OF assms(1)] this, of fp args f 0 me] assms(2)
  show ?thesis
    by (auto simp: formatted_def kernel_printf_def vsnprintf_def out_char_def both_def on_console_def split_def low_half
        elim!: option.rel_cases)
qed

definition demo_text :: "sbi kern" where
  "demo_text = demo_kern\<lparr>mm := (mm demo_kern)\<lparr>hw := (hw (mm demo_kern))\<lparr>mem := (\<lambda>_. 0)(0x100 := 104, 0x101 := 105)\<rparr>\<rparr>\<rparr>"

lemma printf_reaches_port_witness:
  "\<exists>g. kernel_printf (sbi_firmware (\<lambda>_ _ _. 0x60) 0) demo_fpu (\<lambda>_. 0) 0x7000 0x100 demo_text = Some (Ret (demo_text\<lparr>fw := g\<rparr>) (), 2)
     \<and> written g = [W 1 UART 104, W 1 UART 105]"
proof -
  have "formatted demo_fpu (\<lambda>_. 0) (mem (hw (mm demo_text))) 0x100 = Some [104, 105]"
    by (simp add: formatted_def demo_text_def format_loop.simps put_def out_list_def Let_def)
  moreover have "ready_port (\<lambda>_ _ _. 0x60)" by (simp add: ready_port_def)
  moreover have "fw demo_text = demo_sbi" by (simp add: demo_text_def)
  ultimately show ?thesis
    using printf_reaches_port [of "\<lambda>_ _ _. 0x60" "0x7000" 0 demo_fpu "\<lambda>_. 0" "0x100" demo_text]
    by (simp add: written_def demo_sbi_def)
qed

text \<open>
  The kernel's \<open>printf\<close>, which asks the firmware for every character, and the firmware's, which drives the port
  itself, are the same function to the outside: for the same format and arguments over the same memory both end or neither, answer
  the same length, and send the same bytes to the port.
\<close>

theorem two_printfs_agree:
  assumes "ready_port uart" "local \<noteq> NULL" "local' \<noteq> NULL"
  shows "case (kernel_printf (sbi_firmware uart me) fp args local f s, firmware_printf uart fp args local' f (mem (hw (mm s))) t) of
      (Some (r, n), Some (r', n')) \<Rightarrow> n = n' \<and> (\<exists>g t' ws. r = Ret (s\<lparr>fw := g\<rparr>) () \<and> r' = Some t'
        \<and> written g = written (fw s) @ ws \<and> written t' = written t @ ws)
    | (None, None) \<Rightarrow> True
    | _ \<Rightarrow> False"
proof -
  have "both (on_both s t) (Ret s (), 0) (Some t, 0)" by (auto simp: both_def on_both_def intro!: exI [of _ "fw s"])
  from format_loop_alike [OF both_related [OF assms(1)] this, of me fp args f 0] assms(2,3)
  show ?thesis
    by (auto simp: kernel_printf_def firmware_printf_def vsnprintf_def out_char_def uart_char_def both_def on_both_def split_def
        elim!: option.rel_cases)
qed

lemma two_printfs_agree_witness:
  "case (kernel_printf (sbi_firmware (\<lambda>_ _ _. 0x60) 0) demo_fpu (\<lambda>_. 0) 0x7000 0x100 demo_text,
         firmware_printf (\<lambda>_ _ _. 0x60) demo_fpu (\<lambda>_. 0) 0x7000 0x100 (mem (hw (mm demo_text))) demo_sbi) of
      (Some (r, n), Some (r', n')) \<Rightarrow> n = n' \<and> (\<exists>g t' ws. r = Ret (demo_text\<lparr>fw := g\<rparr>) () \<and> r' = Some t'
        \<and> written g = written (fw demo_text) @ ws \<and> written t' = written demo_sbi @ ws)
    | (None, None) \<Rightarrow> True
    | _ \<Rightarrow> False"
proof -
  have "ready_port (\<lambda>_ _ _. 0x60)" by (simp add: ready_port_def)
  from two_printfs_agree [OF this, where local = "0x7000" and local' = "0x7000" and s = demo_text and t = demo_sbi] show ?thesis by simp
qed

end
