(* ===== verification/Machine.thy ===== *)
theory Machine
  imports Trap UserConsole Printf
begin

unbundle bit_operations_syntax

text \<open>
  The user programs on the kernel on the firmware. UserConsole takes the kernel as a function of the call; here that
  function is the kernel's trap handler of Trap, entered as asm/spawn.S enters it, over the firmware of SbiHarts. The
  library's \<open>printf\<close> (src/user/libc/printf.c) is the kernel's with another \<open>_putchar\<close>.
\<close>

section \<open>The system calls\<close>

text \<open>
  An \<open>ecall\<close> of a process: the hart records the cause and the address of the instruction, \<open>site\<close> of the call number,
  and the trap vector saves the registers in the frame at \<open>sscratch\<close>. Registers that are not arguments keep what they
  held. On return the program finds the saved \<open>a0\<close> in its own. No call that exists writes the program's memory.
\<close>

definition call_in :: "(u64 \<Rightarrow> u64) \<Rightarrow> u64 \<Rightarrow> u64 list \<Rightarrow> ('f, 'a) osk_scheme \<Rightarrow> ('f, 'a) osk_scheme" where
  "call_in site a7 args k =
     upd_p (scsrs k sscratch)
       (\<lambda>q. q\<lparr>frame := (frame q)\<lparr>gpregs := (\<lambda>i. if i = XREG_A7 then a7
          else if XREG_A0 \<le> i \<and> i < XREG_A0 + length args then args ! (i - XREG_A0) else gpregs (frame q) i)\<rparr>\<rparr>)
       (SCSR_WRITE (SCSR_WRITE k scause 8) sepc (site a7))"

definition user_calls ::
  "device \<Rightarrow> 'f firmware \<Rightarrow> (u64 \<Rightarrow> rbnode) \<Rightarrow> (u64 \<Rightarrow> u64) \<Rightarrow> (('f, 'a) osk_scheme) syscalls" where
  "user_calls dev F node_at site a7 args u =
     (case os_c_trap_handler dev F node_at (call_in site a7 args (kern_st u)) of
        Ret k _ \<Rightarrow> Ret (u\<lparr>kern_st := k\<rparr>) (XREG k (scsrs k sscratch) XREG_A0)
      | Jump k \<Rightarrow> Jump (u\<lparr>kern_st := k\<rparr>)
      | Hang \<Rightarrow> Hang
      | Undef \<Rightarrow> Undef)"

section \<open>The library's printf\<close>

definition user_char :: "'k syscalls \<Rightarrow> ('k prog, unit) outcome out" where
  "user_char K c idx r = (if c \<noteq> 0 then and_then r (\<lambda>s _. user_putchar K s c) else r)"

definition prog_mem :: "('k prog, unit) outcome \<Rightarrow> mem" where
  "prog_mem r = (case r of Ret s _ \<Rightarrow> umem s | _ \<Rightarrow> (\<lambda>_. 0))"

definition user_printf ::
  "'k syscalls \<Rightarrow> fpu \<Rightarrow> (nat \<Rightarrow> u64) \<Rightarrow> u64 \<Rightarrow> u64 \<Rightarrow> 'k prog \<Rightarrow> (('k prog, unit) outcome \<times> u32) option" where
  "user_printf K fp args local f s = vsnprintf (user_char K) prog_mem fp args local (- 1) f (Ret s ())"

section \<open>Lemmas: printing on any kernel\<close>

context console_kernel begin

definition printing :: "'k prog \<Rightarrow> u64 \<Rightarrow> mem \<times> u8 list \<Rightarrow> ('k prog, unit) outcome \<Rightarrow> bool" where
  "printing s i = (\<lambda>(m, xs) r. m = umem s \<and> i = of_nat (length xs) \<and>
     (\<exists>k. r = Ret (s\<lparr>kern_st := k\<rparr>) () \<and> ready k \<and> input k = input (kern_st s)
       \<and> echoed k = echoed (kern_st s) @ filter (\<lambda>c. c \<noteq> 0) xs))"

lemma printing_related: "related (printing s) out_list fst (user_char K) prog_mem"
  unfolding related_def
proof (intro allI impI, goal_cases)
  case (1 i l r)
  then obtain xs k where x: "l = (umem s, xs)" "r = Ret (s\<lparr>kern_st := k\<rparr>) ()" "i = of_nat (length xs)" "ready k"
    "input k = input (kern_st s)" "echoed k = echoed (kern_st s) @ filter (\<lambda>c. c \<noteq> 0) xs"
    by (auto simp: printing_def)
  have "printing s (i + 1) (out_list c i l) (user_char K c i r)" for c
    using x putchar [of "s\<lparr>kern_st := k\<rparr>" c] by (auto simp: printing_def out_list_def user_char_def)
  then show ?case using x(1,2) by (simp add: prog_mem_def)
qed

lemma printf_echoes:
  assumes "ready (kern_st s)" "local \<noteq> NULL"
  shows "case formatted fp args (umem s) f of
      None \<Rightarrow> user_printf K fp args local f s = None
    | Some xs \<Rightarrow> \<exists>k. user_printf K fp args local f s = Some (Ret (s\<lparr>kern_st := k\<rparr>) (), of_nat (length xs))
        \<and> ready k \<and> input k = input (kern_st s) \<and> echoed k = echoed (kern_st s) @ filter (\<lambda>c. c \<noteq> 0) xs"
proof -
  have "both (printing s) ((umem s, []), 0) (Ret s (), 0)"
    using assms(1) by (auto simp: both_def printing_def intro!: exI [of _ "kern_st s"])
  from format_loop_alike [OF printing_related this, of fp args f 0] assms(2)
  show ?thesis
    by (auto simp: formatted_def user_printf_def vsnprintf_def user_char_def both_def printing_def split_def low_half
        elim!: option.rel_cases)
qed

end

section \<open>Lemmas: the kernel of this development\<close>

lemma call_in_fields [simp]:
  "scsrs (call_in site a7 args k) scause = 8" "scsrs (call_in site a7 args k) sscratch = scsrs k sscratch"
  "fw (call_in site a7 args k) = fw k" "XREG (call_in site a7 args k) (scsrs k sscratch) XREG_A7 = a7"
  "XREG (call_in site a7 [x] k) (scsrs k sscratch) XREG_A0 = x"
  by (simp_all add: call_in_def upd_p_def SCSR_WRITE_def XREG_def)

text \<open>The bytes sent to the serial port, and the state in which the console works.\<close>

definition port_bytes :: "io list \<Rightarrow> u8 list" where
  "port_bytes ws = concat (map (\<lambda>e. case e of W n a v \<Rightarrow> if n = 1 \<and> a = UART then [ucast v] else [] | _ \<Rightarrow> []) ws)"

definition port_text :: "(sbi, 'a) osk_scheme \<Rightarrow> u8 list" where
  "port_text k = port_bytes (written (fw k))"

definition console_ready :: "device \<Rightarrow> (sbi, 'a) osk_scheme \<Rightarrow> bool" where
  "console_ready uart k \<longleftrightarrow> ready_port uart \<and> con_ok (con (fw k))"

definition ring_text :: "(sbi, 'a) osk_scheme \<Rightarrow> u8 list" where
  "ring_text k = con_elems (con (fw k))"

lemma putchar_user:
  assumes "console_ready uart (kern_st s)"
  shows "\<exists>k v. user_calls dev (sbi_firmware uart me) node_at site 1 [ucast (c :: u8)] s = Ret (s\<lparr>kern_st := k\<rparr>) v
    \<and> console_ready uart k \<and> ring_text k = ring_text (kern_st s) \<and> port_text k = port_text (kern_st s) @ [c]"
proof -
  let ?k = "call_in site 1 [ucast c] (kern_st s)"
  obtain g where "os_c_trap_handler dev (sbi_firmware uart me) node_at ?k = Ret (SCSR_WRITE (?k\<lparr>fw := g\<rparr>) sepc (scsrs ?k sepc + 4)) ()"
    "con g = con (fw (kern_st s))" "written g = written (fw (kern_st s)) @ [W 1 UART (take_bit 8 (ucast c))]"
    using putchar_trap [of ?k "scsrs (kern_st s) sscratch" uart dev me node_at] assms by (auto simp: console_ready_def)
  then show ?thesis
    using assms
    by (intro exI [of _ "SCSR_WRITE (?k\<lparr>fw := g\<rparr>) sepc (scsrs ?k sepc + 4)"])
      (simp add: user_calls_def console_ready_def ring_text_def port_text_def port_bytes_def byte_kept)
qed

lemma getchar_user:
  assumes "console_ready uart (kern_st s)" "ring_text (kern_st s) = c # xs"
  shows "\<exists>k. user_calls dev (sbi_firmware uart me) node_at site 2 [] s = Ret (s\<lparr>kern_st := k\<rparr>) (ucast c)
    \<and> console_ready uart k \<and> ring_text k = xs \<and> port_text k = port_text (kern_st s)"
proof -
  let ?k = "call_in site 2 [] (kern_st s)"
  obtain r where r: "con_get (con (fw (kern_st s))) = Some (r, Some c)" "con_ok r" "con_elems r = xs"
    using console.get_first [of "con (fw (kern_st s))" c xs] assms by (auto simp: console_ready_def ring_text_def)
  then have "ring_get (con (fw ?k)) = Some (r, c)" by (auto simp: con_get_def split: if_splits)
  from getchar_trap [OF call_in_fields(1,2,4) this, of dev uart me node_at]
  obtain g where "os_c_trap_handler dev (sbi_firmware uart me) node_at ?k
      = Ret (set_XREG (scsrs (kern_st s) sscratch) XREG_A0 (ucast c) (SCSR_WRITE (?k\<lparr>fw := g\<rparr>) sepc (scsrs ?k sepc + 4))) ()"
    "con g = r" "written g = written (fw (kern_st s))"
    by auto
  then show ?thesis
    using assms r
    by (intro exI [of _ "set_XREG (scsrs (kern_st s) sscratch) XREG_A0 (ucast c) (SCSR_WRITE (?k\<lparr>fw := g\<rparr>) sepc (scsrs ?k sepc + 4))"])
      (simp add: user_calls_def console_ready_def ring_text_def port_text_def)
qed

interpretation machine: console_kernel "user_calls dev (sbi_firmware uart me) node_at site" "console_ready uart" ring_text port_text
  by unfold_locales (fact getchar_user, fact putchar_user)

end
